(* ===== verification/Xv6_Prelude.thy ===== *)
theory Xv6_Prelude
  imports Main "HOL-Library.Word"
begin

text \<open>
  Shared vocabulary of the development: the machine integer types of the i386 target, the
  outcome of Rust code that may panic, the overflow-checked arithmetic of the debug profile
  (the profile the Makefile builds the kernel with), and the generic facts on words and lists
  that the component theories use.
\<close>

unbundle bit_operations_syntax

section \<open>Machine integers\<close>

type_synonym u8 = "8 word"
type_synonym u16 = "16 word"
type_synonym u32 = "32 word"
type_synonym usize = "32 word"

section \<open>Outcomes of code that may panic\<close>

text \<open>
  A panic carries its message. \<open>Undefined\<close> marks an access through a raw pointer that points to
  no live object, \<open>Todo\<close> is the panic of \<^verbatim>\<open>todo!()\<close>, \<open>Spin\<close> marks a busy-wait loop that
  never leaves because nothing it waits for can happen, and \<open>IoError\<close> is an error that a program
  of the host returns from the operating system.
\<close>

datatype fault = Panic string | Todo | Undefined string | Spin | IoError string

type_synonym 'a res = "fault + 'a"

abbreviation Ok :: "'a \<Rightarrow> 'a res" where
  "Ok \<equiv> Inr"

abbreviation Fail :: "fault \<Rightarrow> 'a res" where
  "Fail \<equiv> Inl"

definition rbind :: "'a res \<Rightarrow> ('a \<Rightarrow> 'b res) \<Rightarrow> 'b res" where
  "rbind m f = (case m of Inl e \<Rightarrow> Inl e | Inr x \<Rightarrow> f x)"

definition rassert :: "bool \<Rightarrow> string \<Rightarrow> unit res" where
  "rassert b msg = (if b then Ok () else Fail (Panic msg))"

definition rexpect :: "'a option \<Rightarrow> string \<Rightarrow> 'a res" where
  "rexpect x msg = (case x of None \<Rightarrow> Fail (Panic msg) | Some v \<Rightarrow> Ok v)"

definition rindex :: "'a list \<Rightarrow> nat \<Rightarrow> 'a res" where
  "rindex xs i = (if i < length xs then Ok (xs ! i) else Fail (Panic ''index out of bounds''))"

definition checked_add :: "'a::len word \<Rightarrow> 'a word \<Rightarrow> 'a word res" where
  "checked_add a b = (if unat a + unat b < 2 ^ LENGTH('a) then Ok (a + b)
     else Fail (Panic ''attempt to add with overflow''))"

definition checked_sub :: "'a::len word \<Rightarrow> 'a word \<Rightarrow> 'a word res" where
  "checked_sub a b = (if b \<le> a then Ok (a - b)
     else Fail (Panic ''attempt to subtract with overflow''))"

definition checked_mul :: "'a::len word \<Rightarrow> 'a word \<Rightarrow> 'a word res" where
  "checked_mul a b = (if unat a * unat b < 2 ^ LENGTH('a) then Ok (a * b)
     else Fail (Panic ''attempt to multiply with overflow''))"

text \<open>A loop over a range of numbers whose body may fail.\<close>

function for_range :: "nat \<Rightarrow> nat \<Rightarrow> (nat \<Rightarrow> 's \<Rightarrow> 's res) \<Rightarrow> 's \<Rightarrow> 's res" where
  "for_range a b f s = (if a < b then rbind (f a s) (for_range (Suc a) b f) else Ok s)"
  by auto
termination
  by (relation "measure (\<lambda>(a, b, f, s). b - a)") auto

declare for_range.simps [simp del]

named_theorems res_simps \<open>evaluation of outcomes\<close>
named_theorems word_facts \<open>reading bit operations as arithmetic\<close>

lemma rbind_simps [simp, res_simps]:
  "rbind (Inl e) f = Inl e"
  "rbind (Inr x) f = f x"
  by (simp_all add: rbind_def)

lemma rbind_Ok_iff: "rbind m f = Inr y \<longleftrightarrow> (\<exists>x. m = Inr x \<and> f x = Inr y)"
  by (cases m) simp_all

lemma rbind_OkE:
  assumes "rbind m f = Inr y"
  obtains x where "m = Inr x" "f x = Inr y"
  using assms by (auto simp: rbind_Ok_iff)

lemma rbind_cong [fundef_cong]:
  "m = m' \<Longrightarrow> (\<And>x. m' = Inr x \<Longrightarrow> f x = g x) \<Longrightarrow> rbind m f = rbind m' g"
  by (cases m') (simp_all add: rbind_def)

lemma rbind_assoc: "rbind (rbind m f) g = rbind m (\<lambda>x. rbind (f x) g)"
  by (cases m) simp_all

lemma for_range_inv:
  assumes "\<And>i s. a \<le> i \<Longrightarrow> i < b \<Longrightarrow> P i s \<Longrightarrow> \<exists>s'. f i s = Inr s' \<and> P (Suc i) s'"
  shows "a \<le> k \<Longrightarrow> k \<le> b \<Longrightarrow> P k s \<Longrightarrow> \<exists>s'. for_range k b f s = Inr s' \<and> P b s'"
proof (induction "b - k" arbitrary: k s)
  case 0
  then show ?case by (simp add: for_range.simps)
next
  case (Suc d)
  then have "k < b" "d = b - Suc k" by simp_all
  moreover obtain s1 where "f k s = Inr s1" "P (Suc k) s1" using assms [OF Suc(3) \<open>k < b\<close> Suc(5)] by blast
  ultimately show ?case using Suc(1) [of "Suc k" s1] Suc(3) by (subst for_range.simps) simp
qed

lemma rassert_simps [simp, res_simps]:
  "rassert True msg = Inr ()"
  "rassert False msg = Inl (Panic msg)"
  by (simp_all add: rassert_def)

lemma rassert_Ok_iff [simp]: "rassert b msg = Inr u \<longleftrightarrow> b"
  by (simp add: rassert_def)

lemma rexpect_simps [simp, res_simps]:
  "rexpect None msg = Inl (Panic msg)"
  "rexpect (Some v) msg = Inr v"
  by (simp_all add: rexpect_def)

lemma rexpect_Ok_iff [simp]: "rexpect x msg = Inr v \<longleftrightarrow> x = Some v"
  by (auto simp: rexpect_def split: option.splits)

lemma rindex_Ok [simp]: "i < length xs \<Longrightarrow> rindex xs i = Inr (xs ! i)"
  by (simp add: rindex_def)

lemma checked_add_Ok:
  fixes a b :: "'a::len word"
  shows "unat a + unat b < 2 ^ LENGTH('a) \<Longrightarrow> checked_add a b = Inr (a + b)"
  by (simp add: checked_add_def)

lemma checked_add_OkD:
  fixes a b :: "'a::len word"
  shows "checked_add a b = Inr c \<Longrightarrow> c = a + b \<and> unat c = unat a + unat b"
  by (auto simp: checked_add_def unat_word_ariths split: if_splits)

lemma checked_sub_Ok: "b \<le> a \<Longrightarrow> checked_sub a b = Inr (a - b)"
  by (simp add: checked_sub_def)

lemma checked_sub_OkD: "checked_sub a b = Inr c \<Longrightarrow> c = a - b \<and> unat c = unat a - unat b"
  by (auto simp: checked_sub_def unat_sub split: if_splits)

section \<open>Words\<close>

lemma unat_less32: "unat (w :: 32 word) < 4294967296"
  using unsigned_less [of w] by simp

lemma unat_less16: "unat (w :: 16 word) < 65536"
  using unsigned_less [of w] by simp

lemma unat_less8: "unat (w :: 8 word) < 256"
  using unsigned_less [of w] by simp

lemma unat_and_mask [word_facts]: "unat (w AND mask n) = unat w mod 2 ^ n"
proof -
  have "unat (w AND mask n) = unat (take_bit n w)"
    by (simp only: take_bit_eq_mask)
  also have "\<dots> = take_bit n (unat w)"
    by (rule unsigned_take_bit_eq)
  finally show ?thesis by (simp only: take_bit_eq_mod)
qed

lemma unat_drop_bit [word_facts]: "unat (drop_bit n w) = unat w div 2 ^ n"
  by (simp only: unat_drop_bit_eq) (simp add: drop_bit_eq_div)

lemma mask_consts:
  "(0x3FF :: 32 word) = mask 10" "(0xFFF :: 32 word) = mask 12" "(0xFF :: 32 word) = mask 8"
  "(0xFFFF :: 32 word) = mask 16" "(0x0F :: 8 word) = mask 4"
  by (simp_all add: mask_eq_exp_minus_1)

lemma or_masked_fields:
  fixes a f m :: "'a::len word"
  assumes "a AND m = 0"
  shows "(a OR (f AND m)) AND NOT m = a"
    and "(a OR (f AND m)) AND m = f AND m"
proof -
  show "(a OR (f AND m)) AND m = f AND m"
    using assms by (metis (no_types, lifting) and.assoc and.idem bit.conj_disj_distrib2 or.left_neutral)
  have "a AND NOT m = a"
    using assms by (metis bit.conj_cancel_right bit.conj_disj_distrib bit.conj_one_right bit.disj_cancel_right or.left_neutral)
  then show "(a OR (f AND m)) AND NOT m = a"
    by (simp add: bit.conj_disj_distrib2 and.assoc)
qed

end
