(* ===== verification/Address.thy ===== *)
theory Address
  imports Xv6_Prelude
begin

text \<open>
  Typed addresses (\<^verbatim>\<open>utils/src/address.rs\<close>) and the memory layout constants with the
  physical/virtual conversions of \<^verbatim>\<open>kernel/src/memory.rs\<close>. An address \<^verbatim>\<open>Addr<T, A>\<close> is its raw
  \<^verbatim>\<open>usize\<close>; the phantom type \<^verbatim>\<open>T\<close> acts through its size and alignment only, so each operation
  takes the layout of \<^verbatim>\<open>T\<close>. The address-space tag \<^verbatim>\<open>A\<close> has no run-time effect. The debug
  assertions are on, as in the profile the kernel is built with.
\<close>

section \<open>Typed addresses\<close>

record layout =
  size_of :: usize
  align_of :: usize

definition byte_layout :: layout where
  "byte_layout = \<lparr>size_of = 1, align_of = 1\<rparr>"

definition Page :: layout where
  "Page = \<lparr>size_of = 4096, align_of = 1\<rparr>"

definition PageTable :: layout where
  "PageTable = \<lparr>size_of = 4096, align_of = 4096\<rparr>"

definition addr_from :: "layout \<Rightarrow> usize \<Rightarrow> usize res" where
  "addr_from T ptr = rbind (rassert (ptr mod align_of T = 0) ''address must be aligned properly'')
     (\<lambda>_. Ok ptr)"

definition addr_from_raw :: "layout \<Rightarrow> usize \<Rightarrow> usize res" where
  "addr_from_raw T raw_addr =
     rbind (rassert (raw_addr mod align_of T = 0) ''address must be aligned properly'')
       (\<lambda>_. Ok raw_addr)"

definition addr_null :: usize where
  "addr_null = 0"

definition addr_cast :: "layout \<Rightarrow> usize \<Rightarrow> usize res" where
  "addr_cast U a = rbind (rassert (a mod align_of U = 0) ''address must be aligned properly'')
     (\<lambda>_. addr_from U a)"

definition addr_is_null :: "usize \<Rightarrow> bool" where
  "addr_is_null a = (a = 0)"

definition is_power_of_two :: "usize \<Rightarrow> bool" where
  "is_power_of_two a = (\<exists>k < 32. a = 2 ^ k)"

definition round_up :: "layout \<Rightarrow> usize \<Rightarrow> usize \<Rightarrow> usize res" where
  "round_up T a align = rbind (rassert (is_power_of_two align) ''align is not pow of 2'')
     (\<lambda>_. let tmp = align - 1 in addr_from_raw T ((a + tmp) AND NOT tmp))"

definition round_down :: "layout \<Rightarrow> usize \<Rightarrow> usize \<Rightarrow> usize res" where
  "round_down T a align = rbind (rassert (is_power_of_two align) ''align is not pow of 2'')
     (\<lambda>_. addr_from_raw T (a AND NOT (align - 1)))"

text \<open>Pointer arithmetic moves by whole elements and wraps around the address space.\<close>

definition addr_add :: "layout \<Rightarrow> usize \<Rightarrow> usize \<Rightarrow> usize res" where
  "addr_add T a offset = addr_from T (a + offset * size_of T)"

definition addr_sub :: "layout \<Rightarrow> usize \<Rightarrow> usize \<Rightarrow> usize res" where
  "addr_sub T a offset = addr_from T (a - offset * size_of T)"

section \<open>Memory layout\<close>

definition PAGE_SIZE :: usize where "PAGE_SIZE = 4096"
definition KSTACKSIZE :: usize where "KSTACKSIZE = 4096"
definition KERNBASE :: usize where "KERNBASE = 0x80000000"
definition KERNLINK :: usize where "KERNLINK = 0x80100000"
definition EXTMEM :: usize where "EXTMEM = 0x100000"
definition PHYSTOP :: usize where "PHYSTOP = 0xE000000"
definition DEVSPACE :: usize where "DEVSPACE = 0xFE000000"

definition p2v :: "usize \<Rightarrow> usize res" where
  "p2v pa = checked_add pa KERNBASE"

definition v2p :: "usize \<Rightarrow> usize res" where
  "v2p va = checked_sub va KERNBASE"

section \<open>Facts\<close>

lemmas layout_consts = PAGE_SIZE_def KSTACKSIZE_def KERNBASE_def KERNLINK_def EXTMEM_def
  PHYSTOP_def DEVSPACE_def

lemma layout_simps [simp]:
  "size_of byte_layout = 1" "align_of byte_layout = 1"
  "size_of Page = 4096" "align_of Page = 1"
  "size_of PageTable = 4096" "align_of PageTable = 4096"
  by (simp_all add: byte_layout_def Page_def PageTable_def)

lemma mod_one_word [simp]: "(w :: 'a::len word) mod 1 = 0"
  by simp

lemma addr_align_one [simp]:
  assumes "align_of T = 1"
  shows "addr_from T a = Inr a" "addr_from_raw T a = Inr a" "addr_cast T a = Inr a"
  using assms by (simp_all add: addr_from_def addr_from_raw_def addr_cast_def)

lemma addr_from_raw_Ok_iff: "addr_from_raw T a = Inr b \<longleftrightarrow> b = a \<and> a mod align_of T = 0"
  by (auto simp: addr_from_raw_def rassert_def)

lemma addr_from_Ok_iff: "addr_from T a = Inr b \<longleftrightarrow> b = a \<and> a mod align_of T = 0"
  by (auto simp: addr_from_def rassert_def)

lemma is_power_of_two_pow [simp]: "k < 32 \<Longrightarrow> is_power_of_two (2 ^ k)"
  by (auto simp: is_power_of_two_def)

lemma is_power_of_two_4096 [simp]: "is_power_of_two 4096"
  using is_power_of_two_pow [of 12] by simp

lemma and_not_plus_and: "(a AND NOT m) + (a AND m) = (a :: 'a::len word)"
proof -
  have "(a AND NOT m) AND (a AND m) = 0"
    by (simp add: ac_simps)
  moreover have "(a AND NOT m) OR (a AND m) = a"
    by (simp flip: bit.conj_disj_distrib)
  ultimately show ?thesis
    using word_plus_and_or [of "a AND NOT m" "a AND m"] by simp
qed

lemma and_not_low_mask:
  fixes a :: "32 word"
  shows "a AND NOT (2 ^ k - 1) = a - a mod 2 ^ k"
proof -
  have "a AND mask k = a mod 2 ^ k"
    by (simp flip: take_bit_eq_mask take_bit_eq_mod)
  then show ?thesis
    using and_not_plus_and [of a "mask k"] by (simp add: mask_eq_exp_minus_1 eq_diff_eq)
qed

lemma unat_mod_pow2: "unat ((a :: 32 word) mod 2 ^ k) = unat a mod 2 ^ k"
proof -
  have "unat (take_bit k a) = take_bit k (unat a)"
    by (rule unsigned_take_bit_eq)
  then show ?thesis by (simp only: take_bit_eq_mod)
qed

lemma unat_pow2: "k < 32 \<Longrightarrow> unat (2 ^ k :: 32 word) = 2 ^ k"
proof -
  assume "k < 32"
  then have "(2::nat) ^ k < 2 ^ 32"
    by (rule power_strict_increasing) simp
  then show ?thesis
    using unat_of_nat [of "2 ^ k", where 'a = 32] by simp
qed

lemma unat_round_down_pow2:
  fixes a :: "32 word"
  shows "unat (a AND NOT (2 ^ k - 1)) = unat a - unat a mod 2 ^ k"
proof -
  have "a mod 2 ^ k \<le> a"
    by (simp add: word_le_nat_alt unat_mod_pow2)
  then show ?thesis
    by (simp add: and_not_low_mask unat_sub unat_mod_pow2)
qed

lemma round_down_page:
  "round_down byte_layout a PAGE_SIZE = Inr (a AND NOT 0xFFF)"
  by (simp add: round_down_def PAGE_SIZE_def)

lemma unat_page_floor: "unat (a AND NOT 0xFFF :: 32 word) = unat a div 4096 * 4096"
  using unat_round_down_pow2 [of a 12] by (simp add: minus_mod_eq_div_mult)

lemma p2v_Ok: "unat pa < 0x80000000 \<Longrightarrow> p2v pa = Inr (pa + KERNBASE)"
  by (simp add: p2v_def checked_add_def KERNBASE_def)

lemma v2p_Ok: "KERNBASE \<le> va \<Longrightarrow> v2p va = Inr (va - KERNBASE)"
  by (simp add: v2p_def checked_sub_def)

lemma v2p_OkD: "v2p va = Inr pa \<Longrightarrow> KERNBASE \<le> va \<and> pa = va - KERNBASE"
  by (auto simp: v2p_def checked_sub_def split: if_splits)

lemma p2v_OkD: "p2v pa = Inr va \<Longrightarrow> va = pa + KERNBASE \<and> unat va = unat pa + 0x80000000"
  using checked_add_OkD [of pa KERNBASE va] by (auto simp: p2v_def KERNBASE_def)

lemma pow2_mod_smaller:
  assumes "(2::nat) ^ k dvd unat (r :: 32 word)" "j \<le> k" "k < 32"
  shows "r mod 2 ^ j = 0"
proof -
  have "(2::nat) ^ j dvd unat r"
    using assms(1,2) by (meson dvd_trans le_imp_power_dvd)
  then have "unat (r mod 2 ^ j) = 0"
    by (simp add: unat_mod_pow2)
  then show ?thesis by (simp only: unat_eq_zero)
qed

lemma unat_add_low_mask:
  assumes "k < 32"
  shows "unat (a + (2 ^ k - 1) :: 32 word) = (unat a + (2 ^ k - 1)) mod 2 ^ 32"
proof -
  have "unat (2 ^ k - 1 :: 32 word) = 2 ^ k - 1"
    using assms unat_sub [of 1 "2 ^ k :: 32 word"] by (simp add: unat_pow2 word_le_nat_alt)
  then show ?thesis by (simp add: unat_word_ariths)
qed

section \<open>Properties\<close>

text \<open>Rounding an address down to a power of two not below the alignment of its type never
  panics and yields the greatest multiple of that power that is not above the address.\<close>

lemma round_down_greatest_multiple:
  assumes "k < 32" "j \<le> k" "align_of T = 2 ^ j"
  shows "\<exists>r. round_down T a (2 ^ k) = Inr r \<and> 2 ^ k dvd unat r \<and> unat r \<le> unat a
    \<and> unat a < unat r + 2 ^ k"
proof -
  let ?r = "a AND NOT (2 ^ k - 1)"
  have r: "unat ?r = unat a div 2 ^ k * 2 ^ k"
    by (simp add: unat_round_down_pow2 minus_mod_eq_div_mult)
  then have "?r mod align_of T = 0"
    using assms pow2_mod_smaller [of k ?r j] by simp
  then have "round_down T a (2 ^ k) = Inr ?r"
    using assms(1) by (simp add: round_down_def addr_from_raw_def)
  moreover have "unat a < unat a div 2 ^ k * 2 ^ k + 2 ^ k"
    by (metis add_less_cancel_left div_mult_mod_eq mod_less_divisor zero_less_numeral zero_less_power)
  ultimately show ?thesis
    using r by simp
qed

text \<open>Rounding up yields the least multiple that is not below the address; when no multiple
  fits below the top of the address space the result wraps to 0, as the unit test of the
  kernel expects.\<close>

lemma round_up_least_multiple:
  assumes "k < 32" "j \<le> k" "align_of T = 2 ^ j"
  shows "\<exists>r. round_up T a (2 ^ k) = Inr r \<and> 2 ^ k dvd unat r \<and>
    (if unat a \<le> 2 ^ 32 - 2 ^ k then unat a \<le> unat r \<and> unat r < unat a + 2 ^ k else r = 0)"
proof -
  let ?b = "a + (2 ^ k - 1)" and ?r = "(a + (2 ^ k - 1)) AND NOT (2 ^ k - 1)"
  have r: "unat ?r = unat ?b div 2 ^ k * 2 ^ k"
    by (simp add: unat_round_down_pow2 minus_mod_eq_div_mult)
  then have "?r mod align_of T = 0"
    using assms pow2_mod_smaller [of k ?r j] by simp
  then have ok: "round_up T a (2 ^ k) = Inr ?r"
    using assms(1) by (simp add: round_up_def addr_from_raw_def Let_def)
  have k: "(2::nat) ^ k \<ge> 1" "(2::nat) ^ k \<le> 2 ^ 32"
    using assms(1) power_increasing [of k 32 "2::nat"] by simp_all
  have lt: "unat a < 2 ^ 32"
    using unsigned_less [of a] by simp
  show ?thesis
  proof (cases "unat a \<le> 2 ^ 32 - 2 ^ k")
    case True
    then have "unat ?b = unat a + (2 ^ k - 1)"
      using assms(1) k by (simp add: unat_add_low_mask)
    moreover have "unat ?b div 2 ^ k * 2 ^ k + unat ?b mod 2 ^ k = unat ?b"
      by (rule div_mult_mod_eq)
    moreover have "unat ?b mod 2 ^ k < 2 ^ k"
      by simp
    ultimately have "unat a \<le> unat ?r \<and> unat ?r < unat a + 2 ^ k"
      using r k by linarith
    with True ok r show ?thesis by simp
  next
    case False
    with k lt have "unat a + (2 ^ k - 1) - 2 ^ 32 < 2 ^ k" "2 ^ 32 \<le> unat a + (2 ^ k - 1)"
      "unat a + (2 ^ k - 1) < 2 * 2 ^ 32"
      by linarith+
    then have "unat ?b < 2 ^ k"
      using assms(1) by (simp add: unat_add_low_mask mod_if)
    with r have "unat ?r = 0"
      by simp
    then have "?r = 0"
      by (simp only: unat_eq_zero)
    with False ok show ?thesis by simp
  qed
qed

text \<open>The two address conversions are inverse to each other, each panicking exactly on the
  addresses that are not in the range of the other: a physical address has a kernel virtual
  address exactly when it is below \<^verbatim>\<open>KERNBASE\<close>, and only virtual addresses from \<^verbatim>\<open>KERNBASE\<close> up
  have a physical address.\<close>

lemma p2v_v2p_inverse:
  "(p2v pa = Inr va) = (v2p va = Inr pa)
   \<and> (\<exists>v. p2v pa = Inr v) = (pa < KERNBASE)
   \<and> (\<exists>p. v2p va = Inr p) = (KERNBASE \<le> va)"
proof (intro conjI)
  have "p2v pa = Inr va \<Longrightarrow> v2p va = Inr pa"
    using p2v_OkD [of pa va] by (auto simp: v2p_def checked_sub_def word_le_nat_alt KERNBASE_def)
  moreover have "v2p va = Inr pa \<Longrightarrow> p2v pa = Inr va"
    using v2p_OkD [of va pa] unat_less32 [of va]
    by (auto simp: p2v_def checked_add_def unat_sub word_le_nat_alt KERNBASE_def)
  ultimately show "(p2v pa = Inr va) = (v2p va = Inr pa)"
    by blast
  show "(\<exists>v. p2v pa = Inr v) = (pa < KERNBASE)"
    by (auto simp: p2v_def checked_add_def word_less_nat_alt KERNBASE_def)
  show "(\<exists>p. v2p va = Inr p) = (KERNBASE \<le> va)"
    by (auto simp: v2p_def checked_sub_def)
qed

end
