(* ===== verification/Descriptors.thy ===== *)
theory Descriptors
  imports Address
begin

text \<open>
  Segment and gate descriptors of \<^verbatim>\<open>kernel/src/memory.rs\<close> (modules \<^verbatim>\<open>seg\<close> and \<^verbatim>\<open>gate\<close>), the global
  descriptor table of \<^verbatim>\<open>vm::seginit\<close>, the interrupt descriptor table of \<^verbatim>\<open>trap::init\<close>, the descriptor
  tables written out as bytes in the start-up code of \<^verbatim>\<open>bootloader/src/main.rs\<close> and
  \<^verbatim>\<open>kernel/src/main.rs\<close>, and the pseudo-descriptors of \<^verbatim>\<open>utils/src/x86.rs\<close>. They are compared with the
  fields the processor reads (Intel SDM Vol. 3, 3.4.5 and 6.11).
\<close>

section \<open>Segment descriptors\<close>

definition SEG_KCODE :: nat where "SEG_KCODE = 1"
definition SEG_KDATA :: nat where "SEG_KDATA = 2"
definition SEG_UCODE :: nat where "SEG_UCODE = 3"
definition SEG_UDATA :: nat where "SEG_UDATA = 4"
definition SEG_TSS :: nat where "SEG_TSS = 5"
definition NSEGS :: nat where "NSEGS = 6"

definition STA_X :: u8 where "STA_X = 0x8"
definition STA_W :: u8 where "STA_W = 0x2"
definition STA_R :: u8 where "STA_R = 0x2"
definition STS_T32A :: u8 where "STS_T32A = 0x9"
definition STS_IG32 :: u8 where "STS_IG32 = 0xE"
definition STS_TG32 :: u8 where "STS_TG32 = 0xF"
definition DPL_USER :: u8 where "DPL_USER = 0x3"

record desc =
  f1 :: u32
  f2 :: u32

type_synonym SegDesc = desc
type_synonym GateDesc = desc

definition seg_new :: desc where
  "seg_new = \<lparr>f1 = 0, f2 = 0\<rparr>"

definition seg_set_lim :: "u32 \<Rightarrow> desc \<Rightarrow> desc" where
  "seg_set_lim limit d =
     (let lim_00_15 = limit AND 0x0000FFFF; lim_16_19 = limit AND 0x000F0000 in
      d\<lparr>f1 := (f1 d AND 0xFFFF0000) OR lim_00_15, f2 := (f2 d AND 0xFFF0FFFF) OR lim_16_19\<rparr>)"

definition seg_set_base :: "u32 \<Rightarrow> desc \<Rightarrow> desc" where
  "seg_set_base base d =
     (let base_00_15 = base AND 0x0000FFFF; base_16_23 = base AND 0x00FF0000;
          base_24_31 = base AND 0xFF000000 in
      d\<lparr>f1 := (f1 d AND 0x0000FFFF) OR push_bit 16 base_00_15,
        f2 := (f2 d AND 0x00FFFF00) OR base_24_31 OR drop_bit 16 base_16_23\<rparr>)"

definition seg_set_flags :: "u8 \<Rightarrow> desc \<Rightarrow> desc" where
  "seg_set_flags flags d =
     d\<lparr>f2 := (f2 d AND 0xFF0FFFFF) OR push_bit 20 (ucast (flags AND 0x0F))\<rparr>"

definition seg_set_access_byte :: "u8 \<Rightarrow> desc \<Rightarrow> desc" where
  "seg_set_access_byte access d = d\<lparr>f2 := (f2 d AND 0xFFFF00FF) OR push_bit 8 (ucast access)\<rparr>"

definition seg_seg :: "u8 \<Rightarrow> u32 \<Rightarrow> u32 \<Rightarrow> u8 \<Rightarrow> desc" where
  "seg_seg ty base lim dpl = seg_set_flags 0b1100 (seg_set_access_byte
     (0b10010000 OR push_bit 5 (dpl AND 0b11) OR ty)
     (seg_set_lim (drop_bit 12 lim) (seg_set_base base seg_new)))"

definition seg_tss :: "u8 \<Rightarrow> u32 \<Rightarrow> u32 \<Rightarrow> u8 \<Rightarrow> desc" where
  "seg_tss ty base lim dpl = seg_set_flags 0b0100 (seg_set_access_byte
     (0b10000000 OR push_bit 5 (dpl AND 0b11) OR ty)
     (seg_set_lim lim (seg_set_base base seg_new)))"

definition GDT_ZERO :: "desc list" where
  "GDT_ZERO = [seg_new, seg_new, seg_new, seg_new, seg_new, seg_new]"

text \<open>The part of \<^verbatim>\<open>seginit\<close> that fills the table of the processor.\<close>

definition seginit_gdt :: "desc list \<Rightarrow> desc list" where
  "seginit_gdt gdt = gdt
     [SEG_KCODE := seg_seg (STA_X OR STA_R) 0 0xFFFFFFFF 0,
      SEG_KDATA := seg_seg STA_W 0 0xFFFFFFFF 0,
      SEG_UCODE := seg_seg (STA_X OR STA_R) 0 0xFFFFFFFF DPL_USER,
      SEG_UDATA := seg_seg STA_W 0 0xFFFFFFFF DPL_USER]"

text \<open>The tables of the start-up code: three descriptors of eight bytes each.\<close>

definition boot_gdt :: "u8 list" where
  "boot_gdt =
    [0x00, 0x00, 0x00, 0x00, 0x00, 0x00, 0x00, 0x00,
     0xFF, 0xFF, 0x00, 0x00, 0x00, 0x9A, 0xCF, 0x00,
     0xFF, 0xFF, 0x00, 0x00, 0x00, 0x92, 0xCF, 0x00]"

definition ap_gdt :: "u8 list" where
  "ap_gdt =
    [0x00, 0x00, 0x00, 0x00, 0x00, 0x00, 0x00, 0x00,
     0xFF, 0xFF, 0x00, 0x00, 0x00, 0x9A, 0xCF, 0x00,
     0xFF, 0xFF, 0x00, 0x00, 0x00, 0x92, 0xCF, 0x00]"

section \<open>Gate descriptors\<close>

definition gate_new :: desc where
  "gate_new = \<lparr>f1 = 0, f2 = 0\<rparr>"

definition gate_set_offset :: "u32 \<Rightarrow> desc \<Rightarrow> desc" where
  "gate_set_offset offset d =
     (let offset_00_15 = offset AND 0x0000FFFF; offset_16_31 = offset AND 0xFFFF0000 in
      d\<lparr>f1 := (f1 d AND 0xFFFF0000) OR offset_00_15, f2 := (f2 d AND 0x0000FFFF) OR offset_16_31\<rparr>)"

definition gate_set_selector :: "u16 \<Rightarrow> desc \<Rightarrow> desc" where
  "gate_set_selector selector d = d\<lparr>f1 := (f1 d AND 0x0000FFFF) OR push_bit 16 (ucast selector)\<rparr>"

definition gate_set_type_attribute :: "u8 \<Rightarrow> desc \<Rightarrow> desc" where
  "gate_set_type_attribute type_attr d =
     d\<lparr>f2 := (f2 d AND 0xFFFF00FF) OR push_bit 8 (ucast type_attr)\<rparr>"

definition gate_set :: "bool \<Rightarrow> u16 \<Rightarrow> u32 \<Rightarrow> u8 \<Rightarrow> desc" where
  "gate_set is_trap selector offset dpl0 =
     (let present = 1; dpl = dpl0 AND 0x03; s = 0;
          ty = (if is_trap then STS_TG32 else STS_IG32) AND 0x0F;
          attr_ty = push_bit 7 present OR push_bit 5 dpl OR push_bit 4 s OR ty in
      gate_set_type_attribute attr_ty (gate_set_selector selector (gate_set_offset offset gate_new)))"

definition T_SYSCALL :: nat where "T_SYSCALL = 64"

text \<open>\<^verbatim>\<open>trap::init\<close>; \<open>vectors\<close> are the entry points of the stubs that \<^verbatim>\<open>build.rs\<close> generates.\<close>

definition trap_init :: "u32 list \<Rightarrow> desc list \<Rightarrow> desc list" where
  "trap_init vectors IDT =
     (fold (\<lambda>i idt. idt[i := gate_set False (of_nat (SEG_KCODE * 8)) (vectors ! i) 0]) [0..<256] IDT)
     [T_SYSCALL := gate_set True (of_nat (SEG_KCODE * 8)) (vectors ! T_SYSCALL) DPL_USER]"

text \<open>The pseudo-descriptors of \<^verbatim>\<open>x86::lgdt\<close> and \<^verbatim>\<open>x86::lidt\<close> are three 16-bit words.\<close>

definition pseudo_desc :: "usize \<Rightarrow> u16 \<Rightarrow> u16 list res" where
  "pseudo_desc addr sz = rbind (checked_sub sz 1) (\<lambda>lim.
     Ok [lim, ucast addr, ucast (drop_bit 16 addr)])"

section \<open>What the processor reads\<close>

definition desc_base :: "desc \<Rightarrow> u32" where
  "desc_base d = (drop_bit 16 (f1 d) AND 0xFFFF) OR push_bit 16 (f2 d AND 0xFF) OR (f2 d AND 0xFF000000)"

definition desc_limit :: "desc \<Rightarrow> u32" where
  "desc_limit d = (f1 d AND 0xFFFF) OR (f2 d AND 0x000F0000)"

definition desc_access :: "desc \<Rightarrow> u8" where
  "desc_access d = ucast (drop_bit 8 (f2 d))"

definition desc_flags :: "desc \<Rightarrow> u8" where
  "desc_flags d = ucast (drop_bit 20 (f2 d)) AND 0xF"

definition gate_offset :: "desc \<Rightarrow> u32" where
  "gate_offset d = (f1 d AND 0xFFFF) OR (f2 d AND 0xFFFF0000)"

definition gate_selector :: "desc \<Rightarrow> u16" where
  "gate_selector d = ucast (drop_bit 16 (f1 d))"

definition gate_attr :: "desc \<Rightarrow> u8" where
  "gate_attr d = ucast (drop_bit 8 (f2 d))"

text \<open>A descriptor from the bytes at which it is stored.\<close>

definition desc_of_bytes :: "u8 list \<Rightarrow> desc" where
  "desc_of_bytes bs =
     \<lparr>f1 = ucast (bs ! 0) OR push_bit 8 (ucast (bs ! 1)) OR push_bit 16 (ucast (bs ! 2)) OR push_bit 24 (ucast (bs ! 3)),
      f2 = ucast (bs ! 4) OR push_bit 8 (ucast (bs ! 5)) OR push_bit 16 (ucast (bs ! 6)) OR push_bit 24 (ucast (bs ! 7))\<rparr>"

lemma field_masks:
  "(0x0000FFFF :: u32) = mask 16" "(0x000F0000 :: u32) = push_bit 16 (mask 4)"
  "(0xFFFF0000 :: u32) = push_bit 16 (mask 16)" "(0xFFF0FFFF :: u32) = NOT (push_bit 16 (mask 4))"
  "(0x00FF0000 :: u32) = push_bit 16 (mask 8)" "(0xFF000000 :: u32) = push_bit 24 (mask 8)"
  "(0x00FFFF00 :: u32) = push_bit 8 (mask 16)" "(0xFF0FFFFF :: u32) = NOT (push_bit 20 (mask 4))"
  "(0xFFFF00FF :: u32) = NOT (push_bit 8 (mask 8))" "(0xFF :: u32) = mask 8" "(0xF :: u8) = mask 4"
  "(0xFFFFF :: u32) = mask 20"
  by (simp_all add: mask_eq_exp_minus_1)

lemmas seg_defs = seg_new_def seg_set_lim_def seg_set_base_def seg_set_flags_def
  seg_set_access_byte_def Let_def

lemmas gate_defs = gate_new_def gate_set_offset_def gate_set_selector_def gate_set_type_attribute_def

lemma small_bits [dest]:
  "bit (a :: u8) n \<Longrightarrow> n < 8" "bit (b :: u16) n \<Longrightarrow> n < 16" "bit (c :: u32) n \<Longrightarrow> n < 32"
  using bit_imp_le_length by fastforce+

text \<open>\<^verbatim>\<open>set_base\<close> sets its own field and keeps the others.\<close>

lemma seg_set_base_fields:
  "desc_base (seg_set_base b d) = b"
  "desc_limit (seg_set_base b d) = desc_limit d"
  "desc_access (seg_set_base b d) = desc_access d"
  "desc_flags (seg_set_base b d) = desc_flags d"
proof -
  show "desc_base (seg_set_base b d) = b"
  proof (rule bit_word_eqI)
    fix n assume "n < LENGTH(32)"
    then consider "n < 16" | "16 \<le> n" "n < 24" | "24 \<le> n" "n < 32" by fastforce
    then show "bit (desc_base (seg_set_base b d)) n \<longleftrightarrow> bit b n"
      by cases (simp_all add: desc_base_def seg_defs field_masks bit_simps less_diff_conv2)
  qed
qed (unfold desc_limit_def desc_access_def desc_flags_def seg_defs field_masks;
    rule bit_word_eqI; auto simp: bit_simps)+

text \<open>\<^verbatim>\<open>set_lim\<close> sets its own field and keeps the others.\<close>

lemma seg_set_lim_fields:
  "desc_base (seg_set_lim l d) = desc_base d"
  "desc_limit (seg_set_lim l d) = l AND 0xFFFFF"
  "desc_access (seg_set_lim l d) = desc_access d"
  "desc_flags (seg_set_lim l d) = desc_flags d"
  by (unfold desc_base_def desc_limit_def desc_access_def desc_flags_def seg_defs field_masks;
      rule bit_word_eqI; auto simp: bit_simps)+

text \<open>\<^verbatim>\<open>set_access_byte\<close> sets its own field and keeps the others.\<close>

lemma seg_set_access_byte_fields:
  "desc_base (seg_set_access_byte a d) = desc_base d"
  "desc_limit (seg_set_access_byte a d) = desc_limit d"
  "desc_access (seg_set_access_byte a d) = a"
  "desc_flags (seg_set_access_byte a d) = desc_flags d"
  by (unfold desc_base_def desc_limit_def desc_access_def desc_flags_def seg_defs field_masks;
      rule bit_word_eqI; auto simp: bit_simps)+

text \<open>\<^verbatim>\<open>set_flags\<close> sets its own field and keeps the others.\<close>

lemma seg_set_flags_fields:
  "desc_base (seg_set_flags f d) = desc_base d"
  "desc_limit (seg_set_flags f d) = desc_limit d"
  "desc_access (seg_set_flags f d) = desc_access d"
  "desc_flags (seg_set_flags f d) = f AND 0xF"
  by (unfold desc_base_def desc_limit_def desc_access_def desc_flags_def seg_defs field_masks;
      rule bit_word_eqI; auto simp: bit_simps)+

lemmas seg_fields = seg_set_base_fields seg_set_lim_fields seg_set_access_byte_fields seg_set_flags_fields

lemma gate_fields:
  "gate_offset (gate_set_type_attribute a (gate_set_selector s (gate_set_offset off gate_new))) = off"
  "gate_selector (gate_set_type_attribute a (gate_set_selector s (gate_set_offset off gate_new))) = s"
  "gate_attr (gate_set_type_attribute a (gate_set_selector s (gate_set_offset off gate_new))) = a"
  by (unfold gate_offset_def gate_selector_def gate_attr_def gate_defs Let_def field_masks;
      rule bit_word_eqI; auto simp: bit_simps)+


lemma ty_fields:
  "(drop_bit 5 ac AND 3 :: u8) = dpl AND 3" "ac AND 0xF = (ty :: u8)" "bit ac 7" "bit ac 4 \<longleftrightarrow> x"
  if "ac = (if x then 0x90 else 0x80) OR push_bit 5 (dpl AND 3) OR ty" "ty AND 0xF = ty"
proof -
  have m: "(3 :: u8) = mask 2" "(0xF :: u8) = mask 4" "(0x80 :: u8) = push_bit 7 (mask 1)"
    "(0x90 :: u8) = push_bit 7 (mask 1) OR push_bit 4 (mask 1)"
    by (simp_all add: mask_eq_exp_minus_1)
  have t: "bit ty n \<Longrightarrow> n < 4" for n
    using that(2) unfolding m by (metis bit_and_iff bit_mask_iff)
  have two: "n < 2 \<longleftrightarrow> n = 0 \<or> n = 1" and four: "n < 4 \<longleftrightarrow> n = 0 \<or> n = 1 \<or> n = 2 \<or> n = 3" for n :: nat
    by linarith+
  show "(drop_bit 5 ac AND 3 :: u8) = dpl AND 3"
    unfolding that(1) m(1) by (rule bit_word_eqI) (auto simp: bit_simps two dest: t)
  show "ac AND 0xF = ty"
    unfolding that(1) m(2) by (rule bit_word_eqI) (auto simp: bit_simps four dest: t)
  show "bit ac 7" "bit ac 4 \<longleftrightarrow> x"
    unfolding that(1) by (auto simp: bit_simps dest: t)
qed

lemma seg_seg_fields:
  "desc_base (seg_seg ty b lim dpl) = b" "desc_limit (seg_seg ty b lim dpl) = drop_bit 12 lim AND 0xFFFFF"
  "desc_flags (seg_seg ty b lim dpl) = 0xC"
  "desc_access (seg_seg ty b lim dpl) = 0x90 OR push_bit 5 (dpl AND 3) OR ty"
  by (simp_all add: seg_seg_def seg_fields)

section \<open>Properties\<close>

text \<open>The descriptors of \<^verbatim>\<open>SegDesc::seg\<close> and \<^verbatim>\<open>SegDesc::tss\<close> decode to the base, limit, type and
  privilege level they were built from: \<^verbatim>\<open>seg\<close> has a limit in 4 KiB units (granularity set) and is a
  code or data segment, \<^verbatim>\<open>tss\<close> has a limit in bytes and is a system segment; both are present and
  32-bit.\<close>

lemma segment_descriptors_decode:
  assumes "ty AND 0xF = ty"
  shows "desc_base (seg_seg ty b lim dpl) = b \<and> desc_limit (seg_seg ty b lim dpl) = drop_bit 12 lim
    \<and> desc_flags (seg_seg ty b lim dpl) = 0xC \<and> desc_access (seg_seg ty b lim dpl) AND 0xF = ty
    \<and> drop_bit 5 (desc_access (seg_seg ty b lim dpl)) AND 3 = dpl AND 3
    \<and> bit (desc_access (seg_seg ty b lim dpl)) 7 \<and> bit (desc_access (seg_seg ty b lim dpl)) 4
    \<and> desc_base (seg_tss ty b lim dpl) = b \<and> desc_limit (seg_tss ty b lim dpl) = lim AND 0xFFFFF
    \<and> desc_flags (seg_tss ty b lim dpl) = 0x4 \<and> desc_access (seg_tss ty b lim dpl) AND 0xF = ty
    \<and> drop_bit 5 (desc_access (seg_tss ty b lim dpl)) AND 3 = dpl AND 3
    \<and> bit (desc_access (seg_tss ty b lim dpl)) 7 \<and> \<not> bit (desc_access (seg_tss ty b lim dpl)) 4"
proof -
  have "drop_bit 12 lim AND 0xFFFFF = drop_bit 12 lim"
    unfolding field_masks by (rule bit_word_eqI) (auto simp: bit_simps)
  then show ?thesis
    unfolding seg_seg_def seg_tss_def seg_fields
    using ty_fields [of _ True dpl ty, OF _ assms] ty_fields [of _ False dpl ty, OF _ assms]
    by simp
qed

text \<open>C20. After \<^verbatim>\<open>seginit\<close> the segments are flat: base 0 and 4 GiB long, code segments readable and
  executable, data segments writable, for the kernel at privilege level 0 and for user programs at
  level 3. The null descriptor and the task segment are untouched, and the two kernel entries are
  those of the start-up code.\<close>

theorem seginit_flat_segments:
  assumes "length gdt = NSEGS"
  shows "(\<forall>i \<in> {SEG_KCODE, SEG_KDATA, SEG_UCODE, SEG_UDATA}.
       desc_base (seginit_gdt gdt ! i) = 0 \<and> desc_limit (seginit_gdt gdt ! i) = 0xFFFFF
       \<and> desc_flags (seginit_gdt gdt ! i) = 0xC)
    \<and> map (\<lambda>i. desc_access (seginit_gdt gdt ! i)) [SEG_KCODE, SEG_KDATA, SEG_UCODE, SEG_UDATA] = [0x9A, 0x92, 0xFA, 0xF2]
    \<and> seginit_gdt gdt ! 0 = gdt ! 0 \<and> seginit_gdt gdt ! SEG_TSS = gdt ! SEG_TSS
    \<and> seginit_gdt gdt ! SEG_KCODE = desc_of_bytes (take 8 (drop 8 boot_gdt))
    \<and> seginit_gdt gdt ! SEG_KDATA = desc_of_bytes (drop 16 boot_gdt) \<and> ap_gdt = boot_gdt"
proof -
  note idx = SEG_KCODE_def SEG_KDATA_def SEG_UCODE_def SEG_UDATA_def SEG_TSS_def NSEGS_def
  have nth: "seginit_gdt gdt ! 0 = gdt ! 0" "seginit_gdt gdt ! 1 = seg_seg 0xA 0 0xFFFFFFFF 0"
    "seginit_gdt gdt ! 2 = seg_seg 2 0 0xFFFFFFFF 0" "seginit_gdt gdt ! 3 = seg_seg 0xA 0 0xFFFFFFFF 3"
    "seginit_gdt gdt ! 4 = seg_seg 2 0 0xFFFFFFFF 3" "seginit_gdt gdt ! 5 = gdt ! 5"
    using assms by (simp_all add: seginit_gdt_def idx STA_X_def STA_R_def STA_W_def DPL_USER_def)
  have bytes: "seg_seg 0xA 0 0xFFFFFFFF 0 = desc_of_bytes (take 8 (drop 8 boot_gdt))"
    "seg_seg 2 0 0xFFFFFFFF 0 = desc_of_bytes (drop 16 boot_gdt)"
    by (simp_all add: seg_seg_def seg_defs desc_of_bytes_def boot_gdt_def)
  show ?thesis
    unfolding idx bytes [symmetric] by (simp add: nth [simplified] seg_seg_fields ap_gdt_def boot_gdt_def)
qed

theorem seginit_flat_segments_witness:
  "desc_access (seginit_gdt GDT_ZERO ! SEG_UCODE) = 0xFA \<and> seginit_gdt GDT_ZERO ! 0 = seg_new"
  using seginit_flat_segments [of GDT_ZERO] by (simp add: GDT_ZERO_def NSEGS_def)

lemma fold_fill:
  assumes "length xs = n"
  shows "fold (\<lambda>i ys. ys[i := f i]) [0..<m] xs = map f [0..<min m n] @ drop m xs"
  using assms
proof (induction m)
  case (Suc m)
  then show ?case
    by (cases "m < n") (auto simp: list_update_append min_def upd_conv_take_nth_drop
        Cons_nth_drop_Suc [symmetric] not_less list_update_beyond)
qed simp

text \<open>C21. After \<^verbatim>\<open>trap::init\<close> every vector enters its own stub through the kernel code segment, by an
  interrupt gate that only the kernel may invoke, except the system call vector, which is a trap
  gate open to user programs.\<close>

theorem trap_init_gates:
  assumes "length IDT = 256" "i < 256"
  shows "length (trap_init vectors IDT) = 256
    \<and> gate_offset (trap_init vectors IDT ! i) = vectors ! i
    \<and> gate_selector (trap_init vectors IDT ! i) = 8
    \<and> gate_attr (trap_init vectors IDT ! i) = (if i = T_SYSCALL then 0xEF else 0x8E)"
proof -
  have "trap_init vectors IDT = (map (\<lambda>i. gate_set False 8 (vectors ! i) 0) [0..<256])
      [T_SYSCALL := gate_set True 8 (vectors ! T_SYSCALL) DPL_USER]"
    using assms(1) by (simp add: trap_init_def fold_fill SEG_KCODE_def)
  then show ?thesis
    using assms(2)
    by (simp add: nth_list_update T_SYSCALL_def gate_set_def Let_def gate_fields STS_IG32_def STS_TG32_def DPL_USER_def)
qed

theorem trap_init_gates_witness:
  "gate_attr (trap_init (replicate 256 0x80101234) (replicate 256 gate_new) ! 64) = 0xEF
   \<and> gate_offset (trap_init (replicate 256 0x80101234) (replicate 256 gate_new) ! 14) = 0x80101234"
  using trap_init_gates [of "replicate 256 gate_new" 64 "replicate 256 0x80101234"]
    trap_init_gates [of "replicate 256 gate_new" 14 "replicate 256 0x80101234"]
  by (simp add: T_SYSCALL_def)

end
