(* ===== verification/Cpus.thy ===== *)
theory Cpus
  imports Descriptors
begin

text \<open>
  Per-processor state of \<^verbatim>\<open>kernel/src/proc.rs\<close> (\<^verbatim>\<open>TaskState\<close>, \<^verbatim>\<open>Cpu\<close>, \<^verbatim>\<open>CpuShared\<close>, \<^verbatim>\<open>init_new_cpu\<close>,
  \<^verbatim>\<open>my_cpu_id\<close>, \<^verbatim>\<open>my_cpu\<close>) and the nested disabling of interrupts of \<^verbatim>\<open>kernel/src/lock.rs\<close>
  (\<^verbatim>\<open>push_cli\<close>, \<^verbatim>\<open>pop_cli\<close>, \<^verbatim>\<open>cli\<close>). The argument \<open>me\<close> is the APIC id of the processor that executes the
  operation, which the hardware returns in the identification register of the local APIC.
\<close>

section \<open>Processors\<close>

record TaskState =
  ts_link :: u32
  ts_esp0 :: u32
  ts_ss0 :: u16
  ts_esp1 :: usize
  ts_ss1 :: u16
  ts_esp2 :: usize
  ts_ss2 :: u16
  ts_cr3 :: usize
  ts_eip :: usize
  ts_eflags :: u32
  ts_eax :: u32
  ts_ecx :: u32
  ts_edx :: u32
  ts_ebx :: u32
  ts_esp :: usize
  ts_ebp :: usize
  ts_esi :: u32
  ts_edi :: u32
  ts_es :: u16
  ts_cs :: u16
  ts_ss :: u16
  ts_ds :: u16
  ts_fs :: u16
  ts_gs :: u16
  ts_ldt :: u16
  ts_t :: u16
  ts_iomb :: u16

definition TaskState_zero :: TaskState where
  "TaskState_zero = \<lparr>ts_link = 0, ts_esp0 = 0, ts_ss0 = 0, ts_esp1 = 0, ts_ss1 = 0, ts_esp2 = 0,
     ts_ss2 = 0, ts_cr3 = 0, ts_eip = 0, ts_eflags = 0, ts_eax = 0, ts_ecx = 0, ts_edx = 0,
     ts_ebx = 0, ts_esp = 0, ts_ebp = 0, ts_esi = 0, ts_edi = 0, ts_es = 0, ts_cs = 0, ts_ss = 0,
     ts_ds = 0, ts_fs = 0, ts_gs = 0, ts_ldt = 0, ts_t = 0, ts_iomb = 0\<rparr>"

text \<open>A process is referred to by the address of its lock and data (an \<^verbatim>\<open>Arc\<close>).\<close>

type_synonym procref = usize

record Cpu =
  scheduler :: usize
  task_state :: TaskState
  gdt :: "SegDesc list"
  num_cli :: int
  int_enabled :: bool
  current_proc :: "procref option"

record CpuShared =
  apic_id :: u8
  started :: bool
  cpu_private :: Cpu

definition CpuShared_zero :: CpuShared where
  "CpuShared_zero = \<lparr>apic_id = 0, started = False, cpu_private = \<lparr>scheduler = 0, task_state = TaskState_zero,
     gdt = GDT_ZERO, num_cli = 0, int_enabled = False, current_proc = None\<rparr>\<rparr>"

record SpinLock =
  locked :: bool
  lname :: string
  lcpu :: int

text \<open>The state of the kernel that all processors share, with the flags register of each.\<close>

record kst =
  lapic :: "usize option"
  n_cpu :: nat
  cpu_table :: "CpuShared list"
  eflags :: "u8 \<Rightarrow> u32"
  spin :: "usize \<Rightarrow> SpinLock"

definition MAX_NCPU :: nat where "MAX_NCPU = 8"
definition FL_IF :: u32 where "FL_IF = 0x00000200"

text \<open>\<^verbatim>\<open>init_new_cpu\<close> returns the slot of the new processor.\<close>

definition init_new_cpu :: "'b kst_scheme \<Rightarrow> nat option \<times> 'b kst_scheme" where
  "init_new_cpu s = (if n_cpu s = MAX_NCPU then (None, s)
     else (Some (n_cpu s), s\<lparr>n_cpu := n_cpu s + 1\<rparr>))"

definition cpus :: "'b kst_scheme \<Rightarrow> CpuShared list" where
  "cpus s = take (n_cpu s) (cpu_table s)"

definition lapic_id :: "u8 \<Rightarrow> 'b kst_scheme \<Rightarrow> u8 option" where
  "lapic_id me s = (case lapic s of None \<Rightarrow> None | Some _ \<Rightarrow> Some me)"

fun position :: "('a \<Rightarrow> bool) \<Rightarrow> 'a list \<Rightarrow> nat option" where
  "position P [] = None"
| "position P (x # xs) = (if P x then Some 0 else map_option Suc (position P xs))"

definition my_cpu_id :: "u8 \<Rightarrow> 'b kst_scheme \<Rightarrow> nat res" where
  "my_cpu_id me s =
     rbind (rassert (eflags s me AND FL_IF = 0) ''my_cpu called with interrupts enabled'') (\<lambda>_.
     rbind (rexpect (lapic_id me s) ''LAPIC is None'') (\<lambda>id.
       rexpect (position (\<lambda>cpu. apic_id cpu = id) (cpus s)) ''called Option::unwrap() on a None value''))"

text \<open>
  \<^verbatim>\<open>my_cpu\<close> borrows the private part of the executing processor. Every borrow ends with the statement
  or block that takes it and no such block calls \<^verbatim>\<open>my_cpu\<close> again, so the body is a function on the
  private part.
\<close>

definition with_cpu :: "u8 \<Rightarrow> (Cpu \<Rightarrow> ('a \<times> Cpu) res) \<Rightarrow> 'b kst_scheme \<Rightarrow> ('a \<times> 'b kst_scheme) res" where
  "with_cpu me f s = rbind (my_cpu_id me s) (\<lambda>i.
     rbind (f (cpu_private (cpu_table s ! i))) (\<lambda>(r, c).
       Ok (r, s\<lparr>cpu_table := (cpu_table s)[i := (cpu_table s ! i)\<lparr>cpu_private := c\<rparr>]\<rparr>)))"

section \<open>Nested disabling of interrupts\<close>

definition x86_cli :: "u8 \<Rightarrow> 'b kst_scheme \<Rightarrow> 'b kst_scheme" where
  "x86_cli me s = s\<lparr>eflags := (eflags s)(me := eflags s me AND NOT FL_IF)\<rparr>"

definition x86_sti :: "u8 \<Rightarrow> 'b kst_scheme \<Rightarrow> 'b kst_scheme" where
  "x86_sti me s = s\<lparr>eflags := (eflags s)(me := eflags s me OR FL_IF)\<rparr>"

definition i32_range :: "int \<Rightarrow> bool" where
  "i32_range n \<longleftrightarrow> - (2 ^ 31) \<le> n \<and> n < 2 ^ 31"

definition checked_i32 :: "int \<Rightarrow> int res" where
  "checked_i32 n = (if i32_range n then Ok n else Fail (Panic ''attempt to add with overflow''))"

definition push_cli :: "u8 \<Rightarrow> 'b kst_scheme \<Rightarrow> 'b kst_scheme res" where
  "push_cli me s = (let fl = eflags s me; s1 = x86_cli me s in
     rbind (with_cpu me (\<lambda>cpu.
         let cpu1 = (if num_cli cpu = 0 then cpu\<lparr>int_enabled := (fl AND FL_IF \<noteq> 0)\<rparr> else cpu) in
         rbind (checked_i32 (num_cli cpu1 + 1)) (\<lambda>n. Ok ((), cpu1\<lparr>num_cli := n\<rparr>))) s1)
       (\<lambda>(_, s2). Ok s2))"

definition pop_cli :: "u8 \<Rightarrow> 'b kst_scheme \<Rightarrow> 'b kst_scheme res" where
  "pop_cli me s = (if eflags s me AND FL_IF \<noteq> 0 then Fail (Panic ''pop_cli - interruptible'') else
     rbind (with_cpu me (\<lambda>cpu.
         if num_cli cpu = 0 then Fail (Panic ''pop_cli: num_cli zero'')
         else rbind (checked_i32 (num_cli cpu - 1)) (\<lambda>n.
           Ok (n = 0 \<and> int_enabled cpu, cpu\<lparr>num_cli := n\<rparr>))) s)
       (\<lambda>(enable, s1). Ok (if enable then x86_sti me s1 else s1)))"

definition cli :: "u8 \<Rightarrow> ('b kst_scheme \<Rightarrow> ('a \<times> 'b kst_scheme) res) \<Rightarrow> 'b kst_scheme \<Rightarrow> ('a \<times> 'b kst_scheme) res" where
  "cli me f s = rbind (push_cli me s) (\<lambda>s1. rbind (f s1) (\<lambda>(r, s2). rbind (pop_cli me s2) (\<lambda>s3. Ok (r, s3))))"

section \<open>Facts about the executing processor\<close>

abbreviation priv :: "'b kst_scheme \<Rightarrow> nat \<Rightarrow> Cpu" where
  "priv s i \<equiv> cpu_private (cpu_table s ! i)"

definition set_priv :: "nat \<Rightarrow> Cpu \<Rightarrow> 'b kst_scheme \<Rightarrow> 'b kst_scheme" where
  "set_priv i c s = s\<lparr>cpu_table := (cpu_table s)[i := (cpu_table s ! i)\<lparr>cpu_private := c\<rparr>]\<rparr>"

definition ints_on :: "'b kst_scheme \<Rightarrow> u8 \<Rightarrow> bool" where
  "ints_on s me \<longleftrightarrow> eflags s me AND FL_IF \<noteq> 0"

text \<open>The processor with APIC id \<open>me\<close> is registered in slot \<open>i\<close>.\<close>

definition cpu_at :: "'b kst_scheme \<Rightarrow> u8 \<Rightarrow> nat \<Rightarrow> bool" where
  "cpu_at s me i \<longleftrightarrow> lapic s \<noteq> None \<and> position (\<lambda>cpu. apic_id cpu = me) (cpus s) = Some i"

text \<open>The invariant of nesting: the depth is not negative and interrupts are off inside.\<close>

definition cli_ok :: "'b kst_scheme \<Rightarrow> u8 \<Rightarrow> nat \<Rightarrow> bool" where
  "cli_ok s me i \<longleftrightarrow> cpu_at s me i \<and> 0 \<le> num_cli (priv s i) \<and> num_cli (priv s i) < 2 ^ 31
     \<and> (0 < num_cli (priv s i) \<longrightarrow> \<not> ints_on s me)"

lemma position_Some: "position P xs = Some i \<Longrightarrow> i < length xs \<and> P (xs ! i)"
  by (induction xs arbitrary: i) (auto split: if_splits)

lemma position_map: "position (\<lambda>x. f x = a) xs = position (\<lambda>y. y = a) (map f xs)"
  by (induction xs) auto

lemma cpu_at_index: "cpu_at s me i \<Longrightarrow> i < length (cpu_table s) \<and> apic_id (cpu_table s ! i) = me"
  using position_Some [of "\<lambda>cpu. apic_id cpu = me" "cpus s" i] by (auto simp: cpu_at_def cpus_def)

lemma cpu_at_unique: "cpu_at s me i \<Longrightarrow> cpu_at s me j \<Longrightarrow> i = j"
  by (simp add: cpu_at_def)

lemma set_priv_sel [simp]:
  "lapic (set_priv i c s) = lapic s" "n_cpu (set_priv i c s) = n_cpu s"
  "eflags (set_priv i c s) = eflags s" "spin (set_priv i c s) = spin s"
  "length (cpu_table (set_priv i c s)) = length (cpu_table s)"
  "ints_on (set_priv i c s) me = ints_on s me"
  by (simp_all add: set_priv_def ints_on_def)

lemma apic_ids_set_priv: "map apic_id (cpus (set_priv i c s)) = map apic_id (cpus s)"
proof (cases "i < length (cpu_table s)")
  case True
  then have "map apic_id ((cpu_table s)[i := (cpu_table s ! i)\<lparr>cpu_private := c\<rparr>]) = map apic_id (cpu_table s)"
    by (simp add: map_update list_update_same_conv)
  then show ?thesis by (simp add: cpus_def set_priv_def flip: take_map)
qed (simp add: cpus_def set_priv_def list_update_beyond)

lemma cpu_at_set_priv [simp]: "cpu_at (set_priv i c s) me j \<longleftrightarrow> cpu_at s me j"
  unfolding cpu_at_def position_map [of apic_id] apic_ids_set_priv by simp

lemma priv_set_priv:
  "cpu_at s me i \<Longrightarrow> priv (set_priv i c s) i = c" "i \<noteq> j \<Longrightarrow> priv (set_priv i c s) j = priv s j"
  using cpu_at_index [of s me i] by (simp_all add: set_priv_def)

lemma set_priv_twice [simp]: "set_priv i c (set_priv i d s) = set_priv i c s"
  by (cases "i < length (cpu_table s)") (simp_all add: set_priv_def list_update_beyond)

lemma set_priv_id [simp]: "set_priv i (priv s i) s = s"
  by (simp add: set_priv_def)

lemma eflags_sel [simp]:
  "lapic (x86_cli me s) = lapic s" "n_cpu (x86_cli me s) = n_cpu s" "cpu_table (x86_cli me s) = cpu_table s"
  "spin (x86_cli me s) = spin s"
  "lapic (x86_sti me s) = lapic s" "n_cpu (x86_sti me s) = n_cpu s" "cpu_table (x86_sti me s) = cpu_table s"
  "spin (x86_sti me s) = spin s"
  by (simp_all add: x86_cli_def x86_sti_def)

lemma cpu_at_eflags [simp]: "cpu_at (x86_cli me s) you i = cpu_at s you i" "cpu_at (x86_sti me s) you i = cpu_at s you i"
  by (simp_all add: cpu_at_def cpus_def)

lemma ints_on_cli [simp]: "ints_on (x86_cli me s) you \<longleftrightarrow> you \<noteq> me \<and> ints_on s you"
  by (simp add: ints_on_def x86_cli_def FL_IF_def and.assoc)

lemma ints_on_sti [simp]: "ints_on (x86_sti me s) you \<longleftrightarrow> you = me \<or> ints_on s you"
  by (simp add: ints_on_def x86_sti_def FL_IF_def bit.conj_disj_distrib2)

lemma cli_idle: "\<not> ints_on s me \<Longrightarrow> x86_cli me s = s"
proof -
  assume "\<not> ints_on s me"
  moreover have "w AND NOT FL_IF = w" if "w AND FL_IF = 0" for w
    using that and_not_plus_and [of w FL_IF] by simp
  ultimately show ?thesis by (simp add: ints_on_def x86_cli_def fun_upd_idem)
qed

lemma sti_cli: "ints_on s me \<Longrightarrow> x86_sti me (x86_cli me s) = s"
proof -
  assume on: "ints_on s me"
  have "(w AND NOT FL_IF) OR FL_IF = w" if "w AND FL_IF \<noteq> 0" for w :: u32
  proof -
    have e: "FL_IF = 2 ^ 9" by (simp add: FL_IF_def)
    have b: "bit FL_IF n \<longleftrightarrow> n = 9" for n
      unfolding e bit_exp_iff by auto
    have "bit w 9" using that and_exp_eq_0_iff_not_bit [of w 9] by (simp add: FL_IF_def)
    then show ?thesis by (intro bit_word_eqI) (auto simp: bit_or_iff bit_and_iff bit_not_iff b)
  qed
  with on show ?thesis by (simp add: ints_on_def x86_cli_def x86_sti_def fun_upd_idem)
qed

lemma set_priv_eflags: "set_priv i c (x86_cli me s) = x86_cli me (set_priv i c s)"
  "set_priv i c (x86_sti me s) = x86_sti me (set_priv i c s)"
  by (simp_all add: set_priv_def x86_cli_def x86_sti_def)

lemma with_cpu_eq:
  "cpu_at s me i \<Longrightarrow> \<not> ints_on s me \<Longrightarrow>
   with_cpu me f s = rbind (f (priv s i)) (\<lambda>(r, c). Ok (r, set_priv i c s))"
  by (simp add: with_cpu_def my_cpu_id_def cpu_at_def ints_on_def lapic_id_def set_priv_def split: option.splits)
    (auto simp: rexpect_simps)

lemma my_cpu_id_eq: "cpu_at s me i \<Longrightarrow> \<not> ints_on s me \<Longrightarrow> my_cpu_id me s = Inr i"
  by (auto simp: my_cpu_id_def cpu_at_def ints_on_def lapic_id_def rexpect_simps split: option.splits)

lemma my_cpu_interruptible: "ints_on s me \<Longrightarrow> my_cpu_id me s = Inl (Panic ''my_cpu called with interrupts enabled'')"
  by (simp add: my_cpu_id_def ints_on_def)

section \<open>Brackets\<close>

text \<open>
  The contract that \<^verbatim>\<open>push_cli\<close>/\<^verbatim>\<open>pop_cli\<close> and \<^verbatim>\<open>acquire\<close>/\<^verbatim>\<open>release\<close> share: entering from a ready state
  succeeds, and leaving succeeds from every state that a well-behaved body reaches.
\<close>

definition within :: "('s \<Rightarrow> 's res) \<Rightarrow> ('s \<Rightarrow> 's res) \<Rightarrow> ('s \<Rightarrow> ('a \<times> 's) res) \<Rightarrow> 's \<Rightarrow> ('a \<times> 's) res" where
  "within enter leave f s = rbind (enter s) (\<lambda>s1. rbind (f s1) (\<lambda>(r, s2). rbind (leave s2) (\<lambda>s3. Ok (r, s3))))"

locale bracket =
  fixes enter leave :: "'s \<Rightarrow> 's res"
    and ready :: "'s \<Rightarrow> bool"
    and inside :: "'s \<Rightarrow> 's"
    and keeps :: "'s \<Rightarrow> 's \<Rightarrow> bool"
    and outside :: "'s \<Rightarrow> 's \<Rightarrow> 's"
  assumes enter_ok: "ready s \<Longrightarrow> enter s = Inr (inside s)"
    and leave_ok: "ready s \<Longrightarrow> keeps (inside s) t \<Longrightarrow> leave t = Inr (outside s t)"
begin

lemma body_result:
  assumes "ready s" "f (inside s) = Inr (r, t)" "keeps (inside s) t"
  shows "within enter leave f s = Inr (r, outside s t)"
  using enter_ok [OF assms(1)] leave_ok [OF assms(1,3)] assms(2) by (simp add: within_def)

lemma body_fault:
  assumes "ready s" "f (inside s) = Inl e"
  shows "within enter leave f s = Inl e"
  using enter_ok [OF assms(1)] assms(2) by (simp add: within_def)

lemma body_total:
  assumes "ready s" "\<And>r t. f (inside s) = Inr (r, t) \<Longrightarrow> keeps (inside s) t"
  shows "within enter leave f s = map_sum id (\<lambda>(r, t). (r, outside s t)) (f (inside s))"
proof (cases "f (inside s)")
  case (Inl e)
  then show ?thesis by (simp add: body_fault [where e = e] assms(1))
next
  case (Inr rt)
  obtain r t where rt: "rt = (r, t)" by fastforce
  show ?thesis using body_result [of s f r t] Inr assms rt by simp
qed

end

section \<open>push\_cli and pop\_cli\<close>

definition saved :: "u8 \<Rightarrow> nat \<Rightarrow> 'b kst_scheme \<Rightarrow> Cpu" where
  "saved me i s = (priv s i)\<lparr>int_enabled := (if num_cli (priv s i) = 0 then ints_on s me else int_enabled (priv s i))\<rparr>"

definition pushed :: "u8 \<Rightarrow> nat \<Rightarrow> 'b kst_scheme \<Rightarrow> 'b kst_scheme" where
  "pushed me i s = x86_cli me (set_priv i ((saved me i s)\<lparr>num_cli := num_cli (priv s i) + 1\<rparr>) s)"

text \<open>A balanced use of \<^verbatim>\<open>push_cli\<close> leaves behind only the saved interrupt flag.\<close>

definition remembered :: "u8 \<Rightarrow> nat \<Rightarrow> 'b kst_scheme \<Rightarrow> 'b kst_scheme" where
  "remembered me i s = set_priv i (saved me i s) s"

definition cli_room :: "nat \<Rightarrow> 'b kst_scheme \<Rightarrow> u8 \<Rightarrow> nat \<Rightarrow> bool" where
  "cli_room n s me i \<longleftrightarrow> cli_ok s me i \<and> num_cli (priv s i) + int n < 2 ^ 31"

lemma cli_okD: "cli_ok s me i \<Longrightarrow> cpu_at s me i" "cli_ok s me i \<Longrightarrow> 0 \<le> num_cli (priv s i)"
  "cli_ok s me i \<Longrightarrow> 0 < num_cli (priv s i) \<Longrightarrow> \<not> ints_on s me"
  by (simp_all add: cli_ok_def)

lemma cli_roomD: "cli_room n s me i \<Longrightarrow> cli_ok s me i" "cli_room n s me i \<Longrightarrow> m \<le> n \<Longrightarrow> cli_room m s me i"
  by (auto simp: cli_room_def)

lemma push_cli_eq:
  assumes "cli_room 1 s me i"
  shows "push_cli me s = Inr (pushed me i s)"
proof -
  have at: "cpu_at s me i" "i32_range (num_cli (priv s i) + 1)"
    using assms by (auto simp: cli_room_def cli_ok_def i32_range_def)
  have "with_cpu me f (x86_cli me s) = rbind (f (priv s i)) (\<lambda>(r, c). Ok (r, set_priv i c (x86_cli me s)))" for f :: "Cpu \<Rightarrow> (unit \<times> Cpu) res"
    using with_cpu_eq [of "x86_cli me s" me i f] at(1) by simp
  then show ?thesis
    using at(2) by (simp add: push_cli_def Let_def checked_i32_def pushed_def saved_def ints_on_def set_priv_eflags i32_range_def)
qed

lemma pushed_sel [simp]:
  "lapic (pushed me i s) = lapic s" "n_cpu (pushed me i s) = n_cpu s" "spin (pushed me i s) = spin s"
  "cpu_at (pushed me i s) you j = cpu_at s you j" "\<not> ints_on (pushed me i s) me"
  by (simp_all add: pushed_def)

lemma priv_pushed: "cpu_at s me i \<Longrightarrow> priv (pushed me i s) i = (saved me i s)\<lparr>num_cli := num_cli (priv s i) + 1\<rparr>"
  by (simp add: pushed_def priv_set_priv)

lemma remembered_sel [simp]:
  "lapic (remembered me i s) = lapic s" "n_cpu (remembered me i s) = n_cpu s" "spin (remembered me i s) = spin s"
  "eflags (remembered me i s) = eflags s" "ints_on (remembered me i s) you = ints_on s you"
  "cpu_at (remembered me i s) you j = cpu_at s you j"
  by (simp_all add: remembered_def)

lemma cli_room_pushed: "cli_room (Suc n) s me i \<Longrightarrow> cli_room n (pushed me i s) me i"
  by (auto simp: cli_room_def cli_ok_def priv_pushed saved_def)

lemma cli_room_remembered: "cli_room n s me i \<Longrightarrow> cli_room n (remembered me i s) me i"
  by (auto simp: cli_room_def cli_ok_def remembered_def priv_set_priv saved_def)

lemma remembered_pushed:
  assumes "cli_ok s me i"
  shows "remembered me i (pushed me i s) = pushed me i s"
proof -
  have "saved me i (pushed me i s) = priv (pushed me i s) i"
    using cli_okD(1,2) [OF assms] by (simp add: saved_def priv_pushed)
  then show ?thesis by (simp add: remembered_def)
qed

text \<open>Leaving restores the flags and the processor's record, whatever happened to the rest.\<close>

definition restored :: "u8 \<Rightarrow> nat \<Rightarrow> 'b kst_scheme \<Rightarrow> 'b kst_scheme \<Rightarrow> 'b kst_scheme" where
  "restored me i s t = t\<lparr>cpu_table := cpu_table (remembered me i s), eflags := eflags s\<rparr>"

definition same_cpus :: "'b kst_scheme \<Rightarrow> 'b kst_scheme \<Rightarrow> bool" where
  "same_cpus s t \<longleftrightarrow> lapic t = lapic s \<and> n_cpu t = n_cpu s \<and> cpu_table t = cpu_table s \<and> eflags t = eflags s"

lemma same_cpusD: "same_cpus s t \<Longrightarrow> cpu_at t me i = cpu_at s me i" "same_cpus s t \<Longrightarrow> ints_on t me = ints_on s me"
  "same_cpus s t \<Longrightarrow> cli_ok t me i = cli_ok s me i" "same_cpus s t \<Longrightarrow> cli_room n t me i = cli_room n s me i"
  "same_cpus s t \<Longrightarrow> priv t i = priv s i" "same_cpus s t \<Longrightarrow> saved me i t = saved me i s"
  by (simp_all add: same_cpus_def cpu_at_def cpus_def ints_on_def cli_ok_def cli_room_def saved_def)

lemma pop_cli_eq:
  assumes "cli_ok s me i" "same_cpus (pushed me i s) t"
  shows "pop_cli me t = Inr (restored me i s t)"
proof -
  let ?p = "priv s i" let ?u = "set_priv i (saved me i s) t"
  have at: "cpu_at s me i" and off: "\<not> ints_on t me" using assms cli_okD same_cpusD(2) by fastforce+
  have pt: "priv t i = (saved me i s)\<lparr>num_cli := num_cli ?p + 1\<rparr>"
    using same_cpusD(5) [OF assms(2)] priv_pushed [OF at] by simp
  have rng: "i32_range (num_cli ?p)" "num_cli ?p + 1 \<noteq> 0" using assms(1) by (auto simp: cli_ok_def i32_range_def)
  have sv: "(saved me i s)\<lparr>num_cli := num_cli ?p\<rparr> = saved me i s" "num_cli ?p = 0 \<Longrightarrow> (saved me i s)\<lparr>num_cli := 0\<rparr> = saved me i s"
    by (simp_all add: saved_def)
  have run: "pop_cli me t = Inr (if num_cli ?p = 0 \<and> int_enabled (saved me i s) then x86_sti me ?u else ?u)"
    using off rng same_cpusD(1) [OF assms(2)] at
    by (simp add: pop_cli_def ints_on_def [symmetric] with_cpu_eq [of t me i] pt checked_i32_def sv)
  have tbl: "cpu_table ?u = cpu_table (remembered me i s)"
    using assms(2) cpu_at_index [OF at]
    by (simp add: same_cpus_def set_priv_def remembered_def pushed_def)
  have fl: "eflags t = (eflags s)(me := eflags s me AND NOT FL_IF)"
    using assms(2) by (simp add: same_cpus_def pushed_def x86_cli_def)
  have "ints_on s me \<Longrightarrow> num_cli ?p = 0" using cli_okD(2,3) [OF assms(1)] by fastforce
  then consider "ints_on s me" "num_cli ?p = 0" | "\<not> ints_on s me" by blast
  then show ?thesis
  proof cases
    case 1
    then have "eflags (x86_sti me (x86_cli me s)) = eflags s" using sti_cli by metis
    then have "x86_sti me ?u = restored me i s t"
      using tbl fl by (simp add: restored_def x86_sti_def x86_cli_def set_priv_def)
    then show ?thesis using run 1 by (simp add: saved_def)
  next
    case 2
    then have "eflags (x86_cli me s) = eflags s" by (simp add: cli_idle)
    then have "eflags t = eflags s" using fl by (simp add: x86_cli_def)
    then have u: "?u = restored me i s t"
      using tbl by (simp add: restored_def set_priv_def)
    have np: "\<not> (num_cli ?p = 0 \<and> int_enabled (saved me i s))" using 2 by (simp add: saved_def)
    show ?thesis unfolding run if_not_P [OF np] u ..
  qed
qed

interpretation cli: bracket "push_cli me" "pop_cli me" "\<lambda>s. cli_room 1 s me i" "pushed me i" same_cpus
  "restored me i" for me i
  by unfold_locales (auto intro: push_cli_eq pop_cli_eq dest: cli_roomD)

lemma cli_within: "cli me f s = within (push_cli me) (pop_cli me) f s"
  by (simp add: cli_def within_def)

lemma cli_read:
  assumes "cli_room 1 s me i" "f (pushed me i s) = Inr (r, pushed me i s)"
  shows "cli me f s = Inr (r, remembered me i s)"
proof -
  have "restored me i s (pushed me i s) = remembered me i s"
    by (simp add: restored_def remembered_def pushed_def set_priv_def x86_cli_def)
  then show ?thesis
    unfolding cli_within using cli.body_result [where f = f and t = "pushed me i s", OF assms] by (simp add: same_cpus_def)
qed

fun repeat_res :: "nat \<Rightarrow> ('s \<Rightarrow> 's res) \<Rightarrow> 's \<Rightarrow> 's res" where
  "repeat_res 0 f s = Ok s"
| "repeat_res (Suc n) f s = rbind (f s) (repeat_res n f)"

lemma repeat_res_Suc_end: "repeat_res (Suc n) f s = rbind (repeat_res n f s) f"
proof (induction n arbitrary: s)
  case (Suc n)
  then show ?case by (cases "f s") simp_all
qed (simp add: rbind_def split: sum.splits)

lemma restored_pushed: "restored me i s (pushed me i s) = remembered me i s"
  by (simp add: restored_def remembered_def pushed_def set_priv_def x86_cli_def)

text \<open>\<^verbatim>\<open>push_cli\<close> and \<^verbatim>\<open>pop_cli\<close> match: from any depth, \<open>n\<close> calls of \<^verbatim>\<open>push_cli\<close> leave interrupts off
  and the depth \<open>n\<close> higher, and \<open>n\<close> calls of \<^verbatim>\<open>pop_cli\<close> then restore the flags, the depth and all
  other state; only the saved flag of the processor may differ. In particular interrupts that were
  off stay off.\<close>

lemma push_pop_cli_nest:
  assumes "cli_ok s me i" "num_cli (priv s i) + int n < 2 ^ 31" "0 < n"
  shows "\<exists>s1. repeat_res n (push_cli me) s = Inr s1 \<and> \<not> ints_on s1 me
    \<and> num_cli (priv s1 i) = num_cli (priv s i) + int n
    \<and> repeat_res n (pop_cli me) s1 = Inr (remembered me i s)"
proof -
  have "cli_room n s me i" using assms(1,2) by (simp add: cli_room_def)
  then show ?thesis using assms(3)
  proof (induction n arbitrary: s)
    case (Suc n)
    note room = Suc.prems(1) cli_roomD [OF Suc.prems(1)]
    have push: "push_cli me s = Inr (pushed me i s)" using room(3) [of 1] by (simp add: push_cli_eq)
    have pop: "pop_cli me (pushed me i s) = Inr (remembered me i s)"
      using pop_cli_eq [OF room(2), of "pushed me i s"] by (simp add: same_cpus_def restored_pushed)
    have depth: "num_cli (priv (pushed me i s) i) = num_cli (priv s i) + 1"
      using cli_okD(1) [OF room(2)] by (simp add: priv_pushed)
    show ?case
    proof (cases "n = 0")
      case True
      then show ?thesis using push pop depth by simp
    next
      case False
      then obtain s1 where "repeat_res n (push_cli me) (pushed me i s) = Inr s1" "\<not> ints_on s1 me"
        "num_cli (priv s1 i) = num_cli (priv (pushed me i s) i) + int n"
        "repeat_res n (pop_cli me) s1 = Inr (pushed me i s)"
        using Suc.IH [OF cli_room_pushed [OF room(1)]] remembered_pushed [OF room(2)] by auto
      then show ?thesis
        using push pop depth by (intro exI [of _ s1]) (simp add: repeat_res_Suc_end [of n "pop_cli me"] del: repeat_res.simps(2), simp)
    qed
  qed simp
qed

text \<open>Two processors with APIC ids 0 and 1, interrupts on.\<close>

definition two_cpus :: kst where
  "two_cpus = \<lparr>lapic = Some 0xFEE00000, n_cpu = 2,
     cpu_table = [CpuShared_zero, CpuShared_zero\<lparr>apic_id := 1\<rparr>], eflags = (\<lambda>_. 0x202),
     spin = (\<lambda>_. \<lparr>locked = False, lname = ''lock'', lcpu = -1\<rparr>)\<rparr>"

lemma two_cpus_ok: "cli_ok two_cpus 0 0" "cli_ok two_cpus 1 1" 
  "num_cli (priv two_cpus 0) = 0" "num_cli (priv two_cpus 1) = 0" "ints_on two_cpus me"
  "\<not> locked (spin two_cpus l)"
  by (simp_all add: cli_ok_def cpu_at_def two_cpus_def cpus_def CpuShared_zero_def ints_on_def FL_IF_def)

end
