(* ===== verification/Locks.thy ===== *)
theory Locks
  imports Cpus
begin

text \<open>
  Spin locks of \<^verbatim>\<open>kernel/src/lock.rs\<close> (module \<^verbatim>\<open>spin\<close>) as operations on the shared state: each is what
  one processor does while the others leave the lock alone. A spin lock that another processor holds
  is waited for forever in this view, which is the fault \<open>Spin\<close>; the interleaving of several
  processors is the subject of \<^verbatim>\<open>Lock_Steps\<close>.
\<close>

section \<open>Operations\<close>

definition SpinLock_new :: "string \<Rightarrow> SpinLock" where
  "SpinLock_new name = \<lparr>locked = False, lname = name, lcpu = -1\<rparr>"

definition holding :: "u8 \<Rightarrow> usize \<Rightarrow> 'b kst_scheme \<Rightarrow> (bool \<times> 'b kst_scheme) res" where
  "holding me l s = cli me (\<lambda>s1.
     if locked (spin s1 l) then rbind (my_cpu_id me s1) (\<lambda>id. Ok (lcpu (spin s1 l) = int id, s1))
     else Ok (False, s1)) s"

definition acquire :: "u8 \<Rightarrow> usize \<Rightarrow> 'b kst_scheme \<Rightarrow> 'b kst_scheme res" where
  "acquire me l s = (case lapic_id me s of None \<Rightarrow> Ok s | Some _ \<Rightarrow>
     rbind (push_cli me s) (\<lambda>s1.
     rbind (holding me l s1) (\<lambda>(h, s2).
     rbind (rassert (\<not> h) (''acquire: '' @ lname (spin s2 l))) (\<lambda>_.
       if locked (spin s2 l) then Fail Spin
       else let s3 = s2\<lparr>spin := (spin s2)(l := (spin s2 l)\<lparr>locked := True\<rparr>)\<rparr> in
         rbind (my_cpu_id me s3) (\<lambda>id.
           Ok (s3\<lparr>spin := (spin s3)(l := (spin s3 l)\<lparr>lcpu := int id\<rparr>)\<rparr>))))))"

definition release :: "u8 \<Rightarrow> usize \<Rightarrow> 'b kst_scheme \<Rightarrow> 'b kst_scheme res" where
  "release me l s = (case lapic_id me s of None \<Rightarrow> Ok s | Some _ \<Rightarrow>
     rbind (holding me l s) (\<lambda>(h, s1).
     rbind (rassert h (''release: '' @ lname (spin s1 l))) (\<lambda>_.
     let s2 = s1\<lparr>spin := (spin s1)(l := (spin s1 l)\<lparr>lcpu := -1\<rparr>)\<rparr>;
         s3 = s2\<lparr>spin := (spin s2)(l := (spin s2 l)\<lparr>locked := False\<rparr>)\<rparr> in
       pop_cli me s3)))"

text \<open>The scope of a guard: \<^verbatim>\<open>SpinMutex::lock\<close>, a body, and the drop of the guard.\<close>

definition with_lock :: "u8 \<Rightarrow> usize \<Rightarrow> ('b kst_scheme \<Rightarrow> ('a \<times> 'b kst_scheme) res) \<Rightarrow> 'b kst_scheme \<Rightarrow>
  ('a \<times> 'b kst_scheme) res" where
  "with_lock me l f s = rbind (acquire me l s) (\<lambda>s1. rbind (f s1) (\<lambda>(r, s2). rbind (release me l s2) (\<lambda>s3. Ok (r, s3))))"

text \<open>Both \<^verbatim>\<open>force_unlocked\<close> and \<^verbatim>\<open>force_locked\<close> call \<^verbatim>\<open>release\<close>.\<close>

definition force_unlocked :: "u8 \<Rightarrow> usize \<Rightarrow> 'b kst_scheme \<Rightarrow> 'b kst_scheme res" where
  "force_unlocked me l s = release me l s"

definition force_locked :: "u8 \<Rightarrow> usize \<Rightarrow> 'b kst_scheme \<Rightarrow> 'b kst_scheme res" where
  "force_locked me l s = release me l s"

section \<open>Lemmas\<close>

definition held_by :: "'b kst_scheme \<Rightarrow> usize \<Rightarrow> nat \<Rightarrow> bool" where
  "held_by s l i \<longleftrightarrow> locked (spin s l) \<and> lcpu (spin s l) = int i"

lemma holding_eq:
  assumes "cli_room 1 s me i"
  shows "holding me l s = Inr (held_by s l i, remembered me i s)"
proof -
  have "my_cpu_id me (pushed me i s) = Inr i"
    using assms by (intro my_cpu_id_eq) (auto dest: cli_roomD cli_okD)
  then show ?thesis
    unfolding holding_def by (intro cli_read [OF assms]) (simp add: held_by_def)
qed

definition acquired :: "u8 \<Rightarrow> usize \<Rightarrow> nat \<Rightarrow> 'b kst_scheme \<Rightarrow> 'b kst_scheme" where
  "acquired me l i s = (pushed me i s)\<lparr>spin := (spin s)(l := (spin s l)\<lparr>locked := True, lcpu := int i\<rparr>)\<rparr>"

text \<open>The state after a guard is dropped: the lock is free again, interrupts are as before.\<close>

definition released :: "u8 \<Rightarrow> usize \<Rightarrow> nat \<Rightarrow> 'b kst_scheme \<Rightarrow> 'b kst_scheme \<Rightarrow> 'b kst_scheme" where
  "released me l i s t = (restored me i s t)\<lparr>spin := (spin t)(l := (spin t l)\<lparr>lcpu := -1, locked := False\<rparr>)\<rparr>"

definition keeps_lock :: "usize \<Rightarrow> 'b kst_scheme \<Rightarrow> 'b kst_scheme \<Rightarrow> bool" where
  "keeps_lock l s t \<longleftrightarrow> same_cpus s t \<and> spin t l = spin s l"

definition lock_ready :: "u8 \<Rightarrow> usize \<Rightarrow> nat \<Rightarrow> 'b kst_scheme \<Rightarrow> bool" where
  "lock_ready me l i s \<longleftrightarrow> cli_room 2 s me i \<and> \<not> locked (spin s l)"

lemma cli_room_lapic: "cli_room n s me i \<Longrightarrow> lapic_id me s = Some me"
  by (auto simp: cli_room_def cli_ok_def cpu_at_def lapic_id_def)

lemma acquire_eq:
  assumes "cli_room 2 s me i"
  shows "acquire me l s = (if held_by s l i then Inl (Panic (''acquire: '' @ lname (spin s l)))
    else if locked (spin s l) then Inl Spin else Inr (acquired me l i s))"
proof -
  have room: "cli_room 1 s me i" "cli_room 1 (pushed me i s) me i" "cli_ok s me i"
    using assms cli_roomD(2) [of 2 s me i 1] cli_room_pushed [of 1 s me i] cli_roomD(1)
    by (auto simp: numeral_2_eq_2)
  have "my_cpu_id me (pushed me i s\<lparr>spin := sp\<rparr>) = Inr i" for sp
  proof -
    have "cpu_at (pushed me i s\<lparr>spin := sp\<rparr>) me i" "\<not> ints_on (pushed me i s\<lparr>spin := sp\<rparr>) me"
      using cli_okD(1) [OF room(3)] same_cpusD(1,2) [of "pushed me i s" "pushed me i s\<lparr>spin := sp\<rparr>"]
      by (simp_all add: same_cpus_def)
    then show ?thesis by (rule my_cpu_id_eq)
  qed
  then show ?thesis
    using push_cli_eq [OF room(1)] holding_eq [OF room(2), of l] cli_room_lapic [OF assms]
    by (simp add: acquire_def remembered_pushed [OF room(3)] held_by_def acquired_def Let_def rassert_simps)
qed

lemma acquired_same: "same_cpus (pushed me i s) (acquired me l i s)"
  by (simp add: same_cpus_def acquired_def)

lemma cli_room_acquired: "cli_room (Suc n) s me i \<Longrightarrow> cli_room n (acquired me l i s) me i"
  using same_cpusD(4) [OF acquired_same] cli_room_pushed by blast

lemma cli_ok_pushed_Suc: "cli_room 1 s me i \<Longrightarrow> cli_ok (pushed me i s) me i"
  using cli_room_pushed [of 0 s me i] by (simp add: cli_roomD)

lemma remembered_idem:
  assumes "cli_ok s me i" "same_cpus (pushed me i s) t"
  shows "remembered me i t = t"
proof -
  have p: "saved me i (pushed me i s) = priv (pushed me i s) i"
    using cli_okD(1,2) [OF assms(1)] by (simp add: saved_def priv_pushed)
  then have "saved me i t = priv t i"
    using same_cpusD(5,6) [OF assms(2)] by metis
  then show ?thesis by (simp add: remembered_def)
qed

lemma release_eq:
  assumes "cli_room 2 s me i" "same_cpus (pushed me i s) t"
  shows "release me l t = (if held_by t l i then Inr (released me l i s t)
    else Inl (Panic (''release: '' @ lname (spin t l))))"
proof -
  have room: "cli_ok s me i" "cli_room 1 t me i"
    using assms cli_room_pushed [of 1 s me i] cli_roomD(1) same_cpusD(4) [OF assms(2)]
    by (auto simp: numeral_2_eq_2)
  let ?u = "t\<lparr>spin := (spin t)(l := (spin t l)\<lparr>lcpu := -1, locked := False\<rparr>)\<rparr>"
  have "same_cpus (pushed me i s) ?u" using assms(2) by (simp add: same_cpus_def)
  then have "pop_cli me ?u = Inr (restored me i s ?u)" by (rule pop_cli_eq [OF room(1)])
  moreover have "restored me i s ?u = released me l i s t"
    by (simp add: restored_def released_def)
  ultimately show ?thesis
    using holding_eq [OF room(2), of l] cli_room_lapic [OF room(2)]
    by (simp add: release_def remembered_idem [OF room(1) assms(2)] Let_def rassert_simps)
qed

interpretation spin: bracket "acquire me l" "release me l" "lock_ready me l i" "acquired me l i" "keeps_lock l"
  "released me l i" for me l i
proof unfold_locales
  fix s :: "'a kst_scheme" assume "lock_ready me l i s"
  then show "acquire me l s = Inr (acquired me l i s)"
    using acquire_eq [of s me i l] by (simp add: lock_ready_def held_by_def)
next
  fix s t :: "'a kst_scheme" assume s: "lock_ready me l i s" and t: "keeps_lock l (acquired me l i s) t"
  have "same_cpus (pushed me i s) t"
    using t acquired_same [of me i s l] by (auto simp: keeps_lock_def same_cpus_def)
  moreover have "held_by t l i" using t by (simp add: keeps_lock_def held_by_def acquired_def)
  ultimately show "release me l t = Inr (released me l i s t)"
    using s release_eq [of s me i t l] by (simp add: lock_ready_def)
qed

lemma with_lock_within: "with_lock me l f s = within (acquire me l) (release me l) f s"
  by (simp add: with_lock_def within_def)

lemma released_acquired:
  "released me l i s (acquired me l i s) =
     (remembered me i s)\<lparr>spin := (spin s)(l := (spin s l)\<lparr>lcpu := -1, locked := False\<rparr>)\<rparr>"
  by (simp add: released_def restored_def acquired_def remembered_def pushed_def set_priv_def x86_cli_def)

lemma release_free:
  assumes "cli_room 1 t me i" "\<not> locked (spin t l)"
  shows "release me l t = Inl (Panic (''release: '' @ lname (spin t l)))"
  using holding_eq [OF assms(1), of l] cli_room_lapic [OF assms(1)] assms(2)
  by (simp add: release_def held_by_def rassert_simps)

section \<open>Properties\<close>

text \<open>The scope of a spin mutex guard. When the lock is free, \<^verbatim>\<open>lock\<close> succeeds, the body runs with
  interrupts off and the lock marked as held by this processor, and when the body ends without
  touching the lock or the processors, dropping the guard succeeds: the result is the body's, the
  lock is free and the flags register and nesting depth are what they were.\<close>

lemma spin_mutex_scope:
  assumes "cli_ok s me i" "num_cli (priv s i) + 2 < 2 ^ 31" "\<not> locked (spin s l)"
    and "f (acquired me l i s) = Inr (r, t)"
    and "same_cpus (acquired me l i s) t" "spin t l = spin (acquired me l i s) l"
  shows "\<not> ints_on (acquired me l i s) me \<and> held_by (acquired me l i s) l i
    \<and> (\<exists>s'. with_lock me l f s = Inr (r, s') \<and> \<not> locked (spin s' l) \<and> eflags s' = eflags s
        \<and> num_cli (priv s' i) = num_cli (priv s i) \<and> (\<forall>l'. l' \<noteq> l \<longrightarrow> spin s' l' = spin t l')
        \<and> kst.more s' = kst.more t)"
proof -
  have ready: "lock_ready me l i s" using assms(1-3) by (simp add: lock_ready_def cli_room_def)
  have keeps: "keeps_lock l (acquired me l i s) t" using assms(5,6) by (simp add: keeps_lock_def)
  have "\<not> ints_on (acquired me l i s) me"
    using same_cpusD(2) [OF acquired_same [of me i s l], of me] by simp
  moreover have "num_cli (priv (released me l i s t) i) = num_cli (priv s i)"
    using cli_okD(1) [OF assms(1)] by (simp add: released_def restored_def remembered_def priv_set_priv saved_def)
  ultimately show ?thesis
    unfolding with_lock_within spin.body_result [where f = f and t = t, OF ready assms(4) keeps]
    by (auto simp: held_by_def acquired_def released_def restored_def)
qed



end
