(* ===== verification/Paging.thy ===== *)
theory Paging
  imports Address
begin

text \<open>
  32-bit paging: the page directory and page table entries of \<^verbatim>\<open>kernel/src/memory.rs\<close> (module
  \<^verbatim>\<open>pg_dir\<close>), the page allocator of \<^verbatim>\<open>kernel/src/kalloc.rs\<close> and the page table construction of
  \<^verbatim>\<open>kernel/src/vm.rs\<close>. The free-list allocator behind the kernel heap is the external crate
  \<^verbatim>\<open>linked_list_allocator\<close>; it is the argument \<open>alloc\<close> of every definition that allocates, and
  \<open>page_alloc_ok\<close> states what the code relies on. Page tables are reached through raw pointers,
  so they live in a store from virtual addresses to tables.
\<close>

section \<open>Entries\<close>

definition NPDENTRIES :: nat where "NPDENTRIES = 1024"
definition NPTENTRIES :: nat where "NPTENTRIES = 1024"

definition DIR_ENT_FLAG_MASK :: u32 where "DIR_ENT_FLAG_MASK = 0xFBF"
definition TAB_ENT_FLAG_MASK :: u32 where "TAB_ENT_FLAG_MASK = 0xF7F"

definition PAGE_SIZE_4MIB :: u32 where "PAGE_SIZE_4MIB = 0x80"
definition CACHE_DISABLE :: u32 where "CACHE_DISABLE = 0x10"
definition WRITE_THROUGH :: u32 where "WRITE_THROUGH = 0x08"
definition USER :: u32 where "USER = 0x04"
definition WRITABLE :: u32 where "WRITABLE = 0x02"
definition PRESENT :: u32 where "PRESENT = 0x01"

definition pdx :: "usize \<Rightarrow> usize" where
  "pdx va = drop_bit 22 va AND 0x3FF"

definition ptx :: "usize \<Rightarrow> usize" where
  "ptx va = drop_bit 12 va AND 0x3FF"

definition pde_new_table :: "u32 \<Rightarrow> u32 \<Rightarrow> u32" where
  "pde_new_table page_table_addr flags = page_table_addr OR (flags AND DIR_ENT_FLAG_MASK)"

definition pde_new_large_page :: "usize \<Rightarrow> u32 \<Rightarrow> u32" where
  "pde_new_large_page page_addr flags =
     page_addr OR PAGE_SIZE_4MIB OR (flags AND DIR_ENT_FLAG_MASK)"

definition pde_zero :: u32 where
  "pde_zero = 0"

definition pde_set_flags :: "u32 \<Rightarrow> u32 \<Rightarrow> u32" where
  "pde_set_flags ent flags = ent OR (flags AND DIR_ENT_FLAG_MASK)"

definition pde_addr :: "u32 \<Rightarrow> usize res" where
  "pde_addr ent = addr_from_raw PageTable (ent AND NOT DIR_ENT_FLAG_MASK)"

definition pde_flags :: "u32 \<Rightarrow> u32" where
  "pde_flags ent = ent AND DIR_ENT_FLAG_MASK"

definition pde_flags_check :: "u32 \<Rightarrow> u32 \<Rightarrow> bool" where
  "pde_flags_check ent msk = (ent AND DIR_ENT_FLAG_MASK AND msk = msk)"

definition pte_new :: "usize \<Rightarrow> u32 \<Rightarrow> u32" where
  "pte_new page_addr flags = page_addr OR (flags AND TAB_ENT_FLAG_MASK)"

definition pte_set_flags :: "u32 \<Rightarrow> u32 \<Rightarrow> u32" where
  "pte_set_flags ent flags = ent OR (flags AND TAB_ENT_FLAG_MASK)"

definition pte_addr :: "u32 \<Rightarrow> usize res" where
  "pte_addr ent = addr_from_raw Page (ent AND NOT TAB_ENT_FLAG_MASK)"

definition pte_flags :: "u32 \<Rightarrow> u32" where
  "pte_flags ent = ent AND TAB_ENT_FLAG_MASK"

definition pte_flags_check :: "u32 \<Rightarrow> u32 \<Rightarrow> bool" where
  "pte_flags_check ent msk = (ent AND TAB_ENT_FLAG_MASK AND msk = msk)"

section \<open>Kernel memory and the page allocator\<close>

text \<open>
  The address space under construction with the kernel memory it uses: the directory (a boxed
  array at \<open>dir_addr\<close>), the page tables and byte pages by virtual address, and the heap.
\<close>

record 'h vm =
  dir_addr :: usize
  pg_dir :: "u32 list"
  tables :: "usize \<rightharpoonup> u32 list"
  pages :: "usize \<rightharpoonup> u8 list"
  heap :: 'h

type_synonym 'h page_alloc = "'h \<Rightarrow> (usize \<times> 'h) option"

text \<open>
  \<^verbatim>\<open>GlobalAlloc::alloc\<close> of the kernel heap unwraps the result of \<^verbatim>\<open>allocate_first_fit\<close>, so running
  out of memory panics; \<^verbatim>\<open>kalloc\<close> therefore never returns \<^verbatim>\<open>None\<close>. This is what happens under the lock of the
  heap; theory \<open>Kernel_Heap\<close> has the operation with its lock.
\<close>

definition heap_alloc :: "'h page_alloc \<Rightarrow> 'h vm \<Rightarrow> (usize \<times> 'h vm) res" where
  "heap_alloc alloc s = (case alloc (heap s) of
      None \<Rightarrow> Fail (Panic ''called Result::unwrap() on an Err value'')
    | Some (p, h) \<Rightarrow> Ok (p, s\<lparr>heap := h\<rparr>))"

definition kalloc :: "'h page_alloc \<Rightarrow> 'h vm \<Rightarrow> (usize option \<times> 'h vm) res" where
  "kalloc alloc s = rbind (heap_alloc alloc s)
     (\<lambda>(page, s'). Ok (if page = 0 then None else Some page, s'))"

definition page_table_zero_boxed :: "'h page_alloc \<Rightarrow> 'h vm \<Rightarrow> (usize \<times> 'h vm) res" where
  "page_table_zero_boxed alloc s = rbind (heap_alloc alloc s)
     (\<lambda>(p, s'). Ok (p, s'\<lparr>tables := (tables s')(p \<mapsto> replicate NPTENTRIES 0)\<rparr>))"

definition page_directory_zero_boxed :: "'h page_alloc \<Rightarrow> 'h vm \<Rightarrow> 'h vm res" where
  "page_directory_zero_boxed alloc s = rbind (heap_alloc alloc s)
     (\<lambda>(p, s'). Ok (s'\<lparr>dir_addr := p, pg_dir := replicate NPDENTRIES 0\<rparr>))"

section \<open>Building page tables\<close>

definition deref_table :: "'h vm \<Rightarrow> usize \<Rightarrow> u32 list res" where
  "deref_table s t = (case tables s t of None \<Rightarrow> Fail (Undefined ''no page table here'')
     | Some tab \<Rightarrow> Ok tab)"

definition walk_page_dir ::
  "'h page_alloc \<Rightarrow> 'h vm \<Rightarrow> usize \<Rightarrow> bool \<Rightarrow> ('h vm \<times> (usize \<times> nat) option) res" where
  "walk_page_dir alloc s va do_alloc =
     rbind (rindex (pg_dir s) (unat (pdx va))) (\<lambda>pde.
     rbind (if pde_flags_check pde PRESENT
            then rbind (pde_addr pde) (\<lambda>pa. rbind (p2v pa) (\<lambda>t. Ok (s, Some t)))
            else if \<not> do_alloc then Ok (s, None)
            else rbind (page_table_zero_boxed alloc s) (\<lambda>(p, s').
                 rbind (addr_from PageTable p) (\<lambda>t.
                 rbind (v2p t) (\<lambda>pa.
                   Ok (s'\<lparr>pg_dir := (pg_dir s')[unat (pdx va) :=
                         pde_new_table pa (PRESENT OR WRITABLE OR USER)]\<rparr>, Some t)))))
       (\<lambda>(s', t). case t of None \<Rightarrow> Ok (s', None)
          | Some pg_tab \<Rightarrow> rbind (deref_table s' pg_tab) (\<lambda>tab.
              rbind (rindex tab (unat (ptx va))) (\<lambda>_. Ok (s', Some (pg_tab, unat (ptx va)))))))"

definition read_pte :: "'h vm \<Rightarrow> usize \<times> nat \<Rightarrow> u32 res" where
  "read_pte s loc = rbind (deref_table s (fst loc)) (\<lambda>tab. rindex tab (snd loc))"

definition write_pte :: "'h vm \<Rightarrow> usize \<times> nat \<Rightarrow> u32 \<Rightarrow> 'h vm" where
  "write_pte s loc v = s\<lparr>tables := (tables s)(fst loc :=
     map_option (\<lambda>tab. tab[snd loc := v]) (tables s (fst loc)))\<rparr>"

text \<open>One iteration of the loop of \<^verbatim>\<open>map_pages\<close>: map the page at \<open>a\<close>.\<close>

definition map_page :: "'h page_alloc \<Rightarrow> 'h vm \<Rightarrow> usize \<Rightarrow> usize \<Rightarrow> u32 \<Rightarrow> ('h vm \<times> unit option) res"
where
  "map_page alloc s a pa perm = rbind (walk_page_dir alloc s a True) (\<lambda>(s', r).
     case r of None \<Rightarrow> Ok (s', None)
     | Some loc \<Rightarrow> rbind (read_pte s' loc) (\<lambda>pte.
         if pte_flags_check pte PRESENT then Fail (Panic ''remap'')
         else Ok (write_pte s' loc (pte_new pa (perm OR PRESENT)), Some ())))"

text \<open>
  The loop visits page-aligned addresses one page apart, so \<open>2 ^ 20\<close> iterations reach every
  one of them: this is the fuel of \<^verbatim>\<open>map_pages\<close>.
\<close>

fun map_loop :: "nat \<Rightarrow> 'h page_alloc \<Rightarrow> 'h vm \<Rightarrow> usize \<Rightarrow> usize \<Rightarrow> usize \<Rightarrow> u32 \<Rightarrow>
  ('h vm \<times> unit option) res" where
  "map_loop 0 alloc s a lst pa perm = Fail Spin"
| "map_loop (Suc n) alloc s a lst pa perm =
     rbind (map_page alloc s a pa perm) (\<lambda>(s', r).
       case r of None \<Rightarrow> Ok (s', None)
       | Some _ \<Rightarrow> if a = lst then Ok (s', Some ())
           else rbind (addr_add Page a 1) (\<lambda>a'.
                rbind (addr_add Page pa 1) (\<lambda>pa'. map_loop n alloc s' a' lst pa' perm)))"

definition map_pages :: "'h page_alloc \<Rightarrow> 'h vm \<Rightarrow> usize \<Rightarrow> usize \<Rightarrow> usize \<Rightarrow> u32 \<Rightarrow>
  ('h vm \<times> unit option) res" where
  "map_pages alloc s va sz pa perm =
     rbind (round_down byte_layout va PAGE_SIZE) (\<lambda>a0.
     rbind (addr_cast Page a0) (\<lambda>a.
     rbind (addr_add byte_layout va sz) (\<lambda>e.
     rbind (addr_sub byte_layout e 1) (\<lambda>e1.
     rbind (round_down byte_layout e1 PAGE_SIZE) (\<lambda>l0.
     rbind (addr_cast Page l0) (\<lambda>lst.
       map_loop (2 ^ 20) alloc s a lst pa perm))))))"

text \<open>\<^verbatim>\<open>uvm::dealloc\<close> is not written yet, so \<^verbatim>\<open>free_vm\<close> always panics on its first statement.\<close>

definition uvm_dealloc :: "'h vm \<Rightarrow> usize \<Rightarrow> usize \<Rightarrow> 'h vm res" where
  "uvm_dealloc s old_sz new_sz = Fail Todo"

fun drop_tables :: "u32 list \<Rightarrow> 'h vm \<Rightarrow> 'h vm res" where
  "drop_tables [] s = Ok s"
| "drop_tables (ent # ents) s =
     (if pde_flags_check ent PRESENT
      then rbind (pde_addr ent) (\<lambda>pa. rbind (p2v pa) (\<lambda>v.
             drop_tables ents (s\<lparr>tables := (tables s)(v := None)\<rparr>)))
      else drop_tables ents s)"

definition free_vm :: "'h vm \<Rightarrow> 'h vm res" where
  "free_vm s = rbind (uvm_dealloc s KERNBASE 0) (\<lambda>s'. drop_tables (pg_dir s') s')"

record Kmap =
  virt :: usize
  start :: usize
  kend :: usize
  perm :: u32

definition kmap_of :: "usize \<Rightarrow> usize \<Rightarrow> usize \<Rightarrow> Kmap list" where
  "kmap_of data_vaddr data_paddr kernlink_paddr =
    [\<lparr>virt = KERNBASE, start = 0, kend = EXTMEM, perm = WRITABLE\<rparr>,
     \<lparr>virt = KERNLINK, start = kernlink_paddr, kend = data_paddr, perm = 0\<rparr>,
     \<lparr>virt = data_vaddr, start = data_paddr, kend = PHYSTOP, perm = WRITABLE\<rparr>,
     \<lparr>virt = DEVSPACE, start = DEVSPACE, kend = 0, perm = WRITABLE\<rparr>]"

fun map_kmaps :: "'h page_alloc \<Rightarrow> 'h vm \<Rightarrow> Kmap list \<Rightarrow> 'h vm option res" where
  "map_kmaps alloc s [] = Ok (Some s)"
| "map_kmaps alloc s (k # ks) =
     rbind (addr_cast byte_layout (virt k)) (\<lambda>va.
     rbind (map_pages alloc s va (kend k - start k) (start k) (perm k)) (\<lambda>(s', r).
       case r of None \<Rightarrow> rbind (free_vm s') (\<lambda>_. Ok None)
       | Some _ \<Rightarrow> map_kmaps alloc s' ks))"

text \<open>\<open>data\<close> is the linker symbol at the start of the data section.\<close>

definition setup_kvm :: "'h page_alloc \<Rightarrow> usize \<Rightarrow> 'h vm \<Rightarrow> 'h vm option res" where
  "setup_kvm alloc data s =
     rbind (addr_from_raw byte_layout data) (\<lambda>data_vaddr.
     rbind (v2p data_vaddr) (\<lambda>data_paddr.
     rbind (v2p KERNLINK) (\<lambda>kernlink_paddr.
     rbind (page_directory_zero_boxed alloc s) (\<lambda>s'.
     rbind (p2v PHYSTOP) (\<lambda>top.
       if top > DEVSPACE then Fail (Panic ''PHYSTOP too high'')
       else map_kmaps alloc s' (kmap_of data_vaddr data_paddr kernlink_paddr))))))"

text \<open>
  \<^verbatim>\<open>uvm::init\<close> ignores the result of \<^verbatim>\<open>map_pages\<close> and copies the code through the kernel address
  of the page.
\<close>

definition uvm_init :: "'h page_alloc \<Rightarrow> 'h vm \<Rightarrow> u8 list \<Rightarrow> 'h vm res" where
  "uvm_init alloc s init_code =
     rbind (rassert (length init_code < unat PAGE_SIZE)
              ''assertion failed: init_code.len() < PAGE_SIZE'') (\<lambda>_.
     rbind (kalloc alloc s) (\<lambda>(page, s1).
     rbind (rexpect page ''called Option::unwrap() on a None value'') (\<lambda>mem.
     rbind (Ok (s1\<lparr>pages := (pages s1)(mem \<mapsto> replicate (unat PAGE_SIZE) 0)\<rparr>)) (\<lambda>s2.
     rbind (v2p mem) (\<lambda>pa.
     rbind (map_pages alloc s2 0 PAGE_SIZE pa (WRITABLE OR USER)) (\<lambda>(s3, _).
       Ok (s3\<lparr>pages := (pages s3)(mem :=
            map_option (\<lambda>bs. init_code @ drop (length init_code) bs) (pages s3 mem))\<rparr>)))))))"

section \<open>The processor's view\<close>

text \<open>
  The address translation of 32-bit paging with page size extensions (Intel SDM Vol. 3, 4.3),
  the specification the page tables are measured against: a directory entry maps a 4 MiB page
  when its page size bit is set and refers to a page table otherwise. Physical memory is reached
  at \<^verbatim>\<open>KERNBASE\<close> above its physical address. The result is the physical address and the flags of
  the entry that maps it.
\<close>

definition pte_of :: "'h vm \<Rightarrow> usize \<Rightarrow> u32 option" where
  "pte_of s va = (let pde = pg_dir s ! unat (pdx va) in
     if pde AND PRESENT = 0 then None
     else map_option (\<lambda>tab. tab ! unat (ptx va)) (tables s ((pde AND 0xFFFFF000) + KERNBASE)))"

definition translate :: "'h vm \<Rightarrow> usize \<Rightarrow> (usize \<times> u32) option" where
  "translate s va = (let pde = pg_dir s ! unat (pdx va) in
     if pde AND PRESENT \<noteq> 0 \<and> pde AND PAGE_SIZE_4MIB \<noteq> 0
     then Some ((pde AND 0xFFC00000) OR (va AND 0x3FFFFF), pde AND 0xFFF)
     else case pte_of s va of None \<Rightarrow> None
       | Some pte \<Rightarrow> if pte AND PRESENT = 0 then None
           else Some ((pte AND 0xFFFFF000) OR (va AND 0xFFF), pte AND 0xFFF))"

text \<open>What the code relies on of the external allocator, with ghost functions for the blocks in
  use and the number of free page-sized blocks.\<close>

definition page_alloc_ok :: "'h page_alloc \<Rightarrow> ('h \<Rightarrow> usize set) \<Rightarrow> ('h \<Rightarrow> nat) \<Rightarrow> bool" where
  "page_alloc_ok alloc live avail \<longleftrightarrow>
     (\<forall>h. alloc h = None \<longrightarrow> avail h = 0) \<and>
     (\<forall>h p h'. alloc h = Some (p, h') \<longrightarrow>
        p mod 4096 = 0 \<and> KERNBASE \<le> p \<and> p \<notin> live h \<and> live h' = insert p (live h)
        \<and> avail h = Suc (avail h'))"

section \<open>Entries and indices\<close>

definition vpn :: "usize \<Rightarrow> nat" where
  "vpn va = unat va div 4096"

lemmas flag_consts = DIR_ENT_FLAG_MASK_def TAB_ENT_FLAG_MASK_def PAGE_SIZE_4MIB_def USER_def
  WRITABLE_def PRESENT_def

lemma unat_pdx: "unat (pdx va) = unat va div 4194304"
proof -
  have "unat va div 4194304 < 1024"
    using unat_less32 [of va] by simp
  then show ?thesis
    by (simp add: pdx_def mask_consts unat_and_mask unat_drop_bit)
qed

lemma unat_ptx: "unat (ptx va) = unat va div 4096 mod 1024"
  by (simp add: ptx_def mask_consts unat_and_mask unat_drop_bit)

lemma pdx_vpn [word_facts]: "unat (pdx va) = vpn va div 1024"
  by (simp add: unat_pdx vpn_def div_mult2_eq [symmetric])

lemma ptx_vpn [word_facts]: "unat (ptx va) = vpn va mod 1024"
  by (simp add: unat_ptx vpn_def)

lemma vpn_less [simp]: "vpn va < 1048576"
  using unat_less32 [of va] by (simp add: vpn_def less_mult_imp_div_less)

lemma vpn_div_less [simp]: "vpn va div 1024 < 1024"
  using vpn_less [of va] by (simp add: less_mult_imp_div_less)

lemma aligned_and_low:
  assumes "(pa :: 32 word) mod 4096 = 0" "m AND 0xFFF = m"
  shows "pa AND m = 0"
proof -
  have "pa AND 0xFFF = 0"
    using assms(1) take_bit_eq_mod [of 12 pa] by (simp add: mask_consts flip: take_bit_eq_mask)
  then have "(pa AND 0xFFF) AND m = 0" by simp
  with assms(2) show ?thesis by (metis and.assoc and.commute)
qed

lemma and_one_cases: "(w :: 32 word) AND 1 = 0 \<or> w AND 1 = 1"
proof -
  have "unat (w mod 2) < 2"
    using unat_mod_pow2 [of w 1] by simp
  then have "unat (w mod 2) = 0 \<or> unat (w mod 2) = 1" by linarith
  then show ?thesis by (metis and_one_eq unat_1 unsigned_0 unsigned_word_eqI)
qed

lemma pde_present_iff: "pde_flags_check ent PRESENT \<longleftrightarrow> ent AND PRESENT \<noteq> 0"
  using and_one_cases [of ent] by (auto simp: pde_flags_check_def flag_consts and.assoc)

lemma pte_present_iff: "pte_flags_check ent PRESENT \<longleftrightarrow> ent AND PRESENT \<noteq> 0"
  using and_one_cases [of ent] by (auto simp: pte_flags_check_def flag_consts and.assoc)

lemma high_part:
  assumes "(pa :: 32 word) mod 4096 = 0"
  shows "(pa OR (f AND 0xFFF)) AND 0xFFFFF000 = pa"
    and "(pa OR (f AND 0xFFF)) AND 0xFFF = f AND 0xFFF"
proof -
  have e: "0xFFFFF000 = NOT (0xFFF :: 32 word)" by simp
  show "(pa OR (f AND 0xFFF)) AND 0xFFFFF000 = pa"
    unfolding e using or_masked_fields(1) [where m = "0xFFF" and f = f, OF aligned_and_low [OF assms]] by simp
  show "(pa OR (f AND 0xFFF)) AND 0xFFF = f AND 0xFFF"
    using or_masked_fields(2) [where m = "0xFFF" and f = f, OF aligned_and_low [OF assms]] by simp
qed

lemma low_flags [simp]:
  "(f AND DIR_ENT_FLAG_MASK) AND 0xFFF = f AND DIR_ENT_FLAG_MASK"
  "(f AND TAB_ENT_FLAG_MASK) AND 0xFFF = f AND TAB_ENT_FLAG_MASK"
  by (simp_all add: flag_consts and.assoc)

lemma pde_new_table_parts:
  assumes "pa mod 4096 = 0"
  shows "pde_new_table pa f AND NOT DIR_ENT_FLAG_MASK = pa"
    and "pde_new_table pa f AND DIR_ENT_FLAG_MASK = f AND DIR_ENT_FLAG_MASK"
    and "pde_new_table pa f AND 0xFFFFF000 = pa"
    and "pde_new_table pa f AND 0xFFF = f AND DIR_ENT_FLAG_MASK"
  using or_masked_fields [where m = DIR_ENT_FLAG_MASK and f = f, OF aligned_and_low [OF assms]]
    high_part [OF assms, of "f AND DIR_ENT_FLAG_MASK"]
  by (simp_all add: pde_new_table_def) (simp_all add: DIR_ENT_FLAG_MASK_def)

lemma pte_new_parts:
  assumes "pa mod 4096 = 0"
  shows "pte_new pa f AND NOT TAB_ENT_FLAG_MASK = pa"
    and "pte_new pa f AND TAB_ENT_FLAG_MASK = f AND TAB_ENT_FLAG_MASK"
    and "pte_new pa f AND 0xFFFFF000 = pa"
    and "pte_new pa f AND 0xFFF = f AND TAB_ENT_FLAG_MASK"
  using or_masked_fields [where m = TAB_ENT_FLAG_MASK and f = f, OF aligned_and_low [OF assms]]
    high_part [OF assms, of "f AND TAB_ENT_FLAG_MASK"]
  by (simp_all add: pte_new_def) (simp_all add: TAB_ENT_FLAG_MASK_def)

lemma pte_new_present: "pte_new pa (f OR PRESENT) AND PRESENT = PRESENT"
  by (simp add: pte_new_def flag_consts bit.conj_disj_distrib2 and.assoc) 

end
