(* ===== verification/I386.thy ===== *)
theory I386
  imports Xv6_Prelude
begin

text \<open>
  The part of the i386 instruction set that the assembly of the kernel uses: \<^verbatim>\<open>switch\<close>
  (\<^verbatim>\<open>kernel/src/proc.rs\<close>), \<^verbatim>\<open>alltraps\<close> and \<^verbatim>\<open>trapret\<close> (\<^verbatim>\<open>kernel/src/trap.rs\<close>) and the vector stubs that
  \<^verbatim>\<open>kernel/build.rs\<close> generates. Memory is read and written in aligned double words, which is all that
  this code does; an access that is not aligned is outside the model and a fault. Stack segments are
  flat.
\<close>

datatype reg = EAX | ECX | EDX | EBX | ESP | EBP | ESI | EDI

datatype sreg = ES | CS | SS | DS | FS | GS

record mach =
  gpr :: "reg \<Rightarrow> u32"
  sgr :: "sreg \<Rightarrow> u16"
  eip :: u32
  flags :: u32
  dmem :: "u32 \<Rightarrow> u32"

datatype instr =
    LoadL u32 reg reg       \<comment> \<open>\<^verbatim>\<open>movl disp(base), dst\<close>\<close>
  | StoreL reg reg          \<comment> \<open>\<^verbatim>\<open>movl src, (base)\<close>\<close>
  | MovL reg reg            \<comment> \<open>\<^verbatim>\<open>movl src, dst\<close>\<close>
  | MovAX u16               \<comment> \<open>\<^verbatim>\<open>movw imm, %ax\<close>\<close>
  | MovSeg sreg             \<comment> \<open>\<^verbatim>\<open>movw %ax, sreg\<close>\<close>
  | PushL reg | PushI u32 | PushS sreg
  | PopL reg | PopS sreg
  | PushAL | PopAL
  | AddEsp u32
  | Ret | Iret

section \<open>Memory and stack\<close>

definition aligned4 :: "u32 \<Rightarrow> bool" where
  "aligned4 a \<longleftrightarrow> a AND 3 = 0"

definition ld :: "mach \<Rightarrow> u32 \<Rightarrow> u32 res" where
  "ld m a = (if aligned4 a then Ok (dmem m a) else Fail (Undefined ''unaligned access''))"

definition st :: "u32 \<Rightarrow> u32 \<Rightarrow> mach \<Rightarrow> mach res" where
  "st a v m = (if aligned4 a then Ok (m\<lparr>dmem := (dmem m)(a := v)\<rparr>) else Fail (Undefined ''unaligned access''))"

definition set_gpr :: "reg \<Rightarrow> u32 \<Rightarrow> mach \<Rightarrow> mach" where
  "set_gpr r v m = m\<lparr>gpr := (gpr m)(r := v)\<rparr>"

definition set_sgr :: "sreg \<Rightarrow> u16 \<Rightarrow> mach \<Rightarrow> mach" where
  "set_sgr r v m = m\<lparr>sgr := (sgr m)(r := v)\<rparr>"

definition push :: "u32 \<Rightarrow> mach \<Rightarrow> mach res" where
  "push v m = (let a = gpr m ESP - 4 in st a v (set_gpr ESP a m))"

definition pop :: "mach \<Rightarrow> (u32 \<times> mach) res" where
  "pop m = rbind (ld m (gpr m ESP)) (\<lambda>v. Ok (v, set_gpr ESP (gpr m ESP + 4) m))"

fun pushes :: "u32 list \<Rightarrow> mach \<Rightarrow> mach res" where
  "pushes [] m = Ok m"
| "pushes (v # vs) m = rbind (push v m) (pushes vs)"

text \<open>\<^verbatim>\<open>popal\<close> discards the saved stack pointer.\<close>

fun pop_regs :: "reg list \<Rightarrow> mach \<Rightarrow> mach res" where
  "pop_regs [] m = Ok m"
| "pop_regs (r # rs) m = rbind (pop m) (\<lambda>(v, m1). pop_regs rs (if r = ESP then m1 else set_gpr r v m1))"

text \<open>
  \<^verbatim>\<open>iret\<close> also pops the stack pointer and segment when it returns to an outer ring. The checks of the processor on the descriptors behind
  the selectors it loads are not modelled.
\<close>

definition rpl :: "u16 \<Rightarrow> u16" where
  "rpl sel = sel AND 3"

definition iret :: "mach \<Rightarrow> mach res" where
  "iret m = rbind (pop m) (\<lambda>(ip, m1). rbind (pop m1) (\<lambda>(c, m2). rbind (pop m2) (\<lambda>(fl, m3).
     let m4 = set_sgr CS (ucast c) (m3\<lparr>eip := ip, flags := fl\<rparr>) in
     if rpl (ucast c) > rpl (sgr m CS)
     then rbind (pop m4) (\<lambda>(sp, m5). rbind (pop m5) (\<lambda>(sseg, m6). Ok (set_sgr SS (ucast sseg) (set_gpr ESP sp m6))))
     else Ok m4)))"

section \<open>Instructions\<close>

fun exec :: "instr \<Rightarrow> mach \<Rightarrow> mach res" where
  "exec (LoadL disp base dst) m = rbind (ld m (gpr m base + disp)) (\<lambda>v. Ok (set_gpr dst v m))"
| "exec (StoreL src base) m = st (gpr m base) (gpr m src) m"
| "exec (MovL src dst) m = Ok (set_gpr dst (gpr m src) m)"
| "exec (MovAX v) m = Ok (set_gpr EAX ((gpr m EAX AND 0xFFFF0000) OR ucast v) m)"
| "exec (MovSeg r) m = Ok (set_sgr r (ucast (gpr m EAX)) m)"
| "exec (PushL r) m = push (gpr m r) m"
| "exec (PushI v) m = push v m"
| "exec (PushS r) m = push (ucast (sgr m r)) m"
| "exec (PopL r) m = rbind (pop m) (\<lambda>(v, m1). Ok (set_gpr r v m1))"
| "exec (PopS r) m = rbind (pop m) (\<lambda>(v, m1). Ok (set_sgr r (ucast v) m1))"
| "exec PushAL m = pushes (map (gpr m) [EAX, ECX, EDX, EBX, ESP, EBP, ESI, EDI]) m"
| "exec PopAL m = pop_regs [EDI, ESI, EBP, ESP, EBX, EDX, ECX, EAX] m"
| "exec (AddEsp n) m = Ok (set_gpr ESP (gpr m ESP + n) m)"
| "exec Ret m = rbind (pop m) (\<lambda>(v, m1). Ok (m1\<lparr>eip := v\<rparr>))"
| "exec Iret m = iret m"

fun run :: "instr list \<Rightarrow> mach \<Rightarrow> mach res" where
  "run [] m = Ok m"
| "run (i # is) m = rbind (exec i m) (run is)"

lemma run_append: "run (xs @ ys) m = rbind (run xs m) (run ys)"
  by (induction xs arbitrary: m) (simp_all add: rbind_def fun_eq_iff split: sum.splits)

section \<open>Stack lemmas\<close>

text \<open>A stack is described by the double words at and above the stack pointer.\<close>

fun words_at :: "(u32 \<Rightarrow> u32) \<Rightarrow> u32 \<Rightarrow> u32 list \<Rightarrow> bool" where
  "words_at mem a [] \<longleftrightarrow> True"
| "words_at mem a (v # vs) \<longleftrightarrow> mem a = v \<and> words_at mem (a + 4) vs"

definition stack :: "mach \<Rightarrow> u32 list \<Rightarrow> bool" where
  "stack m vs \<longleftrightarrow> aligned4 (gpr m ESP) \<and> words_at (dmem m) (gpr m ESP) vs"

lemma aligned4_unat: "aligned4 a \<longleftrightarrow> unat a mod 4 = 0"
proof -
  have "a AND 3 = take_bit 2 a" by (simp add: take_bit_eq_mask mask_eq_exp_minus_1)
  moreover have "unat (take_bit 2 a) = take_bit 2 (unat a)" by (rule unsigned_take_bit_eq)
  ultimately have "unat (a AND 3) = unat a mod 4" by (simp only: take_bit_eq_mod) simp
  then show ?thesis by (metis aligned4_def unat_eq_zero)
qed

lemma aligned4_add [simp]: "aligned4 b \<Longrightarrow> aligned4 (a + b) \<longleftrightarrow> aligned4 a"
  unfolding aligned4_unat by (simp add: unat_word_ariths mod_mod_cancel) presburger

lemma aligned4_diff [simp]: "aligned4 b \<Longrightarrow> aligned4 (a - b) \<longleftrightarrow> aligned4 a"
  using aligned4_add [of b "a - b"] by simp

lemma aligned4_numeral [simp]: "aligned4 (numeral n) \<longleftrightarrow> (numeral n :: u32) AND 3 = 0"
  by (simp add: aligned4_def)

lemma words_at_iff: "words_at mem a vs \<longleftrightarrow> (\<forall>k < length vs. mem (a + 4 * of_nat k) = vs ! k)"
proof (induction vs arbitrary: a)
  case (Cons v vs)
  show ?case
    unfolding words_at.simps Cons length_Cons All_less_Suc2 by (simp add: algebra_simps)
qed simp

lemma words_at_cong:
  "(\<And>k. k < length vs \<Longrightarrow> mem' (a + 4 * of_nat k) = mem (a + 4 * of_nat k)) \<Longrightarrow> words_at mem' a vs = words_at mem a vs"
  by (simp add: words_at_iff)

lemma words_at_append: "words_at mem a (us @ vs) \<longleftrightarrow> words_at mem a us \<and> words_at mem (a + 4 * of_nat (length us)) vs"
  by (induction us arbitrary: a) (simp_all add: algebra_simps)

lemma below_stack:
  assumes "k < 2 ^ 30 - 1"
  shows "4 + 4 * of_nat k \<noteq> (0 :: u32)" "(a :: u32) + 4 * of_nat k \<noteq> a - 4"
proof -
  show "4 + 4 * of_nat k \<noteq> (0 :: u32)"
  proof
    assume "4 + 4 * of_nat k = (0 :: u32)"
    then have "(of_nat (4 + 4 * k) :: u32) = 0" by simp
    then have "2 ^ 32 dvd 4 + 4 * k" unfolding word_of_nat_eq_0_iff by simp
    then show False using assms by (auto dest!: dvd_imp_le)
  qed
  then show "(a :: u32) + 4 * of_nat k \<noteq> a - 4" by (simp add: algebra_simps)
qed

definition pushed_word :: "u32 \<Rightarrow> mach \<Rightarrow> mach" where
  "pushed_word v m = (set_gpr ESP (gpr m ESP - 4) m)\<lparr>dmem := (dmem m)(gpr m ESP - 4 := v)\<rparr>"

lemma pushed_word_sel [simp]:
  "gpr (pushed_word v m) ESP = gpr m ESP - 4" "r \<noteq> ESP \<Longrightarrow> gpr (pushed_word v m) r = gpr m r"
  "sgr (pushed_word v m) = sgr m" "eip (pushed_word v m) = eip m" "flags (pushed_word v m) = flags m"
  by (simp_all add: pushed_word_def set_gpr_def)

lemma push_eq: "aligned4 (gpr m ESP) \<Longrightarrow> push v m = Inr (pushed_word v m)"
  by (simp add: push_def st_def Let_def set_gpr_def pushed_word_def)

lemma stack_push: "stack m vs \<Longrightarrow> length vs < 2 ^ 30 - 1 \<Longrightarrow> stack (pushed_word v m) (v # vs)"
  unfolding stack_def by (auto simp: pushed_word_def set_gpr_def words_at_iff All_less_Suc2 below_stack)

lemma stack_aligned: "stack m vs \<Longrightarrow> aligned4 (gpr m ESP)"
  by (simp add: stack_def)

lemma pop_eq: "stack m (v # vs) \<Longrightarrow> pop m = Inr (v, set_gpr ESP (gpr m ESP + 4) m)"
  by (simp add: pop_def ld_def stack_def)

lemma stack_pop: "stack m (v # vs) \<Longrightarrow> stack (set_gpr ESP (gpr m ESP + 4) m) vs"
  by (simp add: stack_def set_gpr_def)

lemma stack_set: "r \<noteq> ESP \<Longrightarrow> stack (set_gpr r v m) vs = stack m vs" "stack (set_sgr q u m) vs = stack m vs"
  "stack (m\<lparr>eip := ip\<rparr>) vs = stack m vs" "stack (m\<lparr>flags := fl\<rparr>) vs = stack m vs"
  by (simp_all add: stack_def set_gpr_def set_sgr_def)

lemma set_gpr_sel [simp]:
  "gpr (set_gpr r v m) q = (if q = r then v else gpr m q)" "sgr (set_gpr r v m) = sgr m" "eip (set_gpr r v m) = eip m"
  "flags (set_gpr r v m) = flags m" "dmem (set_gpr r v m) = dmem m"
  by (simp_all add: set_gpr_def)

lemma set_sgr_sel [simp]:
  "sgr (set_sgr r v m) q = (if q = r then v else sgr m q)" "gpr (set_sgr r v m) = gpr m" "eip (set_sgr r v m) = eip m"
  "flags (set_sgr r v m) = flags m" "dmem (set_sgr r v m) = dmem m"
  by (simp_all add: set_sgr_def)

end
