(* ===== verification/Context_Switch.thy ===== *)
theory Context_Switch
  imports I386
begin

text \<open>
  Kernel context switches: \<^verbatim>\<open>Context\<close> and the assembly \<^verbatim>\<open>switch\<close> of \<^verbatim>\<open>kernel/src/proc.rs\<close>.
\<close>

record Context =
  ctx_edi :: u32
  ctx_esi :: u32
  ctx_ebx :: u32
  ctx_ebp :: u32
  ctx_eip :: u32

definition Context_zero :: Context where
  "Context_zero = \<lparr>ctx_edi = 0, ctx_esi = 0, ctx_ebx = 0, ctx_ebp = 0, ctx_eip = 0\<rparr>"

text \<open>The layout of a context in memory (\<^verbatim>\<open>repr(C)\<close>).\<close>

definition context_words :: "Context \<Rightarrow> u32 list" where
  "context_words c = [ctx_edi c, ctx_esi c, ctx_ebx c, ctx_ebp c, ctx_eip c]"

definition switch_code :: "instr list" where
  "switch_code = [LoadL 4 ESP EAX, LoadL 8 ESP EDX, PushL EBP, PushL EBX, PushL ESI, PushL EDI,
     StoreL ESP EAX, MovL EDX ESP, PopL EDI, PopL ESI, PopL EBX, PopL EBP, Ret]"

section \<open>What a switch does\<close>

text \<open>
  A call of \<^verbatim>\<open>switch(old, new)\<close>: the return address and the arguments are on the stack, and the
  context \<open>c\<close> to resume lies at \<open>new\<close>, where neither the four words pushed nor the pointer that
  is saved overwrite it.
\<close>

definition switch_call :: "mach \<Rightarrow> u32 \<Rightarrow> u32 \<Rightarrow> u32 \<Rightarrow> Context \<Rightarrow> bool" where
  "switch_call m ret old new c \<longleftrightarrow> stack m [ret, old, new] \<and> aligned4 old \<and> aligned4 new \<and>
     words_at (dmem m) new (context_words c) \<and>
     old \<notin> {gpr m ESP - 16, gpr m ESP - 12, gpr m ESP - 8, gpr m ESP - 4, gpr m ESP} \<and>
     {new, new + 4, new + 8, new + 12, new + 16} \<inter>
       {gpr m ESP - 16, gpr m ESP - 12, gpr m ESP - 8, gpr m ESP - 4, old} = {}"

text \<open>The context of the caller, which \<^verbatim>\<open>switch\<close> leaves on its stack.\<close>

definition caller_context :: "mach \<Rightarrow> u32 \<Rightarrow> Context" where
  "caller_context m ret = \<lparr>ctx_edi = gpr m EDI, ctx_esi = gpr m ESI, ctx_ebx = gpr m EBX, ctx_ebp = gpr m EBP, ctx_eip = ret\<rparr>"

definition switch_saved :: "mach \<Rightarrow> u32 \<Rightarrow> u32 \<Rightarrow> u32" where
  "switch_saved m old = (dmem m)(gpr m ESP - 4 := gpr m EBP, gpr m ESP - 8 := gpr m EBX, gpr m ESP - 12 := gpr m ESI,
     gpr m ESP - 16 := gpr m EDI, old := gpr m ESP - 16)"

lemma run_save:
  assumes "stack m [ret, old, new]" "aligned4 old"
  shows "run (take 8 switch_code) m = Inr (m\<lparr>dmem := switch_saved m old, gpr := (gpr m)(EAX := old, EDX := new, ESP := new)\<rparr>)"
  using assms
  by (simp add: switch_code_def ld_def st_def push_def set_gpr_def stack_def Let_def switch_saved_def add.commute [of 8])

lemma run_load:
  assumes "stack m [d, s, b, p, r]"
  shows "run (drop 8 switch_code) m = Inr (m\<lparr>gpr := (gpr m)(EDI := d, ESI := s, EBX := b, EBP := p, ESP := gpr m ESP + 20), eip := r\<rparr>)"
  using assms by (simp add: switch_code_def ld_def pop_def set_gpr_def stack_def fun_upd_twist add.commute [of "numeral n" for n])

lemma switch_saved_frame:
  "a \<notin> {gpr m ESP - 16, gpr m ESP - 12, gpr m ESP - 8, gpr m ESP - 4, old} \<Longrightarrow> switch_saved m old a = dmem m a"
  by (simp add: switch_saved_def)

lemma switch_run:
  assumes "switch_call m ret old new c"
  shows "run switch_code m = Inr (m\<lparr>gpr := (gpr m)(EAX := old, EDX := new, EDI := ctx_edi c, ESI := ctx_esi c,
    EBX := ctx_ebx c, EBP := ctx_ebp c, ESP := new + 20), eip := ctx_eip c, dmem := switch_saved m old\<rparr>)"
proof -
  note A = assms [unfolded switch_call_def]
  let ?m = "m\<lparr>dmem := switch_saved m old, gpr := (gpr m)(EAX := old, EDX := new, ESP := new)\<rparr>"
  have "switch_saved m old a = dmem m a" if "a \<in> {new, new + 4, new + 8, new + 12, new + 16}" for a
    by (rule switch_saved_frame) (use A that in blast)
  then have "words_at (switch_saved m old) new (context_words c) = words_at (dmem m) new (context_words c)"
    by (simp add: context_words_def add.commute [of "numeral n" for n])
  then have s: "stack ?m [ctx_edi c, ctx_esi c, ctx_ebx c, ctx_ebp c, ctx_eip c]"
    using A unfolding stack_def context_words_def by simp
  have "run switch_code m = rbind (run (take 8 switch_code) m) (run (drop 8 switch_code))"
    by (metis append_take_drop_id run_append)
  also have "\<dots> = run (drop 8 switch_code) ?m" using run_save [of m ret old new] A by simp
  finally show ?thesis unfolding run_load [OF s] by (simp add: fun_upd_twist)
qed

lemma switch_saved_context:
  assumes "switch_call m ret old new c"
  shows "switch_saved m old old = gpr m ESP - 16"
    "words_at (switch_saved m old) (gpr m ESP - 16) (context_words (caller_context m ret))"
proof -
  let ?sp = "gpr m ESP"
  have a: "dmem m ?sp = ret" "old \<notin> {?sp - 16, ?sp - 12, ?sp - 8, ?sp - 4, ?sp}"
    using assms by (simp_all add: switch_call_def stack_def)
  show "switch_saved m old old = ?sp - 16" by (simp add: switch_saved_def)
  have "?sp - 16 \<noteq> old" "?sp - 12 \<noteq> old" "?sp - 8 \<noteq> old" "?sp - 4 \<noteq> old" "?sp \<noteq> old" using a(2) by auto
  then show "words_at (switch_saved m old) (?sp - 16) (context_words (caller_context m ret))"
    using a(1) by (simp add: switch_saved_def context_words_def caller_context_def)
qed

section \<open>Property\<close>

text \<open>C9. A call of \<^verbatim>\<open>switch\<close> resumes the context it is given: its callee-saved registers, its
  stack and its return address. It leaves the caller's own context on the caller's stack and stores
  its address through the first argument, and any later \<^verbatim>\<open>switch\<close> to that address, made from any other
  context while the stack is intact, returns to the caller as if the first call had been an ordinary
  one: to its return address, with its stack pointer and callee-saved registers.\<close>

theorem switch_round_trip:
  assumes "switch_call m ret old new c" "switch_call t ret' old' (gpr m ESP - 16) (caller_context m ret)"
  shows "\<exists>m1 t1. run switch_code m = Inr m1 \<and> eip m1 = ctx_eip c \<and> gpr m1 ESP = new + 20 \<and>
      [gpr m1 EDI, gpr m1 ESI, gpr m1 EBX, gpr m1 EBP] = [ctx_edi c, ctx_esi c, ctx_ebx c, ctx_ebp c] \<and>
      dmem m1 old = gpr m ESP - 16 \<and> words_at (dmem m1) (gpr m ESP - 16) (context_words (caller_context m ret)) \<and>
    run switch_code t = Inr t1 \<and> eip t1 = ret \<and> gpr t1 ESP = gpr m ESP + 4 \<and>
      [gpr t1 EDI, gpr t1 ESI, gpr t1 EBX, gpr t1 EBP] = [gpr m EDI, gpr m ESI, gpr m EBX, gpr m EBP]"
  using switch_run [OF assms(1)] switch_run [OF assms(2)] switch_saved_context [OF assms(1)]
  by (simp add: caller_context_def)

text \<open>Two stacks, one at \<open>0x2000\<close> and one at \<open>0x3000\<close>, and the two pointers at \<open>0x1000\<close> and \<open>0x1004\<close>.\<close>

definition switch_demo :: "u32 \<Rightarrow> (u32 \<Rightarrow> u32) \<Rightarrow> mach" where
  "switch_demo sp mem = \<lparr>gpr = (\<lambda>r. if r = ESP then sp else if r = EBX then 7 else 0), sgr = (\<lambda>_. 0x10), eip = 0, flags = 0, dmem = mem\<rparr>"

theorem switch_round_trip_witness:
  "\<exists>m1 t1. run switch_code (switch_demo 0x2000 ((\<lambda>_. 0)(0x2000 := 0x80001234, 0x2004 := 0x1000, 0x2008 := 0x3000, 0x3010 := 0x80005678))) = Inr m1
     \<and> eip m1 = 0x80005678 \<and>
   run switch_code (switch_demo 0x3014 ((\<lambda>_. 0)(0x1FF8 := 7, 0x2000 := 0x80001234, 0x3018 := 0x1004, 0x301C := 0x1FF0))) = Inr t1
     \<and> eip t1 = 0x80001234 \<and> gpr t1 EBX = 7"
proof -
  let ?m = "switch_demo 0x2000 ((\<lambda>_. 0)(0x2000 := 0x80001234, 0x2004 := 0x1000, 0x2008 := 0x3000, 0x3010 := 0x80005678))"
  let ?t = "switch_demo 0x3014 ((\<lambda>_. 0)(0x1FF8 := 7, 0x2000 := 0x80001234, 0x3018 := 0x1004, 0x301C := 0x1FF0))"
  have c: "switch_call ?m 0x80001234 0x1000 0x3000 (Context_zero\<lparr>ctx_eip := 0x80005678\<rparr>)"
    by (simp add: switch_call_def switch_demo_def stack_def context_words_def Context_zero_def)
  have "switch_call ?t 0 0x1004 (gpr ?m ESP - 16) (caller_context ?m 0x80001234)"
    by (simp add: switch_call_def switch_demo_def stack_def context_words_def caller_context_def)
  from switch_round_trip [OF c this] show ?thesis by (auto simp: switch_demo_def Context_zero_def)
qed

end
