(* ===== verification/Traps.thy ===== *)
theory Traps
  imports I386
begin

text \<open>
  Traps: \<^verbatim>\<open>TrapFrame\<close>, \<^verbatim>\<open>alltraps\<close> and \<^verbatim>\<open>trapret\<close> of \<^verbatim>\<open>kernel/src/trap.rs\<close> and the stubs that
  \<^verbatim>\<open>kernel/build.rs\<close> generates for the 256 vectors. The compiled \<^verbatim>\<open>trap\<close> function is a parameter of which
  only the calling convention is used.
\<close>

record TrapFrame =
  tf_edi :: u32
  tf_esi :: u32
  tf_ebp :: u32
  tf_orig_esp :: u32
  tf_ebx :: u32
  tf_edx :: u32
  tf_ecx :: u32
  tf_eax :: u32
  tf_gs :: u16
  tf_fs :: u16
  tf_es :: u16
  tf_ds :: u16
  tf_trap_no :: u32
  tf_err :: u32
  tf_eip :: usize
  tf_cs :: u16
  tf_eflags :: u32
  tf_esp :: usize
  tf_ss :: u16

definition trap_frame_words :: "TrapFrame \<Rightarrow> u32 list" where
  "trap_frame_words tf = [tf_edi tf, tf_esi tf, tf_ebp tf, tf_orig_esp tf, tf_ebx tf, tf_edx tf, tf_ecx tf, tf_eax tf,
     ucast (tf_gs tf), ucast (tf_fs tf), ucast (tf_es tf), ucast (tf_ds tf), tf_trap_no tf,
     tf_err tf, tf_eip tf, ucast (tf_cs tf), tf_eflags tf, tf_esp tf, ucast (tf_ss tf)]"

text \<open>Every stub pushes a zero in place of an error code and the number of the vector.\<close>

definition vector_code :: "nat \<Rightarrow> instr list" where
  "vector_code i = [PushI 0, PushI (of_nat i)]"

definition alltraps_code :: "instr list" where
  "alltraps_code = [PushS DS, PushS ES, PushS FS, PushS GS, PushAL, MovAX (2 * 8), MovSeg DS, MovSeg ES, PushL ESP]"

definition trapret_code :: "instr list" where
  "trapret_code = [PopAL, PopS GS, PopS FS, PopS ES, PopS DS, AddEsp 8, Iret]"

section \<open>The hardware\<close>

text \<open>
  What the processor does on an interrupt or exception through an interrupt gate (Intel SDM Vol. 3,
  6.12): it changes to the stack of the task state segment when it comes from an outer ring, pushes the
  state to return to and, for some exceptions, an error code, and clears the interrupt flag.
\<close>

definition hw_error_code :: "nat \<Rightarrow> bool" where
  "hw_error_code i \<longleftrightarrow> i \<in> {8, 10, 11, 12, 13, 14, 17}"

definition interrupt :: "nat \<Rightarrow> u32 \<Rightarrow> u32 \<Rightarrow> u16 \<Rightarrow> u16 \<Rightarrow> u32 \<Rightarrow> mach \<Rightarrow> mach res" where
  "interrupt i err esp0 ss0 sel off m =
     (let user = rpl (sgr m CS) \<noteq> 0;
          m1 = (if user then set_sgr SS ss0 (set_gpr ESP esp0 m) else m);
          ws = (if user then [ucast (sgr m SS), gpr m ESP] else []) @ [flags m, ucast (sgr m CS), eip m]
             @ (if hw_error_code i then [err] else []) in
      rbind (pushes ws m1) (\<lambda>m2. Ok (set_sgr CS sel (m2\<lparr>eip := off, flags := flags m2 AND NOT 0x200\<rparr>))))"

text \<open>
  The call of \<^verbatim>\<open>trap\<close>: the calling convention keeps the callee-saved registers, the segment registers
  and the caller's part of the stack.
\<close>

definition keeps_frame :: "(mach \<Rightarrow> mach res) \<Rightarrow> bool" where
  "keeps_frame h \<longleftrightarrow> (\<forall>m vs. stack m vs \<longrightarrow> length vs < 64 \<longrightarrow> (\<exists>m'. h m = Inr m' \<and> stack m' vs \<and>
     gpr m' ESP = gpr m ESP \<and> (\<forall>r \<in> {EBX, EBP, ESI, EDI}. gpr m' r = gpr m r) \<and> sgr m' = sgr m))"

definition take_trap :: "(mach \<Rightarrow> mach res) \<Rightarrow> nat \<Rightarrow> u32 \<Rightarrow> u32 \<Rightarrow> u16 \<Rightarrow> u16 \<Rightarrow> u32 \<Rightarrow> mach \<Rightarrow> mach res" where
  "take_trap trap i err esp0 ss0 sel off m =
     rbind (interrupt i err esp0 ss0 sel off m) (\<lambda>m1.
     rbind (run (vector_code i @ alltraps_code) m1) (\<lambda>m2.
     rbind (trap m2) (\<lambda>m3.
       run ([AddEsp 4] @ trapret_code) m3)))"

section \<open>Entering and leaving\<close>

lemma pushes_eq:
  "aligned4 (gpr m ESP) \<Longrightarrow> pushes vs m = Inr (fold pushed_word vs m)"
  by (induction vs arbitrary: m) (simp_all add: push_eq)

lemma stack_pushes:
  "stack m ws \<Longrightarrow> length vs + length ws < 2 ^ 30 \<Longrightarrow> stack (fold pushed_word vs m) (rev vs @ ws)"
proof (induction vs arbitrary: m ws)
  case (Cons v vs)
  have "stack (pushed_word v m) (v # ws)" by (rule stack_push) (use Cons(2,3) in auto)
  then show ?case using Cons(1) [of "pushed_word v m" "v # ws"] Cons(3) by simp
qed simp

lemma fold_pushed_sel [simp]:
  "gpr (fold pushed_word vs m) ESP = gpr m ESP - 4 * of_nat (length vs)"
  "r \<noteq> ESP \<Longrightarrow> gpr (fold pushed_word vs m) r = gpr m r"
  "sgr (fold pushed_word vs m) = sgr m" "eip (fold pushed_word vs m) = eip m" "flags (fold pushed_word vs m) = flags m"
  by (induction vs arbitrary: m) (simp_all add: diff_diff_eq ring_distribs)

definition frame_pushes :: "nat \<Rightarrow> mach \<Rightarrow> u32 list" where
  "frame_pushes i m = [0, of_nat i, ucast (sgr m DS), ucast (sgr m ES), ucast (sgr m FS), ucast (sgr m GS),
     gpr m EAX, gpr m ECX, gpr m EDX, gpr m EBX, gpr m ESP - 24, gpr m EBP, gpr m ESI, gpr m EDI]"

lemma ucast_16_32 [simp]: "(ucast (ucast (c :: u16) :: u32) :: u16) = c"
  by (rule bit_word_eqI) (simp add: bit_simps)

lemma kdata_ax: "(ucast ((x AND 0xFFFF0000) OR 16 :: u32) :: u16) = 16"
proof (rule bit_word_eqI)
  fix n assume "n < LENGTH(16)"
  moreover have "\<not> bit (0xFFFF0000 :: u32) n" if "n < 16"
    using that bit_push_bit_iff [of 16 "0xFFFF :: u32" n] by simp
  ultimately show "bit (ucast ((x AND 0xFFFF0000) OR 16 :: u32) :: u16) n = bit (16 :: u16) n"
    by (simp add: bit_simps)
qed

lemma entry_run:
  assumes "aligned4 (gpr m ESP)"
  shows "run (vector_code i @ alltraps_code) m = Inr (pushed_word (gpr m ESP - 56)
     (set_sgr ES 16 (set_sgr DS 16 (set_gpr EAX ((gpr m EAX AND 0xFFFF0000) OR 16) (fold pushed_word (frame_pushes i m) m)))))"
  using assms by (simp add: vector_code_def alltraps_code_def push_eq frame_pushes_def pushes_eq kdata_ax)

lemma exit_run:
  assumes "stack m (di # si # bp # x # b # d # c # a # g # f # e # dd # no # err # ws)"
  shows "run (butlast trapret_code) m = Inr (m\<lparr>
    gpr := (gpr m)(EDI := di, ESI := si, EBP := bp, EBX := b, EDX := d, ECX := c, EAX := a, ESP := gpr m ESP + 56),
    sgr := (sgr m)(GS := ucast g, FS := ucast f, ES := ucast e, DS := ucast dd)\<rparr>)"
    "stack (m\<lparr>
    gpr := (gpr m)(EDI := di, ESI := si, EBP := bp, EBX := b, EDX := d, ECX := c, EAX := a, ESP := gpr m ESP + 56),
    sgr := (sgr m)(GS := ucast g, FS := ucast f, ES := ucast e, DS := ucast dd)\<rparr>) ws"
  using assms
  by (simp_all add: trapret_code_def ld_def pop_def set_gpr_def set_sgr_def stack_def fun_upd_twist add.commute [of "numeral n" for n])

lemma iret_inner:
  assumes "stack m (ip # ucast c # fl # ws)" "rpl c \<le> rpl (sgr m CS)"
  shows "iret m = Inr (m\<lparr>gpr := (gpr m)(ESP := gpr m ESP + 12), eip := ip, flags := fl, sgr := (sgr m)(CS := c)\<rparr>)"
  using assms
  by (simp add: iret_def ld_def pop_def set_gpr_def set_sgr_def stack_def Let_def not_less add.commute [of "numeral n" for n])

lemma iret_outer:
  assumes "stack m (ip # ucast c # fl # sp # ucast sg # ws)" "rpl c > rpl (sgr m CS)"
  shows "iret m = Inr (m\<lparr>eip := ip, flags := fl, gpr := (gpr m)(ESP := sp), sgr := (sgr m)(CS := c, SS := sg)\<rparr>)"
  using assms
  by (simp add: iret_def ld_def pop_def set_gpr_def set_sgr_def stack_def Let_def add.commute [of "numeral n" for n])

lemma keeps_frameD:
  assumes "keeps_frame h" "stack m vs" "length vs < 64"
  obtains m' where "h m = Inr m'" "stack m' vs" "gpr m' ESP = gpr m ESP" "sgr m' = sgr m"
    "\<And>r. r \<in> {EBX, EBP, ESI, EDI} \<Longrightarrow> gpr m' r = gpr m r"
  using assms unfolding keeps_frame_def by blast

text \<open>From the vector to the final \<^verbatim>\<open>iret\<close> every register is what it was and the stack is popped back.\<close>

lemma trap_body:
  assumes h: "keeps_frame h" and s: "stack m ws" "length ws < 40"
  shows "\<exists>m4. rbind (run (vector_code i @ alltraps_code) m) (\<lambda>m2. rbind (h m2) (run ([AddEsp 4] @ trapret_code))) = iret m4 \<and>
    gpr m4 = gpr m \<and> sgr m4 = sgr m \<and> stack m4 ws"
proof -
  let ?f = "fold pushed_word (frame_pushes i m) m" and ?sp = "gpr m ESP"
  let ?m1 = "set_sgr ES 16 (set_sgr DS 16 (set_gpr EAX ((gpr m EAX AND 0xFFFF0000) OR 16) ?f))"
  let ?m2 = "pushed_word (?sp - 56) ?m1"
  have r: "run (vector_code i @ alltraps_code) m = Inr ?m2" by (rule entry_run [OF stack_aligned [OF s(1)]])
  have "stack ?f (rev (frame_pushes i m) @ ws)" by (rule stack_pushes [OF s(1)]) (use s(2) in \<open>simp add: frame_pushes_def\<close>)
  then have s2: "stack ?m2 ((?sp - 56) # rev (frame_pushes i m) @ ws)"
    by (intro stack_push) (use s(2) in \<open>simp_all add: stack_set frame_pushes_def\<close>)
  obtain m3 where m3: "h ?m2 = Inr m3" "stack m3 ((?sp - 56) # rev (frame_pushes i m) @ ws)" "gpr m3 ESP = gpr ?m2 ESP" "sgr m3 = sgr ?m2"
    by (rule keeps_frameD [OF h s2]) (use s(2) in \<open>simp_all add: frame_pushes_def\<close>)
  let ?m5 = "set_gpr ESP (gpr m3 ESP + 4) m3"
  have "stack ?m5 (rev (frame_pushes i m) @ ws)" by (rule stack_pop [OF m3(2)])
  then have s5: "stack ?m5 (gpr m EDI # gpr m ESI # gpr m EBP # (?sp - 24) # gpr m EBX # gpr m EDX # gpr m ECX # gpr m EAX #
     ucast (sgr m GS) # ucast (sgr m FS) # ucast (sgr m ES) # ucast (sgr m DS) # of_nat i # 0 # ws)"
    by (simp add: frame_pushes_def)
  define m4 where "m4 = ?m5\<lparr>gpr := (gpr ?m5)(EDI := gpr m EDI, ESI := gpr m ESI, EBP := gpr m EBP, EBX := gpr m EBX,
      EDX := gpr m EDX, ECX := gpr m ECX, EAX := gpr m EAX, ESP := gpr ?m5 ESP + 56),
    sgr := (sgr ?m5)(GS := ucast (ucast (sgr m GS) :: u32), FS := ucast (ucast (sgr m FS) :: u32),
      ES := ucast (ucast (sgr m ES) :: u32), DS := ucast (ucast (sgr m DS) :: u32))\<rparr>"
  note ex = exit_run [OF s5, folded m4_def]
  have esp: "gpr m3 ESP = ?sp - 60" and seg: "sgr m3 = (sgr m)(DS := 16, ES := 16)"
    using m3(3,4) by (simp_all add: frame_pushes_def fun_eq_iff)
  have "gpr m4 r = gpr m r" for r by (cases r) (simp_all add: m4_def esp)
  moreover have "sgr m4 r = sgr m r" for r by (cases r) (simp_all add: m4_def seg)
  moreover have "run ([AddEsp 4] @ trapret_code) m3 = rbind (run (butlast trapret_code) ?m5) iret"
    by (simp add: trapret_code_def rbind_def split: sum.splits)
  ultimately show ?thesis using r m3(1) ex by (intro exI [of _ m4]) (simp add: fun_eq_iff)
qed

lemma interrupt_eq:
  fixes m i err esp0 ss0 sel off
  defines "user \<equiv> rpl (sgr m CS) \<noteq> 0"
  assumes al: "aligned4 (if user then esp0 else gpr m ESP)"
  obtains m1 where "interrupt i err esp0 ss0 sel off m = Inr m1"
    "stack m1 ((if hw_error_code i then [err] else []) @ [eip m, ucast (sgr m CS), flags m] @ (if user then [gpr m ESP, ucast (sgr m SS)] else []))"
    "gpr m1 = (gpr m)(ESP := gpr m1 ESP)" "sgr m1 = (sgr m)(SS := if user then ss0 else sgr m SS, CS := sel)"
    "\<not> user \<longrightarrow> \<not> hw_error_code i \<longrightarrow> gpr m1 ESP = gpr m ESP - 12"
proof -
  let ?m0 = "if user then set_sgr SS ss0 (set_gpr ESP esp0 m) else m"
  let ?ws = "(if user then [ucast (sgr m SS), gpr m ESP] else []) @ [flags m, ucast (sgr m CS), eip m] @ (if hw_error_code i then [err] else [])"
  let ?f = "fold pushed_word ?ws ?m0"
  let ?m1 = "set_sgr CS sel (?f\<lparr>eip := off, flags := flags ?f AND NOT 0x200\<rparr>)"
  have a: "aligned4 (gpr ?m0 ESP)" using al by auto
  have "interrupt i err esp0 ss0 sel off m = Inr ?m1"
    using pushes_eq [OF a, of ?ws] by (simp add: interrupt_def user_def Let_def)
  moreover have "stack ?f (rev ?ws)" using stack_pushes [of ?m0 "[]" ?ws] a by (simp add: stack_def)
  then have "stack ?m1 (rev ?ws)" by (simp only: stack_set)
  moreover have "gpr ?m1 r = ((gpr m)(ESP := gpr ?m1 ESP)) r" for r by (cases "r = ESP") simp_all
  moreover have "sgr ?m1 r = ((sgr m)(SS := if user then ss0 else sgr m SS, CS := sel)) r" for r by (cases r) simp_all
  moreover have "\<not> user \<Longrightarrow> \<not> hw_error_code i \<Longrightarrow> gpr ?m1 ESP = gpr m ESP - 12" by simp
  ultimately show thesis by (intro that [of ?m1]) (auto simp: fun_eq_iff)
qed

lemma take_trap_body:
  assumes "keeps_frame h" "interrupt i err esp0 ss0 sel off m = Inr m1" "stack m1 ws" "length ws < 40"
  shows "\<exists>m4. take_trap h i err esp0 ss0 sel off m = iret m4 \<and> gpr m4 = gpr m1 \<and> sgr m4 = sgr m1 \<and> stack m4 ws"
  using trap_body [OF assms(1,3,4), of i] unfolding take_trap_def assms(2) rbind_simps .

lemma iret_eip: "stack m (ip # ws) \<Longrightarrow> \<exists>m'. iret m = Inr m' \<and> eip m' = ip"
  by (simp add: iret_def ld_def pop_def stack_def Let_def)

section \<open>Properties\<close>

text \<open>C10. A trap is transparent. For every vector for which the processor pushes no error code,
  whether the processor was in user or in kernel mode: the stub, \<^verbatim>\<open>alltraps\<close>, a call of any function that
  keeps to the calling convention and \<^verbatim>\<open>trapret\<close> bring back every general and segment register, the
  instruction pointer, the flags and the stack pointer.\<close>

theorem trap_transparent:
  assumes "keeps_frame h" "\<not> hw_error_code i" "rpl sel = 0"
    and "aligned4 (if rpl (sgr m CS) \<noteq> 0 then esp0 else gpr m ESP)"
  shows "\<exists>m'. take_trap h i err esp0 ss0 sel off m = Inr m' \<and>
    gpr m' = gpr m \<and> sgr m' = sgr m \<and> eip m' = eip m \<and> flags m' = flags m"
proof -
  let ?user = "rpl (sgr m CS) \<noteq> 0"
  obtain m1 where m1: "interrupt i err esp0 ss0 sel off m = Inr m1"
    "stack m1 ((if hw_error_code i then [err] else []) @ [eip m, ucast (sgr m CS), flags m] @ (if ?user then [gpr m ESP, ucast (sgr m SS)] else []))"
    "gpr m1 = (gpr m)(ESP := gpr m1 ESP)" "sgr m1 = (sgr m)(SS := if ?user then ss0 else sgr m SS, CS := sel)"
    "\<not> ?user \<longrightarrow> \<not> hw_error_code i \<longrightarrow> gpr m1 ESP = gpr m ESP - 12"
    using interrupt_eq [OF assms(4), of i err ss0 sel off] .
  obtain m4 where m4: "take_trap h i err esp0 ss0 sel off m = iret m4" "gpr m4 = gpr m1" "sgr m4 = sgr m1"
    "stack m4 (eip m # ucast (sgr m CS) # flags m # (if ?user then [gpr m ESP, ucast (sgr m SS)] else []))"
    using take_trap_body [OF assms(1) m1(1,2)] assms(2) by (cases ?user) auto
  show ?thesis
  proof (cases ?user)
    case True
    then have "rpl (sgr m4 CS) < rpl (sgr m CS)" using assms(3) m1(4) m4(3) by (simp add: word_gt_0)
    then have "iret m4 = Inr (m4\<lparr>eip := eip m, flags := flags m, gpr := (gpr m4)(ESP := gpr m ESP), sgr := (sgr m4)(CS := sgr m CS, SS := sgr m SS)\<rparr>)"
      using iret_outer [of m4 "eip m" "sgr m CS" "flags m" "gpr m ESP" "sgr m SS" "[]"] m4(4) True by simp
    then show ?thesis
      using m4(1-3) m1(4) by (subst (asm) m1(3)) (auto simp: fun_eq_iff)
  next
    case False
    then have "iret m4 = Inr (m4\<lparr>gpr := (gpr m4)(ESP := gpr m4 ESP + 12), eip := eip m, flags := flags m, sgr := (sgr m4)(CS := sgr m CS)\<rparr>)"
      using iret_inner [of m4 "eip m" "sgr m CS" "flags m" "[]"] m4(4) by simp
    then show ?thesis
      using False assms(2) m4(1-3) m1(4,5) by (subst (asm) m1(3)) (auto simp: fun_eq_iff)
  qed
qed

definition trap_demo :: mach where
  "trap_demo = \<lparr>gpr = (\<lambda>r. if r = ESP then 0x1000 else 5), sgr = (\<lambda>r. if r = CS then 0x1B else 0x23), eip = 0x40,
     flags = 0x202, dmem = (\<lambda>_. 0)\<rparr>"

lemma keeps_frame_clobber: "keeps_frame (\<lambda>m. Ok (set_gpr EAX 1 (set_gpr ECX 2 (m\<lparr>flags := 0x46\<rparr>))))"
  by (simp add: keeps_frame_def stack_set)

theorem trap_transparent_witness:
  "\<exists>m'. take_trap (\<lambda>m. Ok (set_gpr EAX 1 (set_gpr ECX 2 (m\<lparr>flags := 0x46\<rparr>)))) 32 0 0x80400000 0x10 8 0x80101000 trap_demo = Inr m'
     \<and> gpr m' EAX = 5 \<and> gpr m' ESP = 0x1000 \<and> eip m' = 0x40"
  using trap_transparent [OF keeps_frame_clobber, of 32 8 trap_demo "0x80400000" 0 "0x10" "0x80101000"]
  by (auto simp: hw_error_code_def rpl_def trap_demo_def)

text \<open>C23. The stubs push their zero also for the exceptions for which the processor has already pushed an
  error code (double fault, page fault, general protection and others). Returning from those never
  resumes the interrupted program: \<^verbatim>\<open>trapret\<close> drops only two words, and \<^verbatim>\<open>iret\<close> loads the error code as
  the instruction pointer.\<close>

theorem trap_error_code_return:
  assumes "keeps_frame h" "hw_error_code i"
    and "aligned4 (if rpl (sgr m CS) \<noteq> 0 then esp0 else gpr m ESP)"
  shows "\<exists>m'. take_trap h i err esp0 ss0 sel off m = Inr m' \<and> eip m' = err"
proof -
  let ?user = "rpl (sgr m CS) \<noteq> 0"
  obtain m1 where m1: "interrupt i err esp0 ss0 sel off m = Inr m1"
    "stack m1 ((if hw_error_code i then [err] else []) @ [eip m, ucast (sgr m CS), flags m] @ (if ?user then [gpr m ESP, ucast (sgr m SS)] else []))"
    using interrupt_eq [OF assms(3), of i err ss0 sel off] .
  obtain m4 ws where "take_trap h i err esp0 ss0 sel off m = iret m4" "stack m4 (err # ws)"
    using take_trap_body [OF assms(1) m1] assms(2) by (cases ?user) auto
  then show ?thesis using iret_eip by auto
qed

theorem trap_error_code_return_witness:
  "\<exists>m'. take_trap (\<lambda>m. Ok (set_gpr EAX 1 (set_gpr ECX 2 (m\<lparr>flags := 0x46\<rparr>)))) 14 6 0x80400000 0x10 8 0x80101000 trap_demo = Inr m'
     \<and> eip m' = 6"
  using trap_error_code_return [OF keeps_frame_clobber, of 14 trap_demo "0x80400000" 6 "0x10" 8 "0x80101000"]
  by (auto simp: hw_error_code_def trap_demo_def)

end
