(* ===== verification/Process.thy ===== *)
theory Process
  imports Locks Paging Context_Switch Traps "HOL-Library.Multiset"
begin

text \<open>
  Processes and scheduling: \<^verbatim>\<open>Process\<close>, \<^verbatim>\<open>ProcessTable\<close>, \<^verbatim>\<open>sleep\<close>, \<^verbatim>\<open>wakeup\<close>, \<^verbatim>\<open>sched\<close>, \<^verbatim>\<open>scheduler\<close> and
  \<^verbatim>\<open>forkret\<close> of \<^verbatim>\<open>kernel/src/proc.rs\<close> and \<^verbatim>\<open>uvm::switch\<close> of \<^verbatim>\<open>kernel/src/vm.rs\<close>. A process is the value
  behind a reference-counted pointer whose address is also that of its spin lock. The allocator is a
  parameter; locking its own spin lock is left out, as is the printing of messages.
\<close>

section \<open>State\<close>

datatype ProcessState = Unused | Embryo | Sleeping | Runnable | Running | Zombie

record Process =
  pstate :: ProcessState
  psize :: usize
  ppg_dir :: usize
  kernel_stack :: usize
  pid :: u32
  trap_frame :: usize
  pcontext :: usize
  cwd :: "usize option"
  pname :: "u8 list"

record ProcessTable =
  sleeping :: "usize \<rightharpoonup> procref list"
  runnable :: "procref list"
  initproc :: "procref option"
  next_pid :: u32

text \<open>
  The kernel state with the processes: the address of the lock of \<^verbatim>\<open>PROC_TABLE\<close>, the page directories
  by address, the kernel memory in double words, and the registers CR3 and TR of each processor.
\<close>

record 'h pst = kst +
  procs :: "procref \<rightharpoonup> Process"
  ptable :: ProcessTable
  pt_lock :: usize
  kvm :: "'h vm"
  dirs :: "usize \<rightharpoonup> u32 list"
  kmem :: "u32 \<Rightarrow> u32"
  cr3 :: "u8 \<Rightarrow> u32"
  task_reg :: "u8 \<Rightarrow> u16"

text \<open>The global allocator: a page, a process with its reference counts, and freeing a page.\<close>

record 'h galloc =
  ga_page :: "'h page_alloc"
  ga_arc :: "'h page_alloc"
  ga_free :: "usize \<Rightarrow> 'h \<Rightarrow> 'h"

definition ProcessTable_new :: ProcessTable where
  "ProcessTable_new = \<lparr>sleeping = Map.empty, runnable = [], initproc = None, next_pid = 1\<rparr>"

definition is_valid :: "Process \<Rightarrow> bool" where
  "is_valid p \<longleftrightarrow> kernel_stack p \<noteq> 0"

definition deref_proc :: "procref \<Rightarrow> 'h pst \<Rightarrow> Process res" where
  "deref_proc r s = (case procs s r of None \<Rightarrow> Fail (Undefined ''no process here'') | Some p \<Rightarrow> Ok p)"

definition update_proc :: "procref \<Rightarrow> (Process \<Rightarrow> Process) \<Rightarrow> 'h pst \<Rightarrow> (unit \<times> 'h pst) res" where
  "update_proc r f s = rbind (deref_proc r s) (\<lambda>p. Ok ((), s\<lparr>procs := (procs s)(r \<mapsto> f p)\<rparr>))"

section \<open>The process table\<close>

definition put :: "procref \<Rightarrow> ProcessTable \<Rightarrow> ProcessTable" where
  "put p t = t\<lparr>runnable := runnable t @ [p]\<rparr>"

definition get_runnable :: "ProcessTable \<Rightarrow> procref option \<times> ProcessTable" where
  "get_runnable t = (case runnable t of [] \<Rightarrow> (None, t) | p # ps \<Rightarrow> (Some p, t\<lparr>runnable := ps\<rparr>))"

definition take_next_pid :: "ProcessTable \<Rightarrow> (u32 \<times> ProcessTable) res" where
  "take_next_pid t = rbind (checked_add (next_pid t) 1) (\<lambda>n. Ok (next_pid t, t\<lparr>next_pid := n\<rparr>))"

definition table_sleep :: "usize \<Rightarrow> procref \<Rightarrow> ProcessTable \<Rightarrow> ProcessTable" where
  "table_sleep chan p t = (let t1 = (if sleeping t chan = None then t\<lparr>sleeping := (sleeping t)(chan \<mapsto> [])\<rparr> else t) in
     t1\<lparr>sleeping := (sleeping t1)(chan := map_option (\<lambda>ps. ps @ [p]) (sleeping t1 chan))\<rparr>)"

fun wake_all :: "u8 \<Rightarrow> procref list \<Rightarrow> 'h pst \<Rightarrow> (unit \<times> 'h pst) res" where
  "wake_all me [] s = Ok ((), s)"
| "wake_all me (p # ps) s =
     rbind (with_lock me p (update_proc p (\<lambda>q. q\<lparr>pstate := Runnable\<rparr>)) s) (\<lambda>(_, s1).
       wake_all me ps (s1\<lparr>ptable := put p (ptable s1)\<rparr>))"

definition table_wakeup :: "u8 \<Rightarrow> usize \<Rightarrow> 'h pst \<Rightarrow> (unit \<times> 'h pst) res" where
  "table_wakeup me chan s = (case sleeping (ptable s) chan of None \<Rightarrow> Ok ((), s)
     | Some ps \<Rightarrow> wake_all me ps (s\<lparr>ptable := (ptable s)\<lparr>sleeping := (sleeping (ptable s))(chan := None)\<rparr>\<rparr>))"

section \<open>Creating processes\<close>

definition store_words :: "u32 \<Rightarrow> u32 list \<Rightarrow> (u32 \<Rightarrow> u32) \<Rightarrow> u32 \<Rightarrow> u32" where
  "store_words a ws mem = fold (\<lambda>k m. m(a + 4 * of_nat k := ws ! k)) [0..<length ws] mem"

definition trap_frame_zero :: TrapFrame where
  "trap_frame_zero = \<lparr>tf_edi = 0, tf_esi = 0, tf_ebp = 0, tf_orig_esp = 0, tf_ebx = 0, tf_edx = 0, tf_ecx = 0, tf_eax = 0,
     tf_gs = 0, tf_fs = 0, tf_es = 0, tf_ds = 0, tf_trap_no = 0, tf_err = 0, tf_eip = 0, tf_cs = 0, tf_eflags = 0,
     tf_esp = 0, tf_ss = 0\<rparr>"

text \<open>\<^verbatim>\<open>Process::new\<close> also allocates an empty page directory. Its own fields, with the directory at \<open>dir\<close>:\<close>

definition Process_new :: "usize \<Rightarrow> Process" where
  "Process_new dir = \<lparr>pstate = Unused, psize = 0, ppg_dir = dir, kernel_stack = 0, pid = 0xFFFFFFFF, trap_frame = 0,
     pcontext = 0, cwd = None, pname = replicate 16 0\<rparr>"

text \<open>
  \<open>trapret\<close> and \<open>forkret\<close> are the addresses of those functions; a trap frame has 76 bytes, a function
  pointer 4 and a context 20.
\<close>

definition alloc_proc :: "'h galloc \<Rightarrow> u32 \<Rightarrow> u32 \<Rightarrow> 'h pst \<Rightarrow> (procref \<times> 'h pst) res" where
  "alloc_proc ga trapret forkret s =
     rbind (page_directory_zero_boxed (ga_page ga) (kvm s)) (\<lambda>vm1.
     let p0 = (Process_new (dir_addr vm1))\<lparr>pstate := Embryo\<rparr>; ds = (dirs s)(dir_addr vm1 \<mapsto> pg_dir vm1) in
     rbind (take_next_pid (ptable s)) (\<lambda>(n, t).
     rbind (kalloc (ga_page ga) vm1) (\<lambda>(page, vm2).
     rbind (rexpect page ''called Option::unwrap() on a None value'') (\<lambda>stk.
     let sp1 = stk + KSTACKSIZE - 76; sp2 = sp1 - 4; sp3 = sp2 - 20;
         mem = store_words sp3 (context_words (Context_zero\<lparr>ctx_eip := forkret\<rparr>))
           (store_words sp2 [trapret] (store_words sp1 (trap_frame_words trap_frame_zero) (kmem s)));
         p = p0\<lparr>pid := n, kernel_stack := stk, trap_frame := sp1, pcontext := sp3\<rparr> in
     case ga_arc ga (heap vm2) of None \<Rightarrow> Fail (Panic ''called Result::unwrap() on an Err value'')
     | Some (r, h) \<Rightarrow> Ok (r, s\<lparr>spin := (spin s)(r := SpinLock_new ''process''), procs := (procs s)(r \<mapsto> p), ptable := t,
          kvm := vm2\<lparr>heap := h\<rparr>, dirs := ds, kmem := mem\<rparr>)))))"

definition user_frame :: TrapFrame where
  "user_frame = trap_frame_zero\<lparr>tf_cs := of_nat (SEG_UCODE * 8) OR ucast DPL_USER, tf_ds := of_nat (SEG_UDATA * 8) OR ucast DPL_USER,
     tf_es := of_nat (SEG_UDATA * 8) OR ucast DPL_USER, tf_ss := of_nat (SEG_UDATA * 8) OR ucast DPL_USER,
     tf_eflags := FL_IF, tf_esp := PAGE_SIZE, tf_eip := 0\<rparr>"

text \<open>
  The body of \<^verbatim>\<open>user_init\<close> under the lock of the new process. The trap frame it writes through the
  pointer is still zero, so that it is written as a whole here. Assigning the page directory frees the
  empty one. \<open>root\<close> is the result of \<^verbatim>\<open>inode::from_name("/")\<close>, which works on the inode cache of theory \<open>Inode\<close> and not on this state, and
  \<open>data\<close> the linker symbol of \<^verbatim>\<open>setup_kvm\<close>.
\<close>

definition fill_init :: "'h galloc \<Rightarrow> usize \<Rightarrow> u8 list \<Rightarrow> usize option \<Rightarrow> procref \<Rightarrow> 'h pst \<Rightarrow> (unit \<times> 'h pst) res" where
  "fill_init ga data code root r s =
     rbind (deref_proc r s) (\<lambda>p.
     rbind (setup_kvm (ga_page ga) data (kvm s)) (\<lambda>v.
     rbind (rexpect v ''user_init: out of memory'') (\<lambda>vm1.
     let vm2 = vm1\<lparr>heap := ga_free ga (ppg_dir p) (heap vm1)\<rparr> in
     rbind (uvm_init (ga_page ga) vm2 code) (\<lambda>vm3.
     let q = p\<lparr>ppg_dir := dir_addr vm3, psize := PAGE_SIZE, pname := [0x69, 0x6E, 0x69, 0x74, 0] @ drop 5 (pname p),
           cwd := root, pstate := Runnable\<rparr> in
       Ok ((), s\<lparr>procs := (procs s)(r \<mapsto> q), kvm := vm3, dirs := ((dirs s)(ppg_dir p := None))(dir_addr vm3 \<mapsto> pg_dir vm3),
           kmem := store_words (trap_frame p) (trap_frame_words user_frame) (kmem s)\<rparr>)))))"

definition table_user_init :: "u8 \<Rightarrow> 'h galloc \<Rightarrow> u32 \<Rightarrow> u32 \<Rightarrow> usize \<Rightarrow> u8 list \<Rightarrow> usize option \<Rightarrow> 'h pst \<Rightarrow> (unit \<times> 'h pst) res" where
  "table_user_init me ga trapret forkret data code root s =
     rbind (alloc_proc ga trapret forkret s) (\<lambda>(r, s1).
     rbind (with_lock me r (fill_init ga data code root r) s1) (\<lambda>(_, s2).
       Ok ((), s2\<lparr>ptable := put r ((ptable s2)\<lparr>initproc := Some r\<rparr>)\<rparr>)))"

definition user_init :: "u8 \<Rightarrow> 'h galloc \<Rightarrow> u32 \<Rightarrow> u32 \<Rightarrow> usize \<Rightarrow> u8 list \<Rightarrow> usize option \<Rightarrow> 'h pst \<Rightarrow> (unit \<times> 'h pst) res" where
  "user_init me ga trapret forkret data code root s =
     with_lock me (pt_lock s) (table_user_init me ga trapret forkret data code root) s"

section \<open>Scheduling\<close>

definition my_proc :: "u8 \<Rightarrow> 'b kst_scheme \<Rightarrow> (procref \<times> 'b kst_scheme) res" where
  "my_proc me s = cli me (with_cpu me (\<lambda>cpu.
     rbind (rexpect (current_proc cpu) ''called Option::unwrap() on a None value'') (\<lambda>p. Ok (p, cpu)))) s"

definition wakeup :: "u8 \<Rightarrow> usize \<Rightarrow> 'h pst \<Rightarrow> (unit \<times> 'h pst) res" where
  "wakeup me chan s = with_lock me (pt_lock s) (table_wakeup me chan) s"

text \<open>
  \<^verbatim>\<open>sched\<close> up to its call of \<^verbatim>\<open>switch\<close>, which it enters with the lock of the process held, and from the
  return of \<^verbatim>\<open>switch\<close>. The result of the first part is the saved interrupt flag, the process whose
  context field is the first argument and the second argument.
\<close>

definition sched_enter :: "u8 \<Rightarrow> 'h pst \<Rightarrow> ((bool \<times> procref \<times> usize) \<times> 'h pst) res" where
  "sched_enter me s =
     rbind (my_proc me s) (\<lambda>(p, s1).
     rbind (with_lock me p (\<lambda>t. rbind (deref_proc p t) (\<lambda>q. Ok (pstate q \<noteq> Running, t))) s1) (\<lambda>(stopped, s2).
     rbind (rassert stopped ''sched: running'') (\<lambda>_.
     rbind (with_cpu me (\<lambda>cpu. Ok (num_cli cpu, cpu)) s2) (\<lambda>(n, s3).
     rbind (rassert (n = 1) ''sched: locks'') (\<lambda>_.
     rbind (rassert (eflags s3 me AND FL_IF = 0) ''sched: interruptible'') (\<lambda>_.
     rbind (with_cpu me (\<lambda>cpu. Ok (int_enabled cpu, cpu)) s3) (\<lambda>(ena, s4).
     rbind (with_cpu me (\<lambda>cpu. Ok (scheduler cpu, cpu)) s4) (\<lambda>(ctx, s5).
     rbind (acquire me p s5) (\<lambda>s6. Ok ((ena, p, ctx), s6))))))))))"

definition sched_leave :: "u8 \<Rightarrow> bool \<Rightarrow> procref \<Rightarrow> 'h pst \<Rightarrow> (unit \<times> 'h pst) res" where
  "sched_leave me ena p s =
     rbind (release me p s) (\<lambda>s1. with_cpu me (\<lambda>cpu. Ok ((), cpu\<lparr>int_enabled := ena\<rparr>)) s1)"

text \<open>\<^verbatim>\<open>sleep\<close> with a guard of the lock \<open>lk\<close>, up to the switch and from its return.\<close>

definition sleep_enter :: "u8 \<Rightarrow> usize \<Rightarrow> usize \<Rightarrow> 'h pst \<Rightarrow> ((bool \<times> procref \<times> usize) \<times> 'h pst) res" where
  "sleep_enter me chan lk s =
     rbind (my_proc me s) (\<lambda>(p, s1).
     rbind (with_lock me (pt_lock s1) (\<lambda>t. Ok ((), t\<lparr>ptable := table_sleep chan p (ptable t)\<rparr>)) s1) (\<lambda>(_, s2).
     rbind (force_unlocked me lk s2) (\<lambda>s3. sched_enter me s3)))"

definition sleep_leave :: "u8 \<Rightarrow> bool \<Rightarrow> procref \<Rightarrow> usize \<Rightarrow> 'h pst \<Rightarrow> 'h pst res" where
  "sleep_leave me ena p lk s = rbind (sched_leave me ena p s) (\<lambda>(_, s1). force_locked me lk s1)"

text \<open>\<^verbatim>\<open>uvm::switch\<close>; \<open>ts_addr\<close> is the address of the task state of this processor, which has 104 bytes.\<close>

definition tss_update :: "usize \<Rightarrow> Process \<Rightarrow> Cpu \<Rightarrow> Cpu" where
  "tss_update ts_addr p cpu = cpu\<lparr>gdt := (gdt cpu)[SEG_TSS := seg_tss STS_T32A ts_addr (104 - 1) 0],
     task_state := (task_state cpu)\<lparr>ts_ss0 := of_nat SEG_KDATA * 8, ts_esp0 := kernel_stack p + KSTACKSIZE, ts_iomb := 0xFFFF\<rparr>\<rparr>"

definition load_task :: "u8 \<Rightarrow> usize \<Rightarrow> Process \<Rightarrow> 'h pst \<Rightarrow> (unit \<times> 'h pst) res" where
  "load_task me ts_addr p s =
     rbind (with_cpu me (\<lambda>cpu. Ok ((), tss_update ts_addr p cpu)) s) (\<lambda>(_, s1).
     rbind (v2p (ppg_dir p)) (\<lambda>pa.
       Ok ((), s1\<lparr>task_reg := (task_reg s1)(me := of_nat SEG_TSS * 8), cr3 := (cr3 s1)(me := pa)\<rparr>)))"

definition uvm_switch_locked :: "u8 \<Rightarrow> usize \<Rightarrow> procref \<Rightarrow> 'h pst \<Rightarrow> (unit \<times> 'h pst) res" where
  "uvm_switch_locked me ts_addr r s =
     rbind (deref_proc r s) (\<lambda>p.
     rbind (rassert (is_valid p) ''switch_uvm: no process'') (\<lambda>_. cli me (load_task me ts_addr p) s))"

definition uvm_switch :: "u8 \<Rightarrow> usize \<Rightarrow> procref \<Rightarrow> 'h pst \<Rightarrow> (unit \<times> 'h pst) res" where
  "uvm_switch me ts_addr r s = with_lock me r (uvm_switch_locked me ts_addr r) s"

definition switch_kvm :: "u8 \<Rightarrow> usize \<Rightarrow> 'h pst \<Rightarrow> 'h pst res" where
  "switch_kvm me kpg_dir s = rbind (v2p kpg_dir) (\<lambda>pa. Ok (s\<lparr>cr3 := (cr3 s)(me := pa)\<rparr>))"

definition set_current :: "u8 \<Rightarrow> procref option \<Rightarrow> 'b kst_scheme \<Rightarrow> (unit \<times> 'b kst_scheme) res" where
  "set_current me p s = cli me (with_cpu me (\<lambda>cpu. Ok ((), cpu\<lparr>current_proc := p\<rparr>))) s"

text \<open>
  One round of the loop of \<^verbatim>\<open>scheduler\<close> up to its call of \<^verbatim>\<open>switch\<close>, and from its return. The guard of the
  process table is a temporary of the condition of \<^verbatim>\<open>if let\<close> and lives until the end of its body, and
  that of the process until the end of the statement with \<^verbatim>\<open>switch\<close>: both locks are held across it.
\<close>

definition scheduler_enter :: "u8 \<Rightarrow> usize \<Rightarrow> 'h pst \<Rightarrow> ((procref \<times> usize) option \<times> 'h pst) res" where
  "scheduler_enter me ts_addr s =
     rbind (set_current me None s) (\<lambda>(_, s1).
     rbind (acquire me (pt_lock s1) s1) (\<lambda>s2.
     case get_runnable (ptable s2) of
       (None, t) \<Rightarrow> rbind (release me (pt_lock s2) s2) (\<lambda>s3. Ok (None, s3))
     | (Some p, t) \<Rightarrow>
         rbind (set_current me (Some p) (s2\<lparr>ptable := t\<rparr>)) (\<lambda>(_, s3).
         rbind (uvm_switch me ts_addr p s3) (\<lambda>(_, s4).
         rbind (with_lock me p (update_proc p (\<lambda>q. q\<lparr>pstate := Running\<rparr>)) s4) (\<lambda>(_, s5).
         rbind (cli me (with_cpu me (\<lambda>cpu. Ok ((), cpu))) s5) (\<lambda>(_, s6).
         rbind (acquire me p s6) (\<lambda>s7.
         rbind (deref_proc p s7) (\<lambda>q. Ok (Some (p, pcontext q), s7)))))))))"

definition scheduler_leave :: "u8 \<Rightarrow> usize \<Rightarrow> procref \<Rightarrow> 'h pst \<Rightarrow> 'h pst res" where
  "scheduler_leave me kpg_dir p s =
     rbind (release me p s) (\<lambda>s1. rbind (switch_kvm me kpg_dir s1) (\<lambda>s2. release me (pt_lock s2) s2))"

text \<open>
  \<^verbatim>\<open>forkret\<close> as a function of the flag \<^verbatim>\<open>FIRST_TIME\<close> and the machine: what it does the first time is not
  written yet; afterwards it returns, with any values in the registers a function may change.
\<close>

definition forkret :: "bool \<Rightarrow> u32 \<times> u32 \<times> u32 \<Rightarrow> mach \<Rightarrow> (bool \<times> mach) res" where
  "forkret first_time junk m = (if first_time then Fail Todo
     else case junk of (a, c, d) \<Rightarrow>
       rbind (exec Ret (set_gpr EAX a (set_gpr ECX c (set_gpr EDX d m)))) (\<lambda>m1. Ok (False, m1)))"

end
