(* ===== verification/Scheduling.thy ===== *)
theory Scheduling
  imports Process
begin

text \<open>
  What the scheduler does: dispatching, waking and sleeping, and the run queue as a fair queue.
\<close>

section \<open>Processor-local operations\<close>

text \<open>The state after \<^verbatim>\<open>pop_cli\<close>.\<close>

definition popped :: "u8 \<Rightarrow> nat \<Rightarrow> 'b kst_scheme \<Rightarrow> 'b kst_scheme" where
  "popped me i t = (let c = priv t i; u = set_priv i (c\<lparr>num_cli := num_cli c - 1\<rparr>) t in
     if num_cli c = 1 \<and> int_enabled c then x86_sti me u else u)"

lemma pop_cli_popped:
  assumes "cpu_at t me i" "\<not> ints_on t me" "0 < num_cli (priv t i)" "num_cli (priv t i) < 2 ^ 31"
  shows "pop_cli me t = Inr (popped me i t)"
  using assms
  by (simp add: pop_cli_def ints_on_def [symmetric] with_cpu_eq [of t me i] checked_i32_def i32_range_def popped_def Let_def)

lemma popped_sel [simp]:
  "lapic (popped me i t) = lapic t" "n_cpu (popped me i t) = n_cpu t" "spin (popped me i t) = spin t"
  "cpu_at (popped me i t) you j = cpu_at t you j" "kst.more (popped me i t) = kst.more t"
  by (simp_all add: popped_def Let_def) (simp_all add: set_priv_def x86_sti_def)

lemma priv_popped:
  "cpu_at t me i \<Longrightarrow> priv (popped me i t) i = (priv t i)\<lparr>num_cli := num_cli (priv t i) - 1\<rparr>"
  by (simp add: popped_def Let_def priv_set_priv)

lemma ints_on_popped:
  "ints_on (popped me i t) me \<longleftrightarrow> ints_on t me \<or> num_cli (priv t i) = 1 \<and> int_enabled (priv t i)"
  by (auto simp: popped_def Let_def)

text \<open>An update of the processor's own record inside \<^verbatim>\<open>cli\<close> that leaves the nesting alone.\<close>

lemma popped_set:
  assumes room: "cli_room 1 s me i"
    and g: "\<And>c n. g (c\<lparr>num_cli := n\<rparr>) = (g c)\<lparr>num_cli := n\<rparr>" "\<And>c. int_enabled (g c) = int_enabled c"
  defines "t \<equiv> set_priv i (g (priv (pushed me i s) i)) (pushed me i s)"
  shows "popped me i t = set_priv i (g (saved me i s)) s" "num_cli (priv t i) = num_cli (priv s i) + 1"
proof -
  have ok: "cli_ok s me i" "cpu_at s me i" using cli_roomD(1) [OF room] cli_okD(1) by blast+
  let ?n = "num_cli (priv s i)" and ?u = "set_priv i (g (saved me i s)) s"
  have tv: "priv t i = (g (saved me i s))\<lparr>num_cli := ?n + 1\<rparr>"
    using ok(2) by (simp add: t_def priv_set_priv priv_pushed g(1))
  then show "num_cli (priv t i) = num_cli (priv s i) + 1" by simp
  have "(g (saved me i s))\<lparr>num_cli := ?n\<rparr> = g (saved me i s)"
    using g(1) [of ?n "saved me i s"] by (simp add: saved_def)
  then have u: "set_priv i ((priv t i)\<lparr>num_cli := num_cli (priv t i) - 1\<rparr>) t = x86_cli me ?u"
    unfolding tv by (simp add: t_def pushed_def set_priv_eflags)
  have ie: "int_enabled (priv t i) = (if ?n = 0 then ints_on s me else int_enabled (priv s i))"
    by (simp add: tv g(2) saved_def)
  show "popped me i t = ?u"
  proof (cases "ints_on s me")
    case True
    then have "?n = 0" using cli_okD(2,3) [OF ok(1)] by fastforce
    then show ?thesis using True u ie sti_cli [of ?u me] by (simp add: popped_def Let_def tv)
  next
    case False
    then show ?thesis using u ie cli_okD(2) [OF ok(1)] cli_idle [of ?u me] by (simp add: popped_def Let_def tv)
  qed
qed

lemma cli_body:
  assumes "cli_room 1 s me i" "f (pushed me i s) = Inr (r, t)" "cpu_at t me i" "\<not> ints_on t me"
    and "num_cli (priv t i) = num_cli (priv s i) + 1"
  shows "cli me f s = Inr (r, popped me i t)"
proof -
  have "0 \<le> num_cli (priv s i)" "num_cli (priv s i) + 1 < 2 ^ 31"
    using assms(1) by (auto simp: cli_room_def cli_ok_def)
  then have "pop_cli me t = Inr (popped me i t)" by (intro pop_cli_popped) (use assms(3,4,5) in auto)
  then show ?thesis using push_cli_eq [OF assms(1)] assms(2) by (simp add: cli_def)
qed

lemma cli_cpu_eq:
  assumes room: "cli_room 1 s me i"
    and g: "\<And>c n. g (c\<lparr>num_cli := n\<rparr>) = (g c)\<lparr>num_cli := n\<rparr>" "\<And>c. int_enabled (g c) = int_enabled c"
  shows "cli me (with_cpu me (\<lambda>c. Ok (r, g c))) s = Inr (r, set_priv i (g (saved me i s)) s)"
proof -
  have at: "cpu_at s me i" using cli_roomD(1) [OF room] cli_okD(1) by blast
  let ?t = "set_priv i (g (priv (pushed me i s) i)) (pushed me i s)"
  have "with_cpu me (\<lambda>c. Ok (r, g c)) (pushed me i s) = Inr (r, ?t)"
    using at by (simp add: with_cpu_eq [of "pushed me i s" me i])
  then have "cli me (with_cpu me (\<lambda>c. Ok (r, g c))) s = Inr (r, popped me i ?t)"
    by (rule cli_body [OF room]) (use at popped_set(2) [of s me i g, OF room g] in auto)
  then show ?thesis using popped_set(1) [of s me i g, OF room g] by simp
qed

text \<open>Which processors there are, and which have started.\<close>

definition roster :: "'b kst_scheme \<Rightarrow> usize option \<times> nat \<times> (u8 \<times> bool) list" where
  "roster s = (lapic s, n_cpu s, map (\<lambda>c. (apic_id c, started c)) (cpu_table s))"

lemma roster_set_priv [simp]: "roster (set_priv i c s) = roster s"
proof -
  have "map (\<lambda>c. (apic_id c, started c)) (xs[i := (xs ! i)\<lparr>cpu_private := c\<rparr>]) = map (\<lambda>c. (apic_id c, started c)) xs" for xs
    by (cases "i < length xs") (auto intro!: nth_equalityI simp: nth_list_update list_update_beyond)
  then show ?thesis by (simp add: roster_def set_priv_def)
qed

lemma roster_flags [simp]: "roster (x86_cli me s) = roster s" "roster (x86_sti me s) = roster s" "roster (s\<lparr>spin := l\<rparr>) = roster s"
  by (simp_all add: roster_def x86_cli_def x86_sti_def)

lemma roster_same: "same_cpus s t \<Longrightarrow> roster t = roster s"
  by (simp add: roster_def same_cpus_def)

lemma roster_acquired [simp]: "roster (acquired me l i s) = roster s"
  by (simp add: acquired_def pushed_def)

section \<open>Locks inside\<close>

text \<open>
  \<open>depth s me i n\<close>: the processor is registered and nested \<open>n\<close> deep. What follows tracks the depth
  through operations that also change the processor's own record.
\<close>

definition depth :: "'b kst_scheme \<Rightarrow> u8 \<Rightarrow> nat \<Rightarrow> nat \<Rightarrow> bool" where
  "depth s me i n \<longleftrightarrow> cpu_at s me i \<and> num_cli (priv s i) = int n \<and> n < 100 \<and> (0 < n \<longrightarrow> \<not> ints_on s me)"

lemma depthD: "depth s me i n \<Longrightarrow> cpu_at s me i" "depth s me i n \<Longrightarrow> num_cli (priv s i) = int n"
  "depth s me i (Suc n) \<Longrightarrow> \<not> ints_on s me" "depth s me i n \<Longrightarrow> cli_ok s me i" "depth s me i n \<Longrightarrow> cli_room 2 s me i"
  "depth s me i n \<Longrightarrow> cli_room 1 s me i"
  by (auto simp: depth_def cli_ok_def cli_room_def)

lemma depth_same: "same_cpus s t \<Longrightarrow> depth t me i n = depth s me i n"
  by (simp add: depth_def same_cpusD)

lemma saved_depth: "depth s me i (Suc n) \<Longrightarrow> saved me i s = priv s i"
  by (simp add: saved_def depth_def)

lemma acquire_depth:
  assumes "depth s me i n" "n < 99" "\<not> locked (spin s l)"
  shows "acquire me l s = Inr (acquired me l i s)" "depth (acquired me l i s) me i (Suc n)"
    "priv (acquired me l i s) i = (saved me i s)\<lparr>num_cli := int n + 1\<rparr>"
    "spin (acquired me l i s) = (spin s)(l := (spin s l)\<lparr>locked := True, lcpu := int i\<rparr>)"
    "kst.more (acquired me l i s) = kst.more s"
proof -
  note D = depthD(1,2,5) [OF assms(1)]
  show "acquire me l s = Inr (acquired me l i s)" using assms(3) acquire_eq [OF D(3), of l] by (simp add: held_by_def)
  have p: "priv (acquired me l i s) i = priv (pushed me i s) i" by (simp add: acquired_def)
  show pv: "priv (acquired me l i s) i = (saved me i s)\<lparr>num_cli := int n + 1\<rparr>"
    using priv_pushed [OF D(1)] D(2) p by simp
  have "cpu_at (acquired me l i s) me i" "\<not> ints_on (acquired me l i s) me"
    using same_cpusD(1,2) [OF acquired_same [of me i s l], of me] D(1) by simp_all
  then show "depth (acquired me l i s) me i (Suc n)" using pv assms(2) by (simp add: depth_def)
  show "spin (acquired me l i s) = (spin s)(l := (spin s l)\<lparr>locked := True, lcpu := int i\<rparr>)" by (simp add: acquired_def)
  show "kst.more (acquired me l i s) = kst.more s" by (simp add: acquired_def pushed_def x86_cli_def set_priv_def)
qed

definition let_go :: "u8 \<Rightarrow> usize \<Rightarrow> nat \<Rightarrow> 'b kst_scheme \<Rightarrow> 'b kst_scheme" where
  "let_go me l i t = popped me i (t\<lparr>spin := (spin t)(l := (spin t l)\<lparr>lcpu := -1, locked := False\<rparr>)\<rparr>)"

lemma roster_let_go [simp]: "roster (let_go me l i t) = roster t"
  by (simp add: let_go_def popped_def Let_def)

lemma ints_on_let_go: "depth t me i (Suc n) \<Longrightarrow> ints_on (let_go me l i t) me \<longleftrightarrow> n = 0 \<and> int_enabled (priv t i)"
  unfolding let_go_def ints_on_popped by (simp add: depth_def ints_on_def)

lemma release_depth:
  assumes "depth t me i (Suc n)" "held_by t l i"
  shows "release me l t = Inr (let_go me l i t)" "depth (let_go me l i t) me i n"
    "priv (let_go me l i t) i = (priv t i)\<lparr>num_cli := int n\<rparr>"
    "spin (let_go me l i t) = (spin t)(l := (spin t l)\<lparr>lcpu := -1, locked := False\<rparr>)"
    "kst.more (let_go me l i t) = kst.more t"
proof -
  let ?u = "t\<lparr>spin := (spin t)(l := (spin t l)\<lparr>lcpu := -1, locked := False\<rparr>)\<rparr>"
  have u: "same_cpus t ?u" by (simp add: same_cpus_def)
  have du: "depth ?u me i (Suc n)" using assms(1) depth_same [OF u] by simp
  note D = depthD [OF assms(1)] and U = depthD [OF du]
  have r: "remembered me i t = t" using saved_depth [OF assms(1)] by (simp add: remembered_def)
  have "pop_cli me ?u = Inr (popped me i ?u)"
    by (rule pop_cli_popped) (use U(1,2,3) du in \<open>auto simp: depth_def\<close>)
  then show "release me l t = Inr (let_go me l i t)"
    using holding_eq [OF D(6), of l] cli_room_lapic [OF D(6)] assms(2) r
    by (simp add: release_def let_go_def Let_def rassert_simps)
  show pv: "priv (let_go me l i t) i = (priv t i)\<lparr>num_cli := int n\<rparr>"
    using priv_popped [OF U(1)] U(2) by (simp add: let_go_def)
  show "depth (let_go me l i t) me i n"
    using pv U(1) du U(2,3) ints_on_popped [of me i ?u] by (auto simp: depth_def let_go_def)
  show "spin (let_go me l i t) = (spin t)(l := (spin t l)\<lparr>lcpu := -1, locked := False\<rparr>)"
    "kst.more (let_go me l i t) = kst.more t" by (simp_all add: let_go_def)
qed

lemma my_proc_depth:
  assumes "depth s me i n" "current_proc (priv s i) = Some p"
  shows "my_proc me s = Inr (p, remembered me i s)"
  unfolding my_proc_def
proof (rule cli_read [OF depthD(6) [OF assms(1)]])
  have "cpu_at s me i" by (rule depthD(1) [OF assms(1)])
  moreover have "current_proc (priv (pushed me i s) i) = Some p"
    using assms(2) priv_pushed [OF \<open>cpu_at s me i\<close>] by (simp add: saved_def)
  ultimately show "with_cpu me (\<lambda>cpu. rbind (rexpect (current_proc cpu) ''called Option::unwrap() on a None value'') (\<lambda>p. Ok (p, cpu)))
      (pushed me i s) = Inr (p, pushed me i s)"
    by (simp add: with_cpu_eq [of "pushed me i s" me i] rexpect_simps)
qed

lemma set_current_depth:
  assumes "depth s me i n"
  shows "set_current me p s = Inr ((), set_priv i ((saved me i s)\<lparr>current_proc := p\<rparr>) s)"
    "depth (set_priv i ((saved me i s)\<lparr>current_proc := p\<rparr>) s) me i n"
proof -
  show "set_current me p s = Inr ((), set_priv i ((saved me i s)\<lparr>current_proc := p\<rparr>) s)"
    unfolding set_current_def by (rule cli_cpu_eq [OF depthD(6) [OF assms]]) simp_all
  show "depth (set_priv i ((saved me i s)\<lparr>current_proc := p\<rparr>) s) me i n"
    using assms depthD(1) [OF assms] by (simp add: depth_def priv_set_priv saved_def)
qed

lemma acquire_held:
  assumes "depth s me i n" "held_by s l i"
  shows "acquire me l s = Inl (Panic (''acquire: '' @ lname (spin s l)))"
  using acquire_eq [OF depthD(5) [OF assms(1)], of l] assms(2) by simp

lemma pst_more:
  assumes "kst.more s = kst.more t"
  shows "procs s = procs t" "ptable s = ptable t" "pt_lock s = pt_lock t" "kvm s = kvm t" "dirs s = dirs t" "kmem s = kmem t"
    "cr3 s = cr3 t" "task_reg s = task_reg t"
  using assms by (cases s, cases t, simp)+

lemma popped_pst: "popped me i (t\<lparr>task_reg := a, cr3 := b\<rparr>) = (popped me i t)\<lparr>task_reg := a, cr3 := b\<rparr>"
  by (simp add: popped_def Let_def set_priv_def x86_sti_def)

lemma with_lock_depth:
  assumes d: "depth s me i n" "n < 98" and free: "\<not> locked (spin s l)"
    and f: "f (acquired me l i s) = Inr (r, t)" "depth t me i (Suc n)" "spin t l = spin (acquired me l i s) l"
  shows "with_lock me l f s = Inr (r, let_go me l i t)" "depth (let_go me l i t) me i n"
    "priv (let_go me l i t) i = (priv t i)\<lparr>num_cli := int n\<rparr>"
    "spin (let_go me l i t) = (spin t)(l := (spin t l)\<lparr>lcpu := -1, locked := False\<rparr>)"
    "kst.more (let_go me l i t) = kst.more t"
proof -
  have "held_by t l i" using f(3) by (simp add: held_by_def acquired_def)
  note R = release_depth [OF f(2) this]
  show "with_lock me l f s = Inr (r, let_go me l i t)"
    using acquire_depth(1) [OF d(1) _ free] d(2) f(1) R(1) by (simp add: with_lock_def)
  show "depth (let_go me l i t) me i n" "priv (let_go me l i t) i = (priv t i)\<lparr>num_cli := int n\<rparr>"
    "spin (let_go me l i t) = (spin t)(l := (spin t l)\<lparr>lcpu := -1, locked := False\<rparr>)"
    "kst.more (let_go me l i t) = kst.more t" by (rule R)+
qed

text \<open>A body that leaves the processors and the lock alone, outside every lock.\<close>

lemma with_lock_frame:
  assumes d: "depth s me i 0" and free: "\<not> locked (spin s l)"
    and f: "f (acquired me l i s) = Inr (r, t)" "same_cpus (acquired me l i s) t" "spin t = spin (acquired me l i s)"
  shows "\<exists>s'. with_lock me l f s = Inr (r, s') \<and> depth s' me i 0 \<and> roster s' = roster s \<and> ints_on s' me = ints_on s me \<and> kst.more s' = kst.more t
    \<and> spin s' = (spin s)(l := (spin s l)\<lparr>lcpu := -1, locked := False\<rparr>)"
proof -
  note A = acquire_depth [OF d _ free, simplified]
  have dt: "depth t me i (Suc 0)" using A(2) depth_same [OF f(2)] by simp
  have sp: "spin t l = spin (acquired me l i s) l" by (simp add: f(3))
  note W = with_lock_depth [where f = f, OF d _ free f(1) dt sp, simplified]
  have "priv t i = priv (acquired me l i s) i" using f(2) by (simp add: same_cpus_def)
  then have "ints_on (let_go me l i t) me = ints_on s me" using ints_on_let_go [OF dt, of l] A(3) depthD(2) [OF d] by (simp add: saved_def)
  moreover have "roster (let_go me l i t) = roster s" using roster_same [OF f(2)] by simp
  ultimately show ?thesis using W f(3) A(4) by auto
qed

section \<open>Dispatching\<close>

definition on_tss :: "u8 \<Rightarrow> Process \<Rightarrow> 'h pst \<Rightarrow> 'h pst" where
  "on_tss me p s = s\<lparr>task_reg := (task_reg s)(me := of_nat SEG_TSS * 8), cr3 := (cr3 s)(me := ppg_dir p - KERNBASE)\<rparr>"

lemma on_tss_sel [simp]:
  "cpu_at (on_tss me p s) you j = cpu_at s you j" "ints_on (on_tss me p s) you = ints_on s you"
  "priv (on_tss me p s) i = priv s i" "spin (on_tss me p s) = spin s" "num_cli (priv (on_tss me p s) i) = num_cli (priv s i)"
  "popped me i (on_tss me p s) = on_tss me p (popped me i s)"
  by (simp_all add: on_tss_def cpu_at_def cpus_def ints_on_def popped_def set_priv_def x86_sti_def Let_def)

lemma depth_on_tss [simp]: "depth (on_tss me p s) you i n = depth s you i n"
  by (simp add: depth_def)

lemma depth_set_priv:
  assumes "depth s me i n" "num_cli c = int n"
  shows "depth (set_priv i c s) me i n"
  using assms depthD(1) [OF assms(1)] by (simp add: depth_def priv_set_priv)

lemma uvm_switch_depth:
  assumes d: "depth s me i n" "n < 98" and free: "\<not> locked (spin s r)"
    and p: "procs s r = Some p" "is_valid p" "KERNBASE \<le> ppg_dir p"
  shows "\<exists>s'. uvm_switch me ts r s = Inr ((), s') \<and> depth s' me i n \<and> priv s' i = tss_update ts p (saved me i s) \<and>
    spin s' = (spin s)(r := (spin s r)\<lparr>lcpu := -1, locked := False\<rparr>) \<and> kst.more s' = kst.more (on_tss me p s)"
proof -
  note A = acquire_depth [OF d(1) _ free]
  let ?a = "acquired me r i s" and ?g = "tss_update ts p"
  have da: "depth ?a me i (Suc n)" using A(2) d(2) by simp
  have at: "cpu_at ?a me i" "cli_room 1 ?a me i" using depthD(1,6) [OF da] by auto
  let ?p = "pushed me i ?a" and ?q = "on_tss me p (set_priv i (?g (priv (pushed me i ?a) i)) (pushed me i ?a))"
  have g: "?g (c\<lparr>num_cli := m\<rparr>) = (?g c)\<lparr>num_cli := m\<rparr>" "int_enabled (?g c) = int_enabled c" for c m
    by (simp_all add: tss_update_def)
  have "load_task me ts p ?p = Inr ((), ?q)"
    using at(1) p(3) by (simp add: load_task_def with_cpu_eq [of ?p me i] v2p_Ok on_tss_def)
  then have "cli me (load_task me ts p) ?a = Inr ((), popped me i ?q)"
    by (rule cli_body [OF at(2)]) (use at(1) popped_set(2) [of ?a me i ?g, OF at(2) g] in auto)
  then have c: "cli me (load_task me ts p) ?a = Inr ((), on_tss me p (set_priv i (?g (priv ?a i)) ?a))"
    using popped_set(1) [of ?a me i ?g, OF at(2) g] saved_depth [OF da] by simp
  let ?t = "on_tss me p (set_priv i (?g (priv ?a i)) ?a)"
  have dt: "depth ?t me i (Suc n)"
    using depth_set_priv [OF da, of "?g (priv ?a i)"] depthD(2) [OF da] by (simp add: tss_update_def)
  have "procs ?a r = Some p" using A(5) pst_more(1) [of ?a s] p(1) d(2) by simp
  then have body: "uvm_switch_locked me ts r ?a = Inr ((), ?t)"
    using c p(2) by (simp add: uvm_switch_locked_def deref_proc_def rassert_simps)
  have sp: "spin ?t r = spin ?a r" by simp
  note W = with_lock_depth [where f = "uvm_switch_locked me ts r", OF d free body dt sp]
  have pv: "priv ?t i = ?g (priv ?a i)" using at(1) by (simp add: priv_set_priv)
  have "kst.more ?t = kst.more (on_tss me p s)"
    using A(5) d(2) pst_more [of ?a s] by (cases s, cases ?a) (simp add: on_tss_def set_priv_def)
  then show ?thesis
    using W A(3,4) d(2) pv depthD(2) [OF d(1)]
    by (intro exI [of _ "let_go me r i ?t"]) (auto simp: uvm_switch_def tss_update_def saved_def)
qed

lemma update_proc_depth:
  assumes d: "depth s me i n" "n < 98" and free: "\<not> locked (spin s r)" and p: "procs s r = Some p"
  shows "\<exists>s'. with_lock me r (update_proc r f) s = Inr ((), s') \<and> depth s' me i n \<and> priv s' i = saved me i s \<and>
    spin s' = (spin s)(r := (spin s r)\<lparr>lcpu := -1, locked := False\<rparr>) \<and> kst.more s' = kst.more (s\<lparr>procs := (procs s)(r \<mapsto> f p)\<rparr>)"
proof -
  note A = acquire_depth [OF d(1) _ free]
  let ?a = "acquired me r i s"
  let ?t = "?a\<lparr>procs := (procs s)(r \<mapsto> f p)\<rparr>"
  have m: "kst.more ?a = kst.more s" "procs ?a = procs s" using A(5) pst_more(1) [of ?a s] d(2) by auto
  have body: "update_proc r f ?a = Inr ((), ?t)" using p m(2) by (simp add: update_proc_def deref_proc_def)
  have "same_cpus ?a ?t" by (simp add: same_cpus_def)
  then have dt: "depth ?t me i (Suc n)" using A(2) d(2) depth_same [of ?a ?t] by simp
  have sp: "spin ?t r = spin ?a r" by simp
  note W = with_lock_depth [where f = "update_proc r f", OF d free body dt sp]
  have "kst.more ?t = kst.more (s\<lparr>procs := (procs s)(r \<mapsto> f p)\<rparr>)" using m(1) by (cases s, cases ?a) simp
  then show ?thesis
    using W A(3,4) d(2) depthD(2) [OF d(1)] by (intro exI [of _ "let_go me r i ?t"]) (auto simp: saved_def)
qed

text \<open>What holds of the state in which the scheduler calls \<^verbatim>\<open>switch\<close> for process \<open>p\<close>.\<close>

definition dispatched :: "u8 \<Rightarrow> nat \<Rightarrow> usize \<Rightarrow> procref \<Rightarrow> Process \<Rightarrow> procref list \<Rightarrow> 'h pst \<Rightarrow> 'h pst \<Rightarrow> bool" where
  "dispatched me i ts p q ps s s' \<longleftrightarrow>
     procs s' = (procs s)(p \<mapsto> q\<lparr>pstate := Running\<rparr>) \<and> ptable s' = (ptable s)\<lparr>runnable := ps\<rparr> \<and> pt_lock s' = pt_lock s \<and>
     kmem s' = kmem s \<and> current_proc (priv s' i) = Some p \<and> ts_esp0 (task_state (priv s' i)) = kernel_stack q + KSTACKSIZE \<and>
     gdt (priv s' i) = (gdt (priv s i))[SEG_TSS := seg_tss STS_T32A ts 103 0] \<and>
     task_reg s' = (task_reg s)(me := of_nat SEG_TSS * 8) \<and> cr3 s' = (cr3 s)(me := ppg_dir q - KERNBASE) \<and>
     depth s' me i 2 \<and> held_by s' (pt_lock s) i \<and> held_by s' p i \<and> (\<forall>l. lname (spin s' l) = lname (spin s l))"

lemma scheduler_enter_dispatched:
  assumes d: "depth s me i 0" and free: "\<not> locked (spin s (pt_lock s))" "\<not> locked (spin s p)" "p \<noteq> pt_lock s"
    and run: "runnable (ptable s) = p # ps" and q: "procs s p = Some q" "is_valid q" "KERNBASE \<le> ppg_dir q"
  shows "\<exists>s'. scheduler_enter me ts s = Inr (Some (p, pcontext q), s') \<and> dispatched me i ts p q ps s s'"
proof -
  let ?l = "pt_lock s"
  define s1 where "s1 = set_priv i ((saved me i s)\<lparr>current_proc := None\<rparr>) s"
  have 1: "set_current me None s = Inr ((), s1)" "depth s1 me i 0" "spin s1 = spin s" "kst.more s1 = kst.more s"
    using set_current_depth [OF d, of None] by (simp_all add: s1_def set_priv_def)
  have p1: "priv s1 i = (saved me i s)\<lparr>current_proc := None\<rparr>" using depthD(1) [OF d] by (simp add: s1_def priv_set_priv)
  define s2 where "s2 = acquired me ?l i s1"
  have f1: "\<not> locked (spin s1 ?l)" using free(1) 1(3) by simp
  note A = acquire_depth [OF 1(2) _ f1, folded s2_def, simplified]
  have m2: "ptable s2 = ptable s" "pt_lock s2 = pt_lock s" "procs s2 = procs s"
    using pst_more [of s2 s] A(5) 1(4) by auto
  define s3 where "s3 = s2\<lparr>ptable := (ptable s)\<lparr>runnable := ps\<rparr>\<rparr>"
  have d3: "depth s3 me i 1" using A(2) depth_same [of s2 s3] by (simp add: s3_def same_cpus_def)
  define s4 where "s4 = set_priv i ((saved me i s3)\<lparr>current_proc := Some p\<rparr>) s3"
  have 4: "set_current me (Some p) s3 = Inr ((), s4)" "depth s4 me i 1" "spin s4 = spin s3" "kst.more s4 = kst.more s3"
    using set_current_depth [OF d3, of "Some p"] by (simp_all add: s4_def set_priv_def)
  have p4: "priv s4 i = (priv s2 i)\<lparr>current_proc := Some p\<rparr>"
    using depthD(1) [OF d3] saved_depth [of s3 me i 0] d3 by (simp add: s4_def priv_set_priv) (simp add: s3_def)
  have sp4: "spin s4 = (spin s)(?l := (spin s ?l)\<lparr>locked := True, lcpu := int i\<rparr>)" using 4(3) A(4) 1(3) by (simp add: s3_def)
  have m4: "procs s4 = procs s" "ptable s4 = (ptable s)\<lparr>runnable := ps\<rparr>" "pt_lock s4 = pt_lock s" "kmem s4 = kmem s"
    "cr3 s4 = cr3 s" "task_reg s4 = task_reg s"
    using pst_more [OF 4(4)] pst_more [of s2 s] A(5) 1(4) by (simp_all add: s3_def)
  have "\<not> locked (spin s4 p)" "procs s4 p = Some q" using free(2,3) q(1) m4(1) by (simp_all add: sp4)
  from uvm_switch_depth [OF 4(2) _ this q(2,3), of ts]
  obtain s5 where 5: "uvm_switch me ts p s4 = Inr ((), s5)" "depth s5 me i 1" "priv s5 i = tss_update ts q (saved me i s4)"
    "spin s5 = (spin s4)(p := (spin s4 p)\<lparr>lcpu := -1, locked := False\<rparr>)" "kst.more s5 = kst.more (on_tss me q s4)" by auto
  note m5 = pst_more [OF 5(5)]
  have "\<not> locked (spin s5 p)" "procs s5 p = Some q" using q(1) m4(1) m5(1) by (simp_all add: 5(4) on_tss_def)
  from update_proc_depth [OF 5(2) _ this, of "\<lambda>q. q\<lparr>pstate := Running\<rparr>"]
  obtain s6 where 6: "with_lock me p (update_proc p (\<lambda>q. q\<lparr>pstate := Running\<rparr>)) s5 = Inr ((), s6)" "depth s6 me i 1"
    "priv s6 i = saved me i s5" "spin s6 = (spin s5)(p := (spin s5 p)\<lparr>lcpu := -1, locked := False\<rparr>)"
    "kst.more s6 = kst.more (s5\<lparr>procs := (procs s5)(p \<mapsto> q\<lparr>pstate := Running\<rparr>)\<rparr>)" by auto
  note m6 = pst_more [OF 6(5)]
  have 7: "cli me (with_cpu me (\<lambda>cpu. Ok ((), cpu))) s6 = Inr ((), s6)"
    using cli_cpu_eq [OF depthD(6) [OF 6(2)], of "\<lambda>c. c" "()"] saved_depth [of s6 me i 0] 6(2) by simp
  define s7 where "s7 = acquired me p i s6"
  have f6: "\<not> locked (spin s6 p)" by (simp add: 6(4))
  note B = acquire_depth [OF 6(2) _ f6, folded s7_def, simplified]
  note m7 = pst_more [of s7 s6, OF B(5)]
  have sv: "saved me i s4 = priv s4 i" "saved me i s5 = priv s5 i" "saved me i s6 = priv s6 i"
    using saved_depth [of _ me i 0] 4(2) 5(2) 6(2) by auto
  have "procs s7 p = Some (q\<lparr>pstate := Running\<rparr>)" using m7(1) m6(1) by simp
  then have run7: "scheduler_enter me ts s = Inr (Some (p, pcontext q), s7)"
    using 1(1) A(1) m2 run 4(1) 5(1) 6(1) 7 B(1) pst_more(3) [OF 1(4)]
    by (simp add: scheduler_enter_def get_runnable_def deref_proc_def flip: s3_def)
  have pv: "current_proc (priv s7 i) = Some p" "ts_esp0 (task_state (priv s7 i)) = kernel_stack q + KSTACKSIZE"
    "gdt (priv s7 i) = (gdt (priv s i))[SEG_TSS := seg_tss STS_T32A ts 103 0]"
    using B(3) 6(3) 5(3) sv p4 A(3) p1 by (simp_all add: tss_update_def saved_def)
  have nm: "lname (spin s7 l) = lname (spin s l)" for l
    using free(3) by (simp add: B(4) 6(4) 5(4) sp4)
  have "dispatched me i ts p q ps s s7"
    unfolding dispatched_def
    using B(2) m7 m6 m5 m4 q(1) free(3) nm by (simp add: pv held_by_def B(4) 6(4) 5(4) sp4 on_tss_def tss_update_def saved_def numeral_2_eq_2)
  then show ?thesis using run7 by blast
qed

section \<open>Waking\<close>

definition woken :: "procref list \<Rightarrow> (procref \<rightharpoonup> Process) \<Rightarrow> procref \<rightharpoonup> Process" where
  "woken ps m r = (if r \<in> set ps then map_option (\<lambda>q. q\<lparr>pstate := Runnable\<rparr>) (m r) else m r)"

lemma wake_all_depth:
  assumes "depth s me i n" "n < 98" "\<forall>p \<in> set ps. \<not> locked (spin s p) \<and> procs s p \<noteq> None"
  shows "\<exists>s'. wake_all me ps s = Inr ((), s') \<and> depth s' me i n \<and>
    (\<forall>l. l \<notin> set ps \<longrightarrow> spin s' l = spin s l) \<and> (\<forall>p \<in> set ps. \<not> locked (spin s' p)) \<and>
    procs s' = woken ps (procs s) \<and> ptable s' = (ptable s)\<lparr>runnable := runnable (ptable s) @ ps\<rparr> \<and> pt_lock s' = pt_lock s"
  using assms
proof (induction ps arbitrary: s)
  case Nil
  then show ?case by (simp add: woken_def fun_eq_iff)
next
  case (Cons p ps)
  obtain q where q: "procs s p = Some q" using Cons(4) by auto
  have f: "\<not> locked (spin s p)" using Cons(4) by simp
  obtain s1 where 1: "with_lock me p (update_proc p (\<lambda>q. q\<lparr>pstate := Runnable\<rparr>)) s = Inr ((), s1)" "depth s1 me i n"
    "spin s1 = (spin s)(p := (spin s p)\<lparr>lcpu := -1, locked := False\<rparr>)"
    "kst.more s1 = kst.more (s\<lparr>procs := (procs s)(p \<mapsto> q\<lparr>pstate := Runnable\<rparr>)\<rparr>)"
    using update_proc_depth [OF Cons(2,3) f q] by blast
  note m1 = pst_more [OF 1(4)]
  let ?s = "s1\<lparr>ptable := put p (ptable s1)\<rparr>"
  have d: "depth ?s me i n" using 1(2) depth_same [of s1 ?s] by (simp add: same_cpus_def)
  have "\<forall>r \<in> set ps. \<not> locked (spin ?s r) \<and> procs ?s r \<noteq> None" using Cons(4) m1(1) 1(3) by auto
  from Cons(1) [OF d Cons(3) this] obtain s' where 2: "wake_all me ps ?s = Inr ((), s')" "depth s' me i n"
    "\<forall>l. l \<notin> set ps \<longrightarrow> spin s' l = spin s1 l" "\<forall>p \<in> set ps. \<not> locked (spin s' p)" "procs s' = woken ps (procs s1)"
    "ptable s' = (put p (ptable s1))\<lparr>runnable := runnable (put p (ptable s1)) @ ps\<rparr>" "pt_lock s' = pt_lock s1"
    by auto
  have "procs s' = woken (p # ps) (procs s)" using 2(5) m1(1) q by (auto simp: woken_def fun_eq_iff)
  moreover have "\<not> locked (spin s' p)" using 2(3,4) 1(3) by (cases "p \<in> set ps") auto
  ultimately show ?case using 1(1) 2 m1 1(3) by (auto simp: put_def)
qed

section \<open>The run queue\<close>

datatype qop = QPut procref | QGet

fun run_ops :: "qop list \<Rightarrow> ProcessTable \<Rightarrow> procref option list \<times> ProcessTable" where
  "run_ops [] t = ([], t)"
| "run_ops (QPut p # ops) t = run_ops ops (put p t)"
| "run_ops (QGet # ops) t = (case get_runnable t of (r, t1) \<Rightarrow> case run_ops ops t1 of (rs, t2) \<Rightarrow> (r # rs, t2))"

lemma run_ops_fifo:
  "k < length (runnable t) \<Longrightarrow> k < count_list ops QGet \<Longrightarrow> fst (run_ops ops t) ! k = Some (runnable t ! k)"
proof (induction ops arbitrary: t k)
  case (Cons op ops)
  show ?case
  proof (cases op)
    case (QPut p)
    then show ?thesis using Cons(1) [of k "put p t"] Cons(2,3) by (simp add: put_def nth_append)
  next
    case QGet
    then obtain r rs where t: "runnable t = r # rs" using Cons(2) by (cases "runnable t") auto
    then show ?thesis
      using Cons(1) [of "k - 1" "t\<lparr>runnable := rs\<rparr>"] Cons(2,3) QGet
      by (cases k) (auto simp: get_runnable_def split: prod.splits)
  qed
qed simp

lemma run_ops_length: "length (fst (run_ops ops t)) = count_list ops QGet"
  by (induction ops t rule: run_ops.induct) (auto split: prod.splits)

definition sleepers :: "usize \<Rightarrow> ProcessTable \<Rightarrow> procref list" where
  "sleepers chan t = (case sleeping t chan of None \<Rightarrow> [] | Some ps \<Rightarrow> ps)"

lemma ptable_same: "ptable a = t \<Longrightarrow> a\<lparr>ptable := t\<rparr> = a"
  by (cases a) auto

lemma wakeup_depth:
  assumes d: "depth s me i n" "n < 97" and free: "\<not> locked (spin s (pt_lock s))"
    and ps: "\<forall>p \<in> set (sleepers chan (ptable s)). \<not> locked (spin s p) \<and> procs s p \<noteq> None" "pt_lock s \<notin> set (sleepers chan (ptable s))"
  shows "\<exists>s'. wakeup me chan s = Inr ((), s') \<and> procs s' = woken (sleepers chan (ptable s)) (procs s) \<and>
    ptable s' = (ptable s)\<lparr>sleeping := (sleeping (ptable s))(chan := None), runnable := runnable (ptable s) @ sleepers chan (ptable s)\<rparr> \<and>
    \<not> locked (spin s' (pt_lock s)) \<and> (\<forall>l. l \<noteq> pt_lock s \<and> l \<notin> set (sleepers chan (ptable s)) \<longrightarrow> spin s' l = spin s l)
    \<and> pt_lock s' = pt_lock s \<and> depth s' me i n \<and> (\<forall>p \<in> set (sleepers chan (ptable s)). \<not> locked (spin s' p))"
proof -
  let ?l = "pt_lock s"
  let ?ps = "sleepers chan (ptable s)"
  let ?a = "acquired me ?l i s"
  have A: "depth ?a me i (Suc n)" "spin ?a = (spin s)(?l := (spin s ?l)\<lparr>locked := True, lcpu := int i\<rparr>)" "kst.more ?a = kst.more s"
    using acquire_depth [OF d(1) _ free] d(2) by simp_all
  note m = pst_more [OF A(3)]
  let ?b = "?a\<lparr>ptable := (ptable s)\<lparr>sleeping := (sleeping (ptable s))(chan := None)\<rparr>\<rparr>"
  have db: "depth ?b me i (Suc n)" using A(1) depth_same [of ?a ?b] by (simp add: same_cpus_def)
  have q: "\<forall>p \<in> set ?ps. \<not> locked (spin ?b p) \<and> procs ?b p \<noteq> None" using ps m(1) A(2) by auto
  from wake_all_depth [OF db _ q] d(2) obtain t where t: "wake_all me ?ps ?b = Inr ((), t)" "depth t me i (Suc n)"
    "\<forall>l. l \<notin> set ?ps \<longrightarrow> spin t l = spin ?a l" "procs t = woken ?ps (procs s)"
    "ptable t = (ptable s)\<lparr>sleeping := (sleeping (ptable s))(chan := None), runnable := runnable (ptable s) @ ?ps\<rparr>" "pt_lock t = ?l" "\<forall>p \<in> set ?ps. \<not> locked (spin t p)"
    using m(1,3) by auto
  have body: "table_wakeup me chan ?a = Inr ((), t)"
  proof (cases "sleeping (ptable s) chan")
    case None
    then have "?ps = []" "(sleeping (ptable s))(chan := None) = sleeping (ptable s)" by (auto simp: sleepers_def)
    then have "?b = ?a\<lparr>ptable := ptable s\<rparr>" by simp
    then have "?b = ?a" using ptable_same [OF m(2)] by (rule trans)
    then have "t = ?a" using t(1) \<open>?ps = []\<close> by simp
    then show ?thesis using m(2) None by (simp add: table_wakeup_def)
  next
    case (Some qs)
    then show ?thesis using t(1) m(2) by (simp add: table_wakeup_def sleepers_def)
  qed
  have sp: "spin t ?l = spin ?a ?l" using t(3) ps(2) by simp
  have n: "n < 98" using d(2) by simp
  note W = with_lock_depth [where f = "table_wakeup me chan", OF d(1) n free body t(2) sp]
  show ?thesis
    using W t(3-7) A(2) ps(2) pst_more [OF W(5)] by (intro exI [of _ "let_go me ?l i t"]) (auto simp: wakeup_def)
qed

section \<open>Frames\<close>

text \<open>
  What no operation on locks changes, whatever the state of the locks: which processor is which, the current process of each processor, and
  everything that is not about processors and locks.
\<close>

definition frame :: "'b kst_scheme \<Rightarrow> 'b kst_scheme \<Rightarrow> bool" where
  "frame s s' \<longleftrightarrow> (\<forall>me i. cpu_at s' me i \<longleftrightarrow> cpu_at s me i) \<and> (\<forall>i. current_proc (priv s' i) = current_proc (priv s i)) \<and> kst.more s' = kst.more s"

lemma frame_refl [simp]: "frame s s"
  by (simp add: frame_def)

lemma frame_trans: "frame s t \<Longrightarrow> frame t u \<Longrightarrow> frame s u"
  by (simp add: frame_def)

lemma frame_set_priv:
  assumes "current_proc c = current_proc (priv s i)"
  shows "frame s (set_priv i c s)"
proof -
  have "current_proc (priv (set_priv i c s) j) = current_proc (priv s j)" for j
    using assms by (cases "i < length (cpu_table s)"; cases "j = i") (simp_all add: set_priv_def list_update_beyond)
  then show ?thesis by (simp add: frame_def) (simp add: set_priv_def)
qed

lemma frame_eflags [simp]: "frame s (x86_cli me s)" "frame s (x86_sti me s)"
  by (simp_all add: frame_def) (simp_all add: x86_cli_def x86_sti_def)

lemma frame_spin [simp]: "frame s (s\<lparr>spin := f\<rparr>)"
  by (simp add: frame_def cpu_at_def cpus_def)

lemma with_cpu_frame:
  assumes f: "with_cpu me f s = Inr (r, s')" and keep: "\<And>r c c'. f c = Inr (r, c') \<Longrightarrow> current_proc c' = current_proc c"
  shows "frame s s'"
proof -
  obtain i c where "f (priv s i) = Inr (r, c)" "s' = set_priv i c s"
    using f unfolding with_cpu_def set_priv_def [symmetric] by (auto elim!: rbind_OkE)
  then show ?thesis using keep frame_set_priv by blast
qed

lemma push_cli_frame:
  assumes "push_cli me s = Inr s'"
  shows "frame s s'"
proof -
  obtain f r where "with_cpu me f (x86_cli me s) = Inr (r, s')" and f: "f = (\<lambda>cpu. let cpu1 = (if num_cli cpu = 0 then cpu\<lparr>int_enabled := (eflags s me AND FL_IF \<noteq> 0)\<rparr> else cpu) in
         rbind (checked_i32 (num_cli cpu1 + 1)) (\<lambda>n. Ok ((), cpu1\<lparr>num_cli := n\<rparr>)))"
    using assms unfolding push_cli_def Let_def by (auto elim!: rbind_OkE)
  then have "frame (x86_cli me s) s'" by (elim with_cpu_frame) (auto simp: Let_def elim!: rbind_OkE split: if_splits)
  then show ?thesis using frame_trans frame_eflags(1) by blast
qed

lemma pop_cli_frame:
  assumes "pop_cli me s = Inr s'"
  shows "frame s s'"
proof -
  obtain f on s1 where "with_cpu me f s = Inr (on, s1)" and f: "f = (\<lambda>cpu. if num_cli cpu = 0 then Fail (Panic ''pop_cli: num_cli zero'')
         else rbind (checked_i32 (num_cli cpu - 1)) (\<lambda>n. Ok (n = 0 \<and> int_enabled cpu, cpu\<lparr>num_cli := n\<rparr>)))" and s': "s' = (if on then x86_sti me s1 else s1)"
    using assms unfolding pop_cli_def by (auto elim!: rbind_OkE split: if_splits)
  then have "frame s s1" by (elim with_cpu_frame) (auto elim!: rbind_OkE split: if_splits)
  then show ?thesis using s' by (cases on) (auto intro: frame_trans)
qed

lemma cli_frame:
  assumes "cli me f s = Inr (r, s')" "\<And>t t' r. f t = Inr (r, t') \<Longrightarrow> frame t t'"
  shows "frame s s'"
proof -
  obtain s1 s2 where "push_cli me s = Inr s1" "f s1 = Inr (r, s2)" "pop_cli me s2 = Inr s'"
    using assms(1) unfolding cli_def by (auto elim!: rbind_OkE)
  then show ?thesis using push_cli_frame pop_cli_frame assms(2) frame_trans by metis
qed

lemma holding_frame: "holding me l s = Inr (h, s') \<Longrightarrow> frame s s'"
  unfolding holding_def by (erule cli_frame) (auto elim!: rbind_OkE split: if_splits)

lemma acquire_frame:
  assumes "acquire me l s = Inr s'"
  shows "frame s s'"
proof (cases "lapic_id me s")
  case (Some a)
  then obtain s1 h s2 f where "push_cli me s = Inr s1" "holding me l s1 = Inr (h, s2)" "s' = s2\<lparr>spin := f\<rparr>"
    using assms unfolding acquire_def Let_def by (auto elim!: rbind_OkE split: if_splits)
  then show ?thesis using push_cli_frame holding_frame frame_trans frame_spin by metis
qed (use assms in \<open>simp add: acquire_def\<close>)

lemma release_frame:
  assumes "release me l s = Inr s'"
  shows "frame s s'"
proof (cases "lapic_id me s")
  case (Some a)
  then obtain h s1 f where "holding me l s = Inr (h, s1)" "pop_cli me (s1\<lparr>spin := f\<rparr>) = Inr s'"
    using assms unfolding release_def Let_def by (auto elim!: rbind_OkE)
  then show ?thesis using pop_cli_frame holding_frame frame_trans frame_spin by metis
qed (use assms in \<open>simp add: release_def\<close>)

text \<open>A processor runs a process, and what the processor finds when it asks for its process.\<close>

definition runs :: "u8 \<Rightarrow> procref \<Rightarrow> 'h pst \<Rightarrow> bool" where
  "runs me p s \<longleftrightarrow> (\<exists>i q. cpu_at s me i \<and> current_proc (priv s i) = Some p \<and> procs s p = Some q \<and> pstate q = Running)"

lemma runs_frame: "frame s s' \<Longrightarrow> runs me p s' \<longleftrightarrow> runs me p s"
  using pst_more(1) [of s' s] by (auto simp: frame_def runs_def)

lemma my_proc_frame: "my_proc me s = Inr (p, s') \<Longrightarrow> frame s s'"
  unfolding my_proc_def by (erule cli_frame) (rule with_cpu_frame, assumption, auto elim!: rbind_OkE)

lemma my_proc_runs:
  assumes "runs me p s" "my_proc me s = Inr (p', s')"
  shows "p' = p"
proof -
  obtain i where i: "cpu_at s me i" "current_proc (priv s i) = Some p" using assms(1) by (auto simp: runs_def)
  obtain s1 s2 where s1: "push_cli me s = Inr s1" "with_cpu me (\<lambda>cpu. rbind (rexpect (current_proc cpu) ''called Option::unwrap() on a None value'') (\<lambda>p. Ok (p, cpu))) s1 = Inr (p', s2)"
    using assms(2) unfolding my_proc_def cli_def by (auto elim!: rbind_OkE)
  have "cpu_at s1 me i" "current_proc (priv s1 i) = Some p" using push_cli_frame [OF s1(1)] i by (simp_all add: frame_def)
  then show ?thesis using s1(2) by (auto simp: with_cpu_def my_cpu_id_def cpu_at_def lapic_id_def elim!: rbind_OkE)
qed

text \<open>\<^verbatim>\<open>sched\<close> insists that the process is not running.\<close>

lemma sched_enter_runs:
  assumes "runs me p s"
  shows "\<exists>f. sched_enter me s = Inl f"
proof (cases "sched_enter me s")
  case (Inr r)
  then obtain p' s1 s2 where 1: "my_proc me s = Inr (p', s1)"
      "with_lock me p' (\<lambda>t. rbind (deref_proc p' t) (\<lambda>q. Ok (pstate q \<noteq> Running, t))) s1 = Inr (True, s2)"
    unfolding sched_enter_def by (auto elim!: rbind_OkE)
  have p: "p' = p" by (rule my_proc_runs [OF assms 1(1)])
  obtain t q where t: "acquire me p s1 = Inr t" "procs t p = Some q" "pstate q \<noteq> Running"
    using 1(2) p unfolding with_lock_def deref_proc_def by (auto elim!: rbind_OkE split: option.splits)
  have "runs me p t" using assms runs_frame [OF my_proc_frame [OF 1(1)]] runs_frame [OF acquire_frame [OF t(1)]] by simp
  then show ?thesis using t by (auto simp: runs_def)
qed simp

lemma sleep_enter_runs:
  assumes "runs me p s"
  shows "\<exists>f. sleep_enter me chan lk s = Inl f"
proof (cases "sleep_enter me chan lk s")
  case (Inr r)
  then obtain p' s1 t u s3 where 1: "my_proc me s = Inr (p', s1)" "acquire me (pt_lock s1) s1 = Inr t" "release me (pt_lock s1) (t\<lparr>ptable := u\<rparr>) = Inr s3"
      and 2: "\<exists>s4. release me lk s3 = Inr s4 \<and> sched_enter me s4 = Inr r"
    unfolding sleep_enter_def with_lock_def force_unlocked_def by (auto elim!: rbind_OkE)
  have "runs me p t" using assms runs_frame [OF my_proc_frame [OF 1(1)]] runs_frame [OF acquire_frame [OF 1(2)]] by simp
  then have "runs me p (t\<lparr>ptable := u\<rparr>)" by (simp add: runs_def cpu_at_def cpus_def)
  then have "runs me p s3" using runs_frame [OF release_frame [OF 1(3)]] by simp
  moreover obtain s4 where s4: "release me lk s3 = Inr s4" "sched_enter me s4 = Inr r" using 2 by blast
  ultimately have "runs me p s4" using runs_frame [OF release_frame [OF s4(1)]] by simp
  then show ?thesis using sched_enter_runs s4(2) by fastforce
qed simp


lemma dispatched_runs: "dispatched me i ts p q ps s s' \<Longrightarrow> runs me p s'"
  by (auto simp: dispatched_def runs_def depth_def)

section \<open>Properties\<close>

text \<open>A kernel with two processors, a runnable process at \<open>0x80300000\<close> and one that sleeps on channel 7.\<close>

definition demo_proc :: Process where
  "demo_proc = (Process_new 0x80500000)\<lparr>pstate := Runnable, pid := 1, kernel_stack := 0x80600000, pcontext := 0x80600F9C\<rparr>"

definition demo_pst :: "nat pst" where
  "demo_pst = \<lparr>lapic = Some 0xFEE00000, n_cpu = 2, cpu_table = [CpuShared_zero, CpuShared_zero\<lparr>apic_id := 1\<rparr>],
     eflags = (\<lambda>_. 0x202), spin = (\<lambda>l. SpinLock_new (if l = 0x80200000 then ''ptable'' else ''process'')),
     procs = [0x80300000 \<mapsto> demo_proc, 0x80300100 \<mapsto> demo_proc\<lparr>pstate := Sleeping, pid := 2\<rparr>],
     ptable = \<lparr>sleeping = [7 \<mapsto> [0x80300100]], runnable = [0x80300000], initproc = None, next_pid = 3\<rparr>,
     pt_lock = 0x80200000, kvm = \<lparr>dir_addr = 0, pg_dir = [], tables = Map.empty, pages = Map.empty, heap = 0\<rparr>,
     dirs = Map.empty, kmem = (\<lambda>_. 0), cr3 = (\<lambda>_. 0), task_reg = (\<lambda>_. 0)\<rparr>"

lemma demo_pst_ok: "depth demo_pst 1 1 0" "\<not> locked (spin demo_pst l)" "pt_lock demo_pst = 0x80200000"
  "runnable (ptable demo_pst) = [0x80300000]" "procs demo_pst 0x80300000 = Some demo_proc"
  "sleeping (ptable demo_pst) 7 = Some [0x80300100]" "procs demo_pst 0x80300100 = Some (demo_proc\<lparr>pstate := Sleeping, pid := 2\<rparr>)"
  "is_valid demo_proc" "ppg_dir demo_proc = 0x80500000"
  by (simp_all add: demo_pst_def depth_def cpu_at_def cpus_def CpuShared_zero_def SpinLock_new_def demo_proc_def is_valid_def Process_new_def)

text \<open>C11. One round of the scheduler takes the process at the front of the run queue. When it calls
  \<^verbatim>\<open>switch\<close> with that process's context, the process is marked running and is the current process of the
  processor, its kernel stack is the stack for traps from user mode, the task register selects the
  processor's task state, CR3 holds the physical address of its page directory, and the rest of the
  queue and all other processes are as they were. Both the lock of the process table and that of the
  process are still held by the processor then.\<close>

theorem scheduler_dispatches:
  assumes "depth s me i 0" "\<not> locked (spin s (pt_lock s))" "\<not> locked (spin s p)" "p \<noteq> pt_lock s"
    and "runnable (ptable s) = p # ps" "procs s p = Some q" "is_valid q" "KERNBASE \<le> ppg_dir q"
  shows "\<exists>s'. scheduler_enter me ts s = Inr (Some (p, pcontext q), s') \<and>
     procs s' = (procs s)(p \<mapsto> q\<lparr>pstate := Running\<rparr>) \<and> ptable s' = (ptable s)\<lparr>runnable := ps\<rparr> \<and>
     current_proc (priv s' i) = Some p \<and> ts_esp0 (task_state (priv s' i)) = kernel_stack q + KSTACKSIZE \<and>
     gdt (priv s' i) = (gdt (priv s i))[SEG_TSS := seg_tss STS_T32A ts 103 0] \<and> task_reg s' me = 0x28 \<and>
     cr3 s' me = ppg_dir q - KERNBASE \<and> held_by s' (pt_lock s) i \<and> held_by s' p i \<and> num_cli (priv s' i) = 2"
  using scheduler_enter_dispatched [OF assms, of ts] by (auto simp: dispatched_def depth_def SEG_TSS_def)

theorem scheduler_dispatches_witness:
  "\<exists>s'. scheduler_enter 1 0x80700000 demo_pst = Inr (Some (0x80300000, 0x80600F9C), s') \<and> cr3 s' 1 = 0x500000
     \<and> held_by s' 0x80200000 1"
  using scheduler_dispatches [OF demo_pst_ok(1), of "0x80300000" "[]" demo_proc "0x80700000"]
  by (auto simp: demo_pst_ok KERNBASE_def) (simp add: demo_proc_def)

text \<open>C26. Because the scheduler still holds the lock of the process table, a process it has switched to
  cannot use it: \<^verbatim>\<open>wakeup\<close> and \<^verbatim>\<open>sleep\<close>, called by the process on that processor, panic when they try to
  take the lock that their own processor holds.\<close>

theorem process_cannot_use_table:
  assumes "depth s me i 0" "\<not> locked (spin s (pt_lock s))" "\<not> locked (spin s p)" "p \<noteq> pt_lock s"
    and "runnable (ptable s) = p # ps" "procs s p = Some q" "is_valid q" "KERNBASE \<le> ppg_dir q"
    and "scheduler_enter me ts s = Inr (r, s')"
  shows "wakeup me chan s' = Inl (Panic (''acquire: '' @ lname (spin s (pt_lock s)))) \<and>
    sleep_enter me chan lk s' = Inl (Panic (''acquire: '' @ lname (spin s (pt_lock s))))"
proof -
  have D: "dispatched me i ts p q ps s s'" using scheduler_enter_dispatched [OF assms(1-8), of ts] assms(9) by auto
  have d: "depth s' me i (Suc 1)" "pt_lock s' = pt_lock s" "current_proc (priv s' i) = Some p" "held_by s' (pt_lock s) i"
    "lname (spin s' (pt_lock s)) = lname (spin s (pt_lock s))"
    using D by (simp_all add: dispatched_def numeral_2_eq_2)
  have "my_proc me s' = Inr (p, s')"
    using my_proc_depth [OF d(1,3)] saved_depth [OF d(1)] by (simp add: remembered_def)
  then show ?thesis
    using acquire_held [OF d(1,4)] d(2,5) by (simp add: wakeup_def sleep_enter_def with_lock_def)
qed

theorem process_cannot_use_table_witness:
  "\<exists>s'. scheduler_enter 1 0x80700000 demo_pst = Inr (Some (0x80300000, 0x80600F9C), s') \<and>
     wakeup 1 7 s' = Inl (Panic ''acquire: ptable'')"
proof -
  have k: "KERNBASE \<le> ppg_dir demo_proc" by (simp add: demo_pst_ok KERNBASE_def)
  obtain s' where s': "scheduler_enter 1 0x80700000 demo_pst = Inr (Some (0x80300000, 0x80600F9C), s')"
    using scheduler_enter_dispatched [OF demo_pst_ok(1), of "0x80300000" "[]" demo_proc "0x80700000"] k
    by (auto simp: demo_pst_ok) (simp add: demo_proc_def)
  from process_cannot_use_table [of demo_pst 1 1 "0x80300000" "[]" demo_proc, OF demo_pst_ok(1) _ _ _ _ _ _ k s', of 7]
  show ?thesis using s' by (auto simp: demo_pst_ok) (simp add: demo_pst_def SpinLock_new_def)
qed

text \<open>C27. Sleeping never works. Whatever the state of the locks and of the process table: as long as a processor has a process that is
  marked running, as the scheduler marks every process it switches to, neither \<^verbatim>\<open>sched\<close> nor \<^verbatim>\<open>sleep\<close>, on any channel and with the guard of any
  lock, gets as far as switching to the scheduler on that processor. (Right after the switch \<^verbatim>\<open>sleep\<close> panics on the lock of
  the process table; if that lock were free, \<^verbatim>\<open>sched\<close> would insist that the process is not running, which \<^verbatim>\<open>sleep\<close> does not change.)\<close>

theorem running_never_sleeps:
  assumes "runs me p s"
  shows "(\<exists>f. sched_enter me s = Inl f) \<and> (\<exists>f. sleep_enter me chan lk s = Inl f)"
  using sched_enter_runs [OF assms] sleep_enter_runs [OF assms] by simp

theorem running_never_sleeps_witness:
  "\<exists>s' f. scheduler_enter 1 0x80700000 demo_pst = Inr (Some (0x80300000, 0x80600F9C), s') \<and> sleep_enter 1 7 0x80800000 s' = Inl f"
proof -
  have k: "KERNBASE \<le> ppg_dir demo_proc" by (simp add: demo_pst_ok KERNBASE_def)
  obtain s' where s': "scheduler_enter 1 0x80700000 demo_pst = Inr (Some (0x80300000, 0x80600F9C), s')" "dispatched 1 1 0x80700000 0x80300000 demo_proc [] demo_pst s'"
    using scheduler_enter_dispatched [OF demo_pst_ok(1), of "0x80300000" "[]" demo_proc "0x80700000"] k
    by (auto simp: demo_pst_ok) (simp add: demo_proc_def)
  then show ?thesis using running_never_sleeps [OF dispatched_runs [OF s'(2)]] by blast
qed

text \<open>C24. \<^verbatim>\<open>wakeup\<close> makes exactly the processes that sleep on the channel runnable and appends them to the
  run queue in the order in which they went to sleep; the channel is then empty, the table lock is free
  again, and everything else in the table is as it was.\<close>

theorem wakeup_moves_sleepers:
  assumes "depth s me i 0" "\<not> locked (spin s (pt_lock s))" "sleeping (ptable s) chan = Some ps"
    and "\<forall>p \<in> set ps. \<not> locked (spin s p) \<and> procs s p \<noteq> None" "pt_lock s \<notin> set ps"
  shows "\<exists>s'. wakeup me chan s = Inr ((), s') \<and> procs s' = woken ps (procs s) \<and>
    ptable s' = (ptable s)\<lparr>sleeping := (sleeping (ptable s))(chan := None), runnable := runnable (ptable s) @ ps\<rparr> \<and>
    \<not> locked (spin s' (pt_lock s)) \<and> depth s' me i 0"
  using wakeup_depth [OF assms(1) _ assms(2), of chan] assms(3-5) by (auto simp: sleepers_def)

theorem wakeup_moves_sleepers_witness:
  "\<exists>s'. wakeup 1 7 demo_pst = Inr ((), s') \<and> runnable (ptable s') = [0x80300000, 0x80300100]"
  using wakeup_moves_sleepers [OF demo_pst_ok(1) _ demo_pst_ok(6)] by (auto simp: demo_pst_ok)

text \<open>C25. The run queue is fair: however new processes are put on it, the process at position \<open>k\<close> is the
  one that the scheduler's call number \<open>k + 1\<close> of \<^verbatim>\<open>get_runnable\<close> returns, so that no runnable process waits
  for more than the processes ahead of it.\<close>

theorem run_queue_fair:
  assumes "k < length (runnable t)" "k < count_list ops QGet"
  shows "k < length (fst (run_ops ops t)) \<and> fst (run_ops ops t) ! k = Some (runnable t ! k)"
  using run_ops_fifo [OF assms] run_ops_length [of ops t] assms(2) by simp

theorem run_queue_fair_witness:
  "fst (run_ops [QPut 9, QGet, QPut 8, QGet] (ProcessTable_new\<lparr>runnable := [4, 5]\<rparr>)) ! 1 = Some 5"
  using run_queue_fair [of 1 "ProcessTable_new\<lparr>runnable := [4, 5]\<rparr>" "[QPut 9, QGet, QPut 8, QGet]"] by simp

end
