(* ===== verification/Kvm.thy ===== *)
theory Kvm
  imports Paging
begin

text \<open>
  Correctness of the page table construction of \<^verbatim>\<open>kernel/src/vm.rs\<close>: the invariant of page tables
  under construction, the effect of \<^verbatim>\<open>walk_page_dir\<close> and of one iteration of \<^verbatim>\<open>map_pages\<close>, the
  interface \<open>page_mapper\<close> through which ranges of pages are mapped, and the address spaces that
  \<^verbatim>\<open>setup_kvm\<close> and \<^verbatim>\<open>uvm::init\<close> build.
\<close>

section \<open>The invariant of page tables under construction\<close>

text \<open>\<open>pt_view\<close> reads the whole two-level structure as one array of page table entries,
  indexed by virtual page number.\<close>

abbreviation table_flags :: u32 where
  "table_flags \<equiv> PRESENT OR WRITABLE OR USER"

definition table_at :: "usize \<Rightarrow> u32" where
  "table_at t = pde_new_table (t - KERNBASE) table_flags"

definition pt_view :: "'h vm \<Rightarrow> nat \<Rightarrow> u32" where
  "pt_view s n = (if n < 1048576 \<and> pg_dir s ! (n div 1024) AND PRESENT \<noteq> 0
     then (case tables s ((pg_dir s ! (n div 1024) AND 0xFFFFF000) + KERNBASE) of
             None \<Rightarrow> 0 | Some tab \<Rightarrow> tab ! (n mod 1024))
     else 0)"

definition pt_used :: "'h vm \<Rightarrow> nat set" where
  "pt_used s = {i. i < 1024 \<and> pg_dir s ! i \<noteq> 0}"

definition pt_inv :: "'h page_alloc \<Rightarrow> ('h \<Rightarrow> usize set) \<Rightarrow> ('h \<Rightarrow> nat) \<Rightarrow> 'h vm \<Rightarrow> bool" where
  "pt_inv alloc live avail s \<longleftrightarrow>
     page_alloc_ok alloc live avail \<and> length (pg_dir s) = 1024 \<and>
     (\<forall>i < 1024. pg_dir s ! i = 0 \<or>
        (\<exists>t. pg_dir s ! i = table_at t \<and> t mod 4096 = 0 \<and> KERNBASE \<le> t \<and> t \<in> dom (tables s))) \<and>
     (\<forall>i < 1024. \<forall>j < 1024. i \<noteq> j \<longrightarrow> pg_dir s ! i \<noteq> 0 \<longrightarrow> pg_dir s ! i \<noteq> pg_dir s ! j) \<and>
     (\<forall>t tab. tables s t = Some tab \<longrightarrow> length tab = 1024 \<and> t \<in> live (heap s))"

lemma table_flags_value: "table_flags = 7" "table_flags AND DIR_ENT_FLAG_MASK = 7"
  by (simp_all add: flag_consts)

lemma kernel_addr_aligned:
  assumes "(t :: usize) mod 4096 = 0" "KERNBASE \<le> t"
  shows "(t - KERNBASE) mod 4096 = 0" "unat (t - KERNBASE) = unat t - 0x80000000"
    "unat t \<ge> 0x80000000"
proof -
  show le: "unat t \<ge> 0x80000000"
    using assms(2) by (simp add: KERNBASE_def word_le_nat_alt)
  show sub: "unat (t - KERNBASE) = unat t - 0x80000000"
    using assms(2) by (simp add: unat_sub KERNBASE_def)
  have "unat (t mod 4096) = unat t mod 4096"
    using unat_mod_pow2 [of t 12] by simp
  then have "4096 dvd unat t"
    using assms(1) by auto
  then have "4096 dvd unat t - 0x80000000"
    by (rule dvd_diff_nat) simp
  then have "unat ((t - KERNBASE) mod 4096) = 0"
    using unat_mod_pow2 [of "t - KERNBASE" 12] sub by simp
  then show "(t - KERNBASE) mod 4096 = 0"
    by (simp only: unat_eq_zero)
qed

lemma table_at_facts:
  assumes "t mod 4096 = 0" "KERNBASE \<le> t"
  shows "table_at t AND PRESENT = PRESENT" "table_at t \<noteq> 0"
    "pde_flags_check (table_at t) PRESENT"
    "pde_addr (table_at t) = Inr (t - KERNBASE)" "p2v (t - KERNBASE) = Inr t"
    "(table_at t AND 0xFFFFF000) + KERNBASE = t"
proof -
  note al = kernel_addr_aligned [OF assms]
  note parts = pde_new_table_parts [OF al(1), of table_flags]
  have "table_at t AND PRESENT = (table_at t AND 0xFFF) AND PRESENT"
    by (simp add: PRESENT_def and.assoc)
  also have "table_at t AND 0xFFF = 7"
    by (simp only: table_at_def parts(4) table_flags_value(2))
  also have "7 AND PRESENT = PRESENT"
    by (simp add: PRESENT_def)
  finally show p: "table_at t AND PRESENT = PRESENT" .
  then show "table_at t \<noteq> 0" by (auto simp: PRESENT_def)
  from p show "pde_flags_check (table_at t) PRESENT"
    by (simp add: pde_present_iff) (simp add: PRESENT_def)
  show "pde_addr (table_at t) = Inr (t - KERNBASE)"
    using parts(1) al(1) by (simp add: pde_addr_def addr_from_raw_def table_at_def)
  show "p2v (t - KERNBASE) = Inr t"
    using p2v_Ok [of "t - KERNBASE"] al unat_less32 [of t] by simp
  show "(table_at t AND 0xFFFFF000) + KERNBASE = t"
    using parts(3) by (simp add: table_at_def)
qed

lemma table_at_inj:
  assumes "t mod 4096 = 0" "KERNBASE \<le> t" "u mod 4096 = 0" "KERNBASE \<le> u" "table_at t = table_at u"
  shows "t = u"
  using table_at_facts(6) [OF assms(1,2)] table_at_facts(6) [OF assms(3,4)] assms(5) by metis

lemma pt_invD:
  assumes "pt_inv alloc live avail s"
  shows "page_alloc_ok alloc live avail" "length (pg_dir s) = 1024"
    "i < 1024 \<Longrightarrow> pg_dir s ! i \<noteq> 0 \<Longrightarrow>
       \<exists>t. pg_dir s ! i = table_at t \<and> t mod 4096 = 0 \<and> KERNBASE \<le> t \<and> t \<in> dom (tables s)"
    "i < 1024 \<Longrightarrow> j < 1024 \<Longrightarrow> pg_dir s ! i \<noteq> 0 \<Longrightarrow> pg_dir s ! i = pg_dir s ! j \<Longrightarrow> i = j"
    "tables s t = Some tab \<Longrightarrow> length tab = 1024" "tables s t = Some tab \<Longrightarrow> t \<in> live (heap s)"
proof -
  note inv = assms [unfolded pt_inv_def]
  show "page_alloc_ok alloc live avail" "length (pg_dir s) = 1024" using inv by simp_all
  show "i < 1024 \<Longrightarrow> pg_dir s ! i \<noteq> 0 \<Longrightarrow>
       \<exists>t. pg_dir s ! i = table_at t \<and> t mod 4096 = 0 \<and> KERNBASE \<le> t \<and> t \<in> dom (tables s)"
    using inv by metis
  show "i < 1024 \<Longrightarrow> j < 1024 \<Longrightarrow> pg_dir s ! i \<noteq> 0 \<Longrightarrow> pg_dir s ! i = pg_dir s ! j \<Longrightarrow> i = j"
    using inv by metis
  show "tables s t = Some tab \<Longrightarrow> length tab = 1024" "tables s t = Some tab \<Longrightarrow> t \<in> live (heap s)"
    using inv by simp_all
qed

lemma pt_invI:
  assumes "page_alloc_ok alloc live avail" "length (pg_dir s) = 1024"
    "\<And>i. i < 1024 \<Longrightarrow> pg_dir s ! i \<noteq> 0 \<Longrightarrow>
       \<exists>t. pg_dir s ! i = table_at t \<and> t mod 4096 = 0 \<and> KERNBASE \<le> t \<and> t \<in> dom (tables s)"
    "\<And>i j. i < 1024 \<Longrightarrow> j < 1024 \<Longrightarrow> pg_dir s ! i \<noteq> 0 \<Longrightarrow> pg_dir s ! i = pg_dir s ! j \<Longrightarrow> i = j"
    "\<And>t tab. tables s t = Some tab \<Longrightarrow> length tab = 1024 \<and> t \<in> live (heap s)"
  shows "pt_inv alloc live avail s"
  unfolding pt_inv_def
proof (intro conjI allI impI)
  show "page_alloc_ok alloc live avail" "length (pg_dir s) = 1024" by (rule assms)+
  fix i :: nat assume "i < 1024"
  then show "pg_dir s ! i = 0 \<or>
    (\<exists>t. pg_dir s ! i = table_at t \<and> t mod 4096 = 0 \<and> KERNBASE \<le> t \<and> t \<in> dom (tables s))"
    using assms(3) [of i] by (cases "pg_dir s ! i = 0") simp_all
next
  fix i j :: nat assume "i < 1024" "j < 1024" "i \<noteq> j" "pg_dir s ! i \<noteq> 0"
  then show "pg_dir s ! i \<noteq> pg_dir s ! j" using assms(4) [of i j] by blast
next
  fix t tab assume "tables s t = Some tab"
  then show "length tab = 1024" "t \<in> live (heap s)" using assms(5) [of t tab] by simp_all
qed

lemma pt_inv_entry:
  assumes "pt_inv alloc live avail s" "i < 1024" "pg_dir s ! i \<noteq> 0"
  obtains t tab where "pg_dir s ! i = table_at t" "t mod 4096 = 0" "KERNBASE \<le> t"
    "tables s t = Some tab" "length tab = 1024"
  using pt_invD(3) [OF assms] pt_invD(5) [OF assms(1)] by (metis domD)

lemma pt_view_absent:
  assumes "pg_dir s ! (n div 1024) = 0" shows "pt_view s n = 0"
  using assms by (simp add: pt_view_def)

lemma pt_view_entry:
  assumes "pg_dir s ! (n div 1024) = table_at t" "t mod 4096 = 0" "KERNBASE \<le> t"
    "tables s t = Some tab" "n < 1048576"
  shows "pt_view s n = tab ! (n mod 1024)"
  using assms table_at_facts [of t] by (simp add: pt_view_def)  (simp add: PRESENT_def)

lemma table_at_small_pages:
  assumes "t mod 4096 = 0" "KERNBASE \<le> t"
  shows "table_at t AND PAGE_SIZE_4MIB = 0"
proof -
  have "table_at t AND PAGE_SIZE_4MIB = (table_at t AND 0xFFF) AND PAGE_SIZE_4MIB"
    by (simp add: PAGE_SIZE_4MIB_def and.assoc)
  also have "table_at t AND 0xFFF = 7"
    by (simp only: table_at_def table_flags_value(2) pde_new_table_parts(4) [OF kernel_addr_aligned(1) [OF assms]])
  finally show ?thesis by (simp add: PAGE_SIZE_4MIB_def)
qed

lemma translate_view:
  assumes inv: "pt_inv alloc live avail s"
  shows "translate s va = (if pt_view s (vpn va) AND PRESENT = 0 then None
     else Some ((pt_view s (vpn va) AND 0xFFFFF000) OR (va AND 0xFFF), pt_view s (vpn va) AND 0xFFF))"
proof -
  have "pg_dir s ! (vpn va div 1024) AND PAGE_SIZE_4MIB = 0"
  proof (cases "pg_dir s ! (vpn va div 1024) = 0")
    case False
    show ?thesis
      by (rule pt_inv_entry [OF inv vpn_div_less False]) (simp add: table_at_small_pages)
  qed simp
  then show ?thesis
    by (auto simp: translate_def pte_of_def pt_view_def pdx_vpn ptx_vpn Let_def split: option.splits)
qed

text \<open>Storing an entry changes exactly the page it is for.\<close>

lemma vpn_parts_eq: "(n div 1024 = m div 1024 \<and> n mod 1024 = m mod 1024) = (n = (m :: nat))"
  by (metis div_mult_mod_eq)

lemma div_less_1024: "n < 1048576 \<Longrightarrow> n div 1024 < (1024 :: nat)"
  by (simp add: less_mult_imp_div_less)

lemma write_pte_fields:
  "tables s t = Some tab \<Longrightarrow> tables (write_pte s (t, i) v) = (tables s)(t \<mapsto> tab[i := v])"
  "pg_dir (write_pte s loc v) = pg_dir s" "heap (write_pte s loc v) = heap s"
  "pages (write_pte s loc v) = pages s" "dir_addr (write_pte s loc v) = dir_addr s"
  by (simp_all add: write_pte_def)

lemma write_pte_inv:
  assumes inv: "pt_inv alloc live avail s" and t: "tables s t = Some tab"
  shows "pt_inv alloc live avail (write_pte s (t, i) v)"
proof -
  have dom: "dom ((tables s)(t \<mapsto> tab[i := v])) = dom (tables s)"
    using t by auto
  have "\<forall>u tu. ((tables s)(t \<mapsto> tab[i := v])) u = Some tu \<longrightarrow> length tu = 1024 \<and> u \<in> live (heap s)"
    using pt_invD(5,6) [OF inv] t by auto
  then show ?thesis
    using inv unfolding pt_inv_def write_pte_fields(1) [OF t] write_pte_fields(2-) dom by blast
qed

lemma write_pte_view:
  assumes inv: "pt_inv alloc live avail s" and t: "pg_dir s ! (m div 1024) = table_at t"
    "t mod 4096 = 0" "KERNBASE \<le> t" "tables s t = Some tab" and m: "m < 1048576"
  shows "pt_view (write_pte s (t, m mod 1024) v) = (pt_view s)(m := v)"
proof
  let ?s = "write_pte s (t, m mod 1024) v"
  note tabs = write_pte_fields(1) [OF t(4)] and dir = write_pte_fields(2)
  fix n
  consider "\<not> n < 1048576" | "n < 1048576" "pg_dir s ! (n div 1024) = 0"
    | "n < 1048576" "pg_dir s ! (n div 1024) \<noteq> 0" by blast
  then show "pt_view ?s n = ((pt_view s)(m := v)) n"
  proof cases
    case 1
    with m have "n \<noteq> m" by blast
    with 1 show ?thesis by (simp add: pt_view_def)
  next
    case 2
    then have "n \<noteq> m" using t(1) table_at_facts(2) [OF t(2,3)] by metis
    with 2 show ?thesis by (simp add: pt_view_absent dir)
  next
    case 3
    obtain u tu where u: "pg_dir s ! (n div 1024) = table_at u" "u mod 4096 = 0" "KERNBASE \<le> u"
      "tables s u = Some tu" "length tu = 1024"
      using pt_inv_entry [OF inv div_less_1024 [OF 3(1)] 3(2)] .
    have vs: "pt_view s n = tu ! (n mod 1024)"
      by (rule pt_view_entry [OF u(1-4) 3(1)])
    have vt: "pt_view ?s n = the (((tables s)(t \<mapsto> tab[m mod 1024 := v])) u) ! (n mod 1024)"
      by (rule pt_view_entry [OF _ u(2,3) _ 3(1)]) (simp_all add: tabs dir u)
    show ?thesis
    proof (cases "n div 1024 = m div 1024")
      case True
      then have "u = t" using u t table_at_inj by metis
      then show ?thesis
        using vt vs u t True vpn_parts_eq [of m n] by (auto simp: nth_list_update)
    next
      case False
      then have "u \<noteq> t"
        using pt_invD(4) [OF inv div_less_1024 [OF 3(1)] div_less_1024 [OF m] 3(2)] u(1) t(1) by metis
      moreover from False have "n \<noteq> m" by blast
      ultimately show ?thesis using vt vs u by simp
    qed
  qed
qed

text \<open>Walking the directory: an existing table is found, a missing one is created empty.\<close>

lemma walk_existing:
  assumes inv: "pt_inv alloc live avail s" and used: "pg_dir s ! (vpn va div 1024) = table_at t"
    "t mod 4096 = 0" "KERNBASE \<le> t" "tables s t = Some tab"
  shows "walk_page_dir alloc s va b = Inr (s, Some (t, vpn va mod 1024))"
proof -
  have "vpn va mod 1024 < length tab" using pt_invD(5) [OF inv used(4)] by simp
  then show ?thesis
    using used pt_invD(2) [OF inv] table_at_facts(3-5) [OF used(2,3)]
    by (simp add: walk_page_dir_def pdx_vpn ptx_vpn deref_table_def)
qed

text \<open>The state after a new table at \<open>p\<close> has been hung into slot \<open>i\<close> of the directory.\<close>

definition with_table :: "'h vm \<Rightarrow> nat \<Rightarrow> usize \<Rightarrow> 'h \<Rightarrow> 'h vm" where
  "with_table s i p h = s\<lparr>heap := h, tables := (tables s)(p \<mapsto> replicate NPTENTRIES 0),
     pg_dir := (pg_dir s)[i := table_at p]\<rparr>"

lemma page_alloc_okD:
  assumes "page_alloc_ok alloc live avail" "alloc h = Some (p, h')"
  shows "p mod 4096 = 0" "KERNBASE \<le> p" "p \<notin> live h" "live h' = insert p (live h)"
    "avail h = Suc (avail h')"
  using assms by (simp_all add: page_alloc_ok_def)

lemma walk_creates:
  assumes inv: "pt_inv alloc live avail s" and free: "pg_dir s ! (vpn va div 1024) = 0"
    and al: "alloc (heap s) = Some (p, h)"
  shows "walk_page_dir alloc s va True =
    Inr (with_table s (vpn va div 1024) p h, Some (p, vpn va mod 1024))"
proof -
  note p = page_alloc_okD [OF pt_invD(1) [OF inv] al]
  show ?thesis
    using free al pt_invD(2) [OF inv] p(1) v2p_Ok [OF p(2)]
    by (simp add: walk_page_dir_def pdx_vpn ptx_vpn pde_present_iff page_table_zero_boxed_def
        heap_alloc_def addr_from_def deref_table_def with_table_def NPTENTRIES_def table_at_def)
qed

lemma with_table_inv:
  assumes inv: "pt_inv alloc live avail s" and i: "i < 1024" "pg_dir s ! i = 0"
    and al: "alloc (heap s) = Some (p, h)"
  shows "pt_inv alloc live avail (with_table s i p h)"
proof -
  let ?s = "with_table s i p h"
  note p = page_alloc_okD [OF pt_invD(1) [OF inv] al] and len = pt_invD(2) [OF inv]
  have fresh: "tables s p = None" using p(3) pt_invD(6) [OF inv] by (metis option.exhaust)
  have dir: "pg_dir ?s ! j = (if j = i then table_at p else pg_dir s ! j)" if "j < 1024" for j
    using that len by (simp add: with_table_def nth_list_update)
  have new: "table_at p \<noteq> pg_dir s ! j" if lt: "j < 1024" for j
  proof
    assume eq: "table_at p = pg_dir s ! j"
    with table_at_facts(2) [OF p(1,2)] have nz: "pg_dir s ! j \<noteq> 0" by metis
    obtain t tab where "pg_dir s ! j = table_at t" "t mod 4096 = 0" "KERNBASE \<le> t"
      "tables s t = Some tab"
      using pt_inv_entry [OF inv lt nz] .
    then have "p = t" using table_at_inj [OF p(1,2)] eq by metis
    then show False using fresh \<open>tables s t = Some tab\<close> by simp
  qed
  show ?thesis
  proof (rule pt_invI)
    show "page_alloc_ok alloc live avail" by (rule pt_invD(1) [OF inv])
    show "length (pg_dir ?s) = 1024" using len by (simp add: with_table_def)
  next
    fix j assume j: "j < 1024" "pg_dir ?s ! j \<noteq> 0"
    show "\<exists>t. pg_dir ?s ! j = table_at t \<and> t mod 4096 = 0 \<and> KERNBASE \<le> t \<and> t \<in> dom (tables ?s)"
    proof (cases "j = i")
      case True
      then have "pg_dir ?s ! j = table_at p" using dir [OF j(1)] by simp
      moreover have "p \<in> dom (tables ?s)" by (simp add: with_table_def)
      ultimately show ?thesis using p(1,2) by (intro exI [of _ p] conjI)
    next
      case False
      then have eq: "pg_dir ?s ! j = pg_dir s ! j" using dir [OF j(1)] by simp
      obtain t where "pg_dir s ! j = table_at t" "t mod 4096 = 0" "KERNBASE \<le> t"
        "t \<in> dom (tables s)"
        using pt_invD(3) [OF inv j(1)] j(2) unfolding eq by metis
      moreover from this(4) have "t \<in> dom (tables ?s)" by (auto simp: with_table_def)
      ultimately show ?thesis unfolding eq by (intro exI [of _ t] conjI)
    qed
  next
    fix j k assume j: "j < 1024" "k < 1024" "pg_dir ?s ! j \<noteq> 0" "pg_dir ?s ! j = pg_dir ?s ! k"
    show "j = k"
    proof (cases "j = i \<or> k = i")
      case True
      then show ?thesis
        using j(4) dir [OF j(1)] dir [OF j(2)] new [OF j(1)] new [OF j(2)] by metis
    next
      case False
      then show ?thesis
        using j dir [OF j(1)] dir [OF j(2)] pt_invD(4) [OF inv j(1,2)] by simp
    qed
  next
    fix t tab assume "tables ?s t = Some tab"
    then show "length tab = 1024 \<and> t \<in> live (heap ?s)"
      using pt_invD(5,6) [OF inv, of t tab] p(4)
      by (auto simp: with_table_def NPTENTRIES_def split: if_splits)
  qed
qed

lemma with_table_view:
  assumes inv: "pt_inv alloc live avail s" and i: "i < 1024" "pg_dir s ! i = 0"
    and al: "alloc (heap s) = Some (p, h)"
  shows "pt_view (with_table s i p h) = pt_view s"
proof
  let ?s = "with_table s i p h"
  note p = page_alloc_okD [OF pt_invD(1) [OF inv] al] and len = pt_invD(2) [OF inv]
  have fresh: "tables s p = None" using p(3) pt_invD(6) [OF inv] by (metis option.exhaust)
  fix n
  show "pt_view ?s n = pt_view s n"
  proof (cases "n < 1048576")
    case False
    then show ?thesis by (simp add: pt_view_def)
  next
    case True
    then have nd: "n div 1024 < 1024" by (rule div_less_1024)
    consider "n div 1024 = i" | "n div 1024 \<noteq> i" "pg_dir s ! (n div 1024) = 0"
      | "n div 1024 \<noteq> i" "pg_dir s ! (n div 1024) \<noteq> 0" by blast
    then show ?thesis
    proof cases
      case 1
      have "pt_view ?s n = replicate NPTENTRIES 0 ! (n mod 1024)"
        by (rule pt_view_entry [OF _ p(1,2) _ True]) (use 1 i len in \<open>simp_all add: with_table_def\<close>)
      with 1 i show ?thesis by (simp add: pt_view_absent NPTENTRIES_def)
    next
      case 2
      then show ?thesis using len by (simp add: pt_view_absent with_table_def)
    next
      case 3
      obtain u tu where u: "pg_dir s ! (n div 1024) = table_at u" "u mod 4096 = 0" "KERNBASE \<le> u"
        "tables s u = Some tu"
        using pt_inv_entry [OF inv nd 3(2)] .
      then have "u \<noteq> p" using fresh by auto
      then have "pt_view ?s n = tu ! (n mod 1024)"
        by (intro pt_view_entry [OF _ u(2,3) _ True]) (use 3 u len in \<open>simp_all add: with_table_def\<close>)
      then show ?thesis using pt_view_entry [OF u True] by simp
    qed
  qed
qed

section \<open>Mapping pages\<close>

definition pt_budget :: "('h \<Rightarrow> nat) \<Rightarrow> 'h vm \<Rightarrow> nat" where
  "pt_budget avail s = avail (heap s) + card (pt_used s)"

lemma pt_used_with_table:
  assumes "length (pg_dir s) = 1024" "i < 1024" "p mod 4096 = 0" "KERNBASE \<le> p"
  shows "pt_used (with_table s i p h) = insert i (pt_used s)"
  using assms table_at_facts(2) [of p] by (auto simp: pt_used_def with_table_def nth_list_update)

text \<open>The entry for the page is written when it was not present; otherwise the code panics.\<close>

lemma map_page_existing:
  assumes inv: "pt_inv alloc live avail s" and t: "pg_dir s ! (vpn a div 1024) = table_at t"
    "t mod 4096 = 0" "KERNBASE \<le> t" "tables s t = Some tab"
  shows "map_page alloc s a pa pm =
    (if pt_view s (vpn a) AND PRESENT \<noteq> 0 then Inl (Panic ''remap'')
     else Inr (write_pte s (t, vpn a mod 1024) (pte_new pa (pm OR PRESENT)), Some ()))"
  using walk_existing [OF inv t] pt_view_entry [OF t vpn_less] pt_invD(5) [OF inv t(4)] t(4)
  by (simp add: map_page_def read_pte_def deref_table_def pte_present_iff)

lemma map_page_created:
  assumes inv: "pt_inv alloc live avail s" and free: "pg_dir s ! (vpn a div 1024) = 0"
    and al: "alloc (heap s) = Some (p, h)"
  shows "map_page alloc s a pa pm = Inr (write_pte (with_table s (vpn a div 1024) p h)
    (p, vpn a mod 1024) (pte_new pa (pm OR PRESENT)), Some ())"
  using walk_creates [OF inv free al] pt_invD(2) [OF inv]
  by (simp add: map_page_def read_pte_def deref_table_def pte_present_iff with_table_def NPTENTRIES_def)

lemma map_page_exhausted:
  assumes "pt_inv alloc live avail s" "pg_dir s ! (vpn a div 1024) = 0" "alloc (heap s) = None"
  shows "map_page alloc s a pa pm = Inl (Panic ''called Result::unwrap() on an Err value'')"
  using assms pt_invD(2) [OF assms(1)]
  by (simp add: map_page_def walk_page_dir_def pdx_vpn pde_present_iff page_table_zero_boxed_def
      heap_alloc_def)

lemma write_pte_used: "pt_used (write_pte s loc v) = pt_used s"
  by (simp add: pt_used_def write_pte_fields)

lemma map_page_ok:
  assumes inv: "pt_inv alloc live avail s" and run: "map_page alloc s a pa pm = Inr (s', r)"
  shows "r = Some ()" "pt_view s (vpn a) AND PRESENT = 0" "pt_inv alloc live avail s'"
    "pt_view s' = (pt_view s)(vpn a := pte_new pa (pm OR PRESENT))"
    "pt_used s' = insert (vpn a div 1024) (pt_used s)" "pt_budget avail s' = pt_budget avail s"
    "pages s' = pages s" "dir_addr s' = dir_addr s"
proof -
  let ?e = "pte_new pa (pm OR PRESENT)" and ?i = "vpn a div 1024"
  have "r = Some () \<and> pt_view s (vpn a) AND PRESENT = 0 \<and> pt_inv alloc live avail s' \<and>
    pt_view s' = (pt_view s)(vpn a := ?e) \<and> pt_used s' = insert ?i (pt_used s) \<and>
    pt_budget avail s' = pt_budget avail s \<and> pages s' = pages s \<and> dir_addr s' = dir_addr s"
  proof (cases "pg_dir s ! ?i = 0")
    case False
    obtain t tab where t: "pg_dir s ! ?i = table_at t" "t mod 4096 = 0" "KERNBASE \<le> t"
      "tables s t = Some tab"
      using pt_inv_entry [OF inv vpn_div_less False] .
    have "?i \<in> pt_used s" using False by (simp add: pt_used_def)
    then show ?thesis
      using run map_page_existing [OF inv t, of pa pm] write_pte_view [OF inv t vpn_less, of ?e]
        write_pte_inv [OF inv t(4), of "vpn a mod 1024" ?e]
      by (auto simp: write_pte_fields write_pte_used pt_budget_def insert_absorb split: if_splits)
  next
    case True
    obtain p h where al: "alloc (heap s) = Some (p, h)"
      using run map_page_exhausted [OF inv True, of pa pm] by (cases "alloc (heap s)") auto
    let ?t = "with_table s ?i p h"
    note p = page_alloc_okD [OF pt_invD(1) [OF inv] al]
    have inv': "pt_inv alloc live avail ?t" by (rule with_table_inv [OF inv vpn_div_less True al])
    have tab: "tables ?t p = Some (replicate NPTENTRIES 0)" and dir: "pg_dir ?t ! ?i = table_at p"
      using pt_invD(2) [OF inv] by (simp_all add: with_table_def)
    have s': "s' = write_pte ?t (p, vpn a mod 1024) ?e" "r = Some ()"
      using run map_page_created [OF inv True al, of pa pm] by simp_all
    have used: "pt_used s' = insert ?i (pt_used s)"
      unfolding s' write_pte_used by (rule pt_used_with_table [OF pt_invD(2) [OF inv] vpn_div_less p(1,2)])
    have "finite (pt_used s)" "?i \<notin> pt_used s" using True by (simp_all add: pt_used_def)
    then have "pt_budget avail s' = pt_budget avail s"
      using p(5) used by (simp add: pt_budget_def s' write_pte_fields with_table_def)
    moreover have "pt_view s' = (pt_view s)(vpn a := ?e)"
      using write_pte_view [OF inv' dir p(1,2) tab vpn_less] with_table_view [OF inv vpn_div_less True al]
      by (simp add: s')
    moreover have "pt_view s (vpn a) AND PRESENT = 0"
      by (simp add: pt_view_absent [OF True])
    ultimately show ?thesis
      using used s' write_pte_inv [OF inv' tab] by (simp add: write_pte_fields with_table_def)
  qed
  then show "r = Some ()" "pt_view s (vpn a) AND PRESENT = 0" "pt_inv alloc live avail s'"
    "pt_view s' = (pt_view s)(vpn a := ?e)" "pt_used s' = insert ?i (pt_used s)"
    "pt_budget avail s' = pt_budget avail s" "pages s' = pages s" "dir_addr s' = dir_addr s"
    by blast+
qed

lemma map_page_progress:
  assumes inv: "pt_inv alloc live avail s" and free: "pt_view s (vpn a) AND PRESENT = 0"
    and sub: "finite S" "pt_used s \<subseteq> S" "vpn a div 1024 \<in> S" "card S \<le> pt_budget avail s"
  shows "\<exists>s'. map_page alloc s a pa pm = Inr (s', Some ())"
proof (cases "pg_dir s ! (vpn a div 1024) = 0")
  case False
  obtain t tab where t: "pg_dir s ! (vpn a div 1024) = table_at t" "t mod 4096 = 0" "KERNBASE \<le> t"
    "tables s t = Some tab"
    using pt_inv_entry [OF inv vpn_div_less False] .
  show ?thesis using map_page_existing [OF inv t] free by simp
next
  case True
  then have "vpn a div 1024 \<notin> pt_used s" by (simp add: pt_used_def)
  then have "pt_used s \<subset> S" using sub by blast
  then have "card (pt_used s) < card S" using sub(1) by (rule psubset_card_mono [rotated])
  then have "avail (heap s) > 0" using sub(4) by (simp add: pt_budget_def)
  then obtain p h where "alloc (heap s) = Some (p, h)"
    using pt_invD(1) [OF inv] by (cases "alloc (heap s)") (auto simp: page_alloc_ok_def)
  then show ?thesis using map_page_created [OF inv True] by blast
qed

lemma map_page_remap:
  assumes inv: "pt_inv alloc live avail s" and mapped: "pt_view s (vpn a) AND PRESENT \<noteq> 0"
  shows "map_page alloc s a pa pm = Inl (Panic ''remap'')"
proof -
  have "pg_dir s ! (vpn a div 1024) \<noteq> 0"
    using mapped pt_view_absent [of s "vpn a"] by fastforce
  then obtain t tab where t: "pg_dir s ! (vpn a div 1024) = table_at t" "t mod 4096 = 0" "KERNBASE \<le> t"
    "tables s t = Some tab"
    by (rule pt_inv_entry [OF inv vpn_div_less])
  show ?thesis using map_page_existing [OF inv t] mapped by simp
qed

section \<open>The interface for mapping ranges of pages\<close>

text \<open>Mapping \<open>n\<close> consecutive pages one by one with an operation that maps one page.\<close>

primrec put_pages :: "('s \<Rightarrow> usize \<Rightarrow> usize \<Rightarrow> u32 \<Rightarrow> ('s \<times> unit option) res) \<Rightarrow> nat \<Rightarrow> 's \<Rightarrow> usize \<Rightarrow>
  usize \<Rightarrow> u32 \<Rightarrow> ('s \<times> unit option) res" where
  "put_pages put 0 s a pa pm = Ok (s, Some ())"
| "put_pages put (Suc n) s a pa pm = rbind (put s a pa pm) (\<lambda>(s', r).
     case r of None \<Rightarrow> Ok (s', None) | Some _ \<Rightarrow> put_pages put n s' (a + 4096) (pa + 4096) pm)"

definition mapped_view :: "(nat \<Rightarrow> u32) \<Rightarrow> nat \<Rightarrow> nat \<Rightarrow> usize \<Rightarrow> u32 \<Rightarrow> nat \<Rightarrow> u32" where
  "mapped_view v lo n pa pm m = (if lo \<le> m \<and> m < lo + n
     then pte_new (pa + of_nat (m - lo) * 4096) (pm OR PRESENT) else v m)"

lemma mapped_view_0 [simp]: "mapped_view v lo 0 pa pm = v"
  by (auto simp: mapped_view_def fun_eq_iff)

lemma mapped_view_Suc:
  "mapped_view v lo (Suc n) pa pm =
   mapped_view (v(lo := pte_new pa (pm OR PRESENT))) (Suc lo) n (pa + 4096) pm"
proof
  fix m
  have "pa + of_nat (m - lo) * 4096 = pa + 4096 + of_nat (m - Suc lo) * 4096" if "Suc lo \<le> m"
  proof -
    from that have "m - lo = Suc (m - Suc lo)" by simp
    then show ?thesis by (simp add: algebra_simps)
  qed
  then show "mapped_view v lo (Suc n) pa pm m =
    mapped_view (v(lo := pte_new pa (pm OR PRESENT))) (Suc lo) n (pa + 4096) pm m"
    by (auto simp: mapped_view_def)
qed

lemma vpn_next:
  assumes "Suc (vpn a) < 1048576"
  shows "vpn (a + 4096) = Suc (vpn a)"
proof -
  have "unat a div 4096 < 1048575" using assms by (simp add: vpn_def)
  then have "unat a + 4096 < 4294967296" by linarith
  then have "unat (a + 4096) = unat a + 4096"
    by (simp add: unat_word_ariths)
  then show ?thesis by (simp add: vpn_def)
qed

text \<open>
  What \<^verbatim>\<open>map_pages\<close> relies on of one iteration: it writes one entry, only over an entry that is
  not present, never fails for another reason while the budget of page tables covers the
  directory slots \<open>S\<close> in use, and refuses to replace a present entry.
\<close>

locale page_mapper =
  fixes inv :: "'s \<Rightarrow> bool" and view :: "'s \<Rightarrow> nat \<Rightarrow> u32" and used :: "'s \<Rightarrow> nat set"
    and budget :: "'s \<Rightarrow> nat" and frame :: "'s \<Rightarrow> 'f"
    and put :: "'s \<Rightarrow> usize \<Rightarrow> usize \<Rightarrow> u32 \<Rightarrow> ('s \<times> unit option) res"
  assumes put_ok: "inv s \<Longrightarrow> put s a pa pm = Inr (s', r) \<Longrightarrow>
      r = Some () \<and> view s (vpn a) AND PRESENT = 0 \<and> inv s' \<and>
      view s' = (view s)(vpn a := pte_new pa (pm OR PRESENT)) \<and>
      used s' = insert (vpn a div 1024) (used s) \<and> budget s' = budget s \<and> frame s' = frame s"
    and put_progress: "inv s \<Longrightarrow> view s (vpn a) AND PRESENT = 0 \<Longrightarrow> finite S \<Longrightarrow> used s \<subseteq> S \<Longrightarrow>
      vpn a div 1024 \<in> S \<Longrightarrow> card S \<le> budget s \<Longrightarrow> \<exists>s'. put s a pa pm = Inr (s', Some ())"
    and put_remap: "inv s \<Longrightarrow> view s (vpn a) AND PRESENT \<noteq> 0 \<Longrightarrow>
      put s a pa pm = Inl (Panic ''remap'')"
begin

lemma put_pages_ok:
  assumes "inv s" "vpn a + n \<le> 1048576" "put_pages put n s a pa pm = Inr (s', r)"
  shows "r = Some () \<and> inv s' \<and> view s' = mapped_view (view s) (vpn a) n pa pm \<and>
    used s' = used s \<union> (\<lambda>m. m div 1024) ` {vpn a ..< vpn a + n} \<and>
    budget s' = budget s \<and> frame s' = frame s \<and>
    (\<forall>m \<in> {vpn a ..< vpn a + n}. view s m AND PRESENT = 0)"
  using assms
proof (induction n arbitrary: s a pa)
  case 0
  then show ?case by simp
next
  case (Suc n)
  obtain t q where t: "put s a pa pm = Inr (t, q)"
    and rest: "(case q of None \<Rightarrow> Ok (t, None) | Some _ \<Rightarrow> put_pages put n t (a + 4096) (pa + 4096) pm) = Inr (s', r)"
    using Suc.prems(3) by (auto simp: rbind_Ok_iff)
  note p = put_ok [OF Suc.prems(1) t]
  from p rest have rest': "put_pages put n t (a + 4096) (pa + 4096) pm = Inr (s', r)" by simp
  show ?case
  proof (cases "n = 0")
    case True
    with rest' p show ?thesis by (auto simp: mapped_view_Suc)
  next
    case False
    with Suc.prems(2) have nx: "vpn (a + 4096) = Suc (vpn a)" by (intro vpn_next) simp
    have ih: "r = Some () \<and> inv s' \<and> view s' = mapped_view (view t) (Suc (vpn a)) n (pa + 4096) pm \<and>
      used s' = used t \<union> (\<lambda>m. m div 1024) ` {Suc (vpn a) ..< Suc (vpn a) + n} \<and>
      budget s' = budget t \<and> frame s' = frame t \<and>
      (\<forall>m \<in> {Suc (vpn a) ..< Suc (vpn a) + n}. view t m AND PRESENT = 0)"
      using Suc.IH [OF conjunct1 [OF conjunct2 [OF conjunct2 [OF p]]] _ rest'] Suc.prems(2)
      unfolding nx by simp
    have set: "{vpn a ..< vpn a + Suc n} = insert (vpn a) {Suc (vpn a) ..< Suc (vpn a) + n}"
      by auto
    have "\<forall>m \<in> {Suc (vpn a) ..< Suc (vpn a) + n}. view s m AND PRESENT = 0"
      using ih p by (auto simp: fun_upd_def)
    then show ?thesis
      unfolding set using ih p by (simp add: mapped_view_Suc)
  qed
qed

lemma put_pages_progress:
  assumes "inv s" "vpn a + n \<le> 1048576"
    "\<forall>m \<in> {vpn a ..< vpn a + n}. view s m AND PRESENT = 0 \<and> m div 1024 \<in> S"
    "finite S" "used s \<subseteq> S" "card S \<le> budget s"
  shows "\<exists>s'. put_pages put n s a pa pm = Inr (s', Some ())"
  using assms(1-3,5,6)
proof (induction n arbitrary: s a pa)
  case 0
  then show ?case by simp
next
  case (Suc n)
  have "view s (vpn a) AND PRESENT = 0" "vpn a div 1024 \<in> S" using Suc.prems(3) by auto
  then obtain t where t: "put s a pa pm = Inr (t, Some ())"
    using put_progress [of s a S pa pm] Suc.prems assms(4) by blast
  note p = put_ok [OF Suc.prems(1) t]
  have "\<exists>s'. put_pages put n t (a + 4096) (pa + 4096) pm = Inr (s', Some ())"
  proof (cases "n = 0")
    case False
    with Suc.prems(2) have nx: "vpn (a + 4096) = Suc (vpn a)" by (intro vpn_next) simp
    show ?thesis
    proof (rule Suc.IH)
      show "\<forall>m \<in> {vpn (a + 4096) ..< vpn (a + 4096) + n}. view t m AND PRESENT = 0 \<and> m div 1024 \<in> S"
        using Suc.prems(3) p unfolding nx by (auto simp: fun_upd_def)
    qed (use p Suc.prems nx \<open>vpn a div 1024 \<in> S\<close> in auto)
  qed simp
  with t show ?case by simp
qed

end

interpretation kmapper: page_mapper "pt_inv alloc live avail" pt_view pt_used "pt_budget avail"
  "\<lambda>s. (pages s, dir_addr s)" "map_page alloc"
proof (unfold_locales, goal_cases)
  case (1 s a pa pm s' r)
  then show ?case using map_page_ok [OF 1] by simp
next
  case (2 s a S pa pm)
  then show ?case by (rule map_page_progress)
next
  case (3 s a pa pm)
  then show ?case by (rule map_page_remap)
qed

section \<open>The loop of map\_pages\<close>

lemma map_loop_put_pages:
  assumes "unat a + n * 4096 < 4294967296" "lst = a + of_nat n * 4096" "n < fuel"
  shows "map_loop fuel alloc s a lst pa pm = put_pages (map_page alloc) (Suc n) s a pa pm"
  using assms
proof (induction n arbitrary: fuel s a pa)
  case 0
  then obtain f where "fuel = Suc f" by (cases fuel) auto
  with 0 show ?case
    by (auto simp: rbind_def split: sum.split option.split)
next
  case (Suc n)
  then obtain f where f: "fuel = Suc f" "n < f" by (cases fuel) auto
  have "unat (of_nat (Suc n) * 4096 :: usize) = Suc n * 4096"
    using Suc.prems(1) unat_of_nat [of "Suc n * 4096", where 'a = 32] by simp
  then have ne: "a \<noteq> lst"
    using Suc.prems(2) by (auto simp del: of_nat_Suc)
  have up: "unat (a + 4096) = unat a + 4096"
    using Suc.prems(1) by (simp add: unat_word_ariths)
  have "map_loop f alloc t (a + 4096) lst (pa + 4096) pm =
      put_pages (map_page alloc) (Suc n) t (a + 4096) (pa + 4096) pm" for t
  proof (rule Suc.IH)
    show "unat (a + 4096) + n * 4096 < 4294967296" using up Suc.prems(1) by simp
    show "lst = a + 4096 + of_nat n * 4096" using Suc.prems(2) by (simp add: algebra_simps)
  qed (rule f(2))
  then show ?case
    using ne by (simp only: f(1) map_loop.simps put_pages.simps(2) [of _ "Suc n"])
      (auto simp: addr_add_def rbind_def split: sum.split option.split)
qed

definition pages_spanned :: "usize \<Rightarrow> usize \<Rightarrow> nat" where
  "pages_spanned va sz = Suc ((unat va + unat sz - 1) div 4096 - unat va div 4096)"

lemma map_pages_put_pages:
  assumes "sz \<noteq> 0" "unat va + unat sz \<le> 4294967296"
  shows "map_pages alloc s va sz pa pm =
    put_pages (map_page alloc) (pages_spanned va sz) s (va AND NOT 0xFFF) pa pm"
proof -
  let ?a = "va AND NOT 0xFFF" and ?n = "(unat va + unat sz - 1) div 4096 - unat va div 4096"
  let ?e = "va + sz - 1"
  have sz: "unat sz \<ge> 1" using assms(1) by (metis One_nat_def Suc_leI unat_eq_zero neq0_conv)
  then have sz1: "unat (sz - 1) = unat sz - 1"
    using unat_sub [of 1 sz] by (simp add: word_le_nat_alt)
  have "unat va + unat (sz - 1) < 2 ^ LENGTH(32)"
    unfolding sz1 using assms(2) sz by simp
  then have "unat (va + (sz - 1)) = unat va + unat (sz - 1)"
    by (rule unat_add_lem [THEN iffD1])
  then have e: "unat ?e = unat va + unat sz - 1"
    unfolding sz1 add_diff_eq using sz by linarith
  have a: "unat ?a = unat va div 4096 * 4096" by (rule unat_page_floor)
  have l: "unat (?e AND NOT 0xFFF) = (unat va + unat sz - 1) div 4096 * 4096"
    using e by (simp only: unat_page_floor)
  have le: "unat va div 4096 \<le> (unat va + unat sz - 1) div 4096"
    using sz by (intro div_le_mono) simp
  have sum: "unat ?a + ?n * 4096 = (unat va + unat sz - 1) div 4096 * 4096"
    using a le by (simp add: diff_mult_distrib)
  have lt: "unat ?a + ?n * 4096 < 4294967296"
    using l sum unat_less32 [of "?e AND NOT 0xFFF"] by simp
  then have "unat (of_nat ?n * 4096 :: usize) = ?n * 4096"
    using unat_of_nat [of "?n * 4096", where 'a = 32] by simp
  then have "unat (?a + of_nat ?n * 4096) = unat ?a + ?n * 4096"
    using lt by (simp add: unat_word_ariths)
  then have lst: "?e AND NOT 0xFFF = ?a + of_nat ?n * 4096"
    using l sum by (metis word_unat_eq_iff)
  have "?n * 4096 < 1048576 * 4096" using lt by simp
  then have "?n < 2 ^ 20" by simp
  then have "map_loop (2 ^ 20) alloc s ?a (?e AND NOT 0xFFF) pa pm =
      put_pages (map_page alloc) (pages_spanned va sz) s ?a pa pm"
    unfolding pages_spanned_def by (intro map_loop_put_pages lt lst)
  then show ?thesis
    unfolding map_pages_def round_down_page addr_add_def addr_sub_def
    by (simp only: addr_align_one layout_simps rbind_simps mult_1_right)
qed

lemma vpn_page_floor: "vpn (va AND NOT 0xFFF) = vpn va"
  unfolding vpn_def unat_page_floor by simp

lemma vpn_page_floor' [simp]: "vpn (va AND - 4096) = vpn va"
  using vpn_page_floor [of va] by simp

lemma vpn_pages_spanned:
  assumes "sz \<noteq> 0" "unat va + unat sz \<le> 4294967296"
  shows "vpn va + pages_spanned va sz = Suc ((unat va + unat sz - 1) div 4096)"
    "vpn va + pages_spanned va sz \<le> 1048576"
proof -
  have "unat sz \<ge> 1" using assms(1) by (metis One_nat_def Suc_leI unat_eq_zero neq0_conv)
  then have "unat va div 4096 \<le> (unat va + unat sz - 1) div 4096"
    by (intro div_le_mono) simp
  then show eq: "vpn va + pages_spanned va sz = Suc ((unat va + unat sz - 1) div 4096)"
    by (simp add: vpn_def pages_spanned_def)
  have "(unat va + unat sz - 1) div 4096 < 1048576"
    using assms(2) \<open>unat sz \<ge> 1\<close> by (intro less_mult_imp_div_less) simp
  with eq show "vpn va + pages_spanned va sz \<le> 1048576" by simp
qed

text \<open>How the processor reads an entry written by \<^verbatim>\<open>map_pages\<close>.\<close>

lemma or_low_is_plus:
  assumes "(p :: 32 word) mod 4096 = 0"
  shows "p OR (w AND 0xFFF) = p + (w AND 0xFFF)"
proof -
  have "p AND (w AND 0xFFF) = 0"
    by (rule aligned_and_low [OF assms]) (simp add: and.assoc)
  then show ?thesis
    using word_plus_and_or [of p "w AND 0xFFF"] by simp
qed

lemma translate_pte_new:
  assumes inv: "pt_inv alloc live avail s" and pte: "pt_view s (vpn va) = pte_new p (f OR PRESENT)" "p mod 4096 = 0"
  shows "translate s va = Some (p + (va AND 0xFFF), (f OR PRESENT) AND TAB_ENT_FLAG_MASK)"
proof -
  have "pte_new p (f OR PRESENT) AND PRESENT \<noteq> 0"
    unfolding pte_new_present by (simp add: PRESENT_def)
  then show ?thesis
    unfolding translate_view [OF inv] pte(1) pte_new_parts(3,4) [OF pte(2)] or_low_is_plus [OF pte(2)]
    by simp
qed

lemma aligned_iff_unat: "(p :: 32 word) mod 4096 = 0 \<longleftrightarrow> unat p mod 4096 = 0"
  using unat_mod_pow2 [of p 12] by (simp add: unat_eq_zero flip: unat_eq_zero [of "p mod 4096"])

lemma aligned_add_pages:
  assumes "(p :: 32 word) mod 4096 = 0"
  shows "(p + of_nat k * 4096) mod 4096 = 0"
proof -
  have "p + of_nat k * 4096 = of_nat (unat p + k * 4096)" by simp
  then have "unat (p + of_nat k * 4096) = (unat p + k * 4096) mod 2 ^ 32"
    by (simp only: unat_of_nat) simp
  then have "unat (p + of_nat k * 4096) mod 4096 = (unat p + k * 4096) mod 4096"
    by (simp add: mod_mod_cancel)
  with assms show ?thesis unfolding aligned_iff_unat by simp
qed

text \<open>Mapping a range through the code: what it maps and when it succeeds.\<close>

lemma map_pages_ok:
  assumes inv: "pt_inv alloc live avail s" and rng: "sz \<noteq> 0" "unat va + unat sz \<le> 4294967296"
    and run: "map_pages alloc s va sz pa pm = Inr (s', r)"
  shows "r = Some ()" "pt_inv alloc live avail s'"
    "pt_view s' = mapped_view (pt_view s) (vpn va) (pages_spanned va sz) pa pm"
    "pt_used s' = pt_used s \<union> (\<lambda>m. m div 1024) ` {vpn va ..< vpn va + pages_spanned va sz}"
    "pt_budget avail s' = pt_budget avail s" "pages s' = pages s" "dir_addr s' = dir_addr s"
    "\<And>m. vpn va \<le> m \<Longrightarrow> m < vpn va + pages_spanned va sz \<Longrightarrow> pt_view s m AND PRESENT = 0"
  using kmapper.put_pages_ok [OF inv _ run [unfolded map_pages_put_pages [OF rng]]]
    vpn_pages_spanned(2) [OF rng]
  by auto

lemma map_pages_progress:
  assumes inv: "pt_inv alloc live avail s" and rng: "sz \<noteq> 0" "unat va + unat sz \<le> 4294967296"
    and free: "\<And>m. vpn va \<le> m \<Longrightarrow> m < vpn va + pages_spanned va sz \<Longrightarrow>
      pt_view s m AND PRESENT = 0 \<and> m div 1024 \<in> S"
    and S: "finite S" "pt_used s \<subseteq> S" "card S \<le> pt_budget avail s"
  shows "\<exists>s'. map_pages alloc s va sz pa pm = Inr (s', Some ())"
  unfolding map_pages_put_pages [OF rng]
  using free vpn_pages_spanned(2) [OF rng]
  by (intro kmapper.put_pages_progress [OF inv _ _ S]) auto

text \<open>The four ranges of \<^verbatim>\<open>kmap\<close> and the directory slots they use.\<close>

definition kvm_slots :: "nat set" where
  "kvm_slots = {512 ..< 568} \<union> {1016 ..< 1024}"

lemma kvm_slots: "finite kvm_slots" "card kvm_slots = 64"
proof -
  show "finite kvm_slots" by (simp add: kvm_slots_def)
  have "card kvm_slots = card {512 ..< 568::nat} + card {1016 ..< 1024::nat}"
    unfolding kvm_slots_def by (rule card_Un_disjoint) auto
  then show "card kvm_slots = 64" by simp
qed

lemma zero_dir:
  assumes "page_alloc_ok alloc live avail" "\<And>t tab. tables s t = Some tab \<Longrightarrow> length tab = 1024 \<and> t \<in> live (heap s)"
    and "pg_dir s = replicate 1024 0"
  shows "pt_inv alloc live avail s" "pt_view s = (\<lambda>_. 0)" "pt_used s = {}"
proof -
  show "pt_inv alloc live avail s"
    by (rule pt_invI) (use assms in simp_all)
  show "pt_used s = {}" by (simp add: pt_used_def assms(3))
  show "pt_view s = (\<lambda>_. 0)"
  proof
    fix n
    show "pt_view s n = 0"
    proof (cases "n < 1048576")
      case True
      then show ?thesis
        by (intro pt_view_absent) (simp only: assms(3) nth_replicate [OF div_less_1024])
    next
      case False
      then show ?thesis by (simp add: pt_view_def)
    qed
  qed
qed

text \<open>One range of \<^verbatim>\<open>kmap\<close>, page-aligned and inside the kernel slots.\<close>

lemma kmap_range:
  assumes inv: "pt_inv alloc live avail s" and used: "pt_used s \<subseteq> kvm_slots"
    and budget: "64 \<le> pt_budget avail s"
    and va: "unat va mod 4096 = 0" and sz: "unat sz = n * 4096" "0 < n" "unat va + unat sz \<le> 4294967296"
    and slots: "\<And>m. vpn va \<le> m \<Longrightarrow> m < vpn va + n \<Longrightarrow> m div 1024 \<in> kvm_slots"
    and free: "\<And>m. vpn va \<le> m \<Longrightarrow> m < vpn va + n \<Longrightarrow> pt_view s m = 0"
  obtains s' where "map_pages alloc s va sz pa pm = Inr (s', Some ())" "pt_inv alloc live avail s'"
    "pt_view s' = mapped_view (pt_view s) (vpn va) n pa pm" "pt_used s' \<subseteq> kvm_slots"
    "pt_budget avail s' = pt_budget avail s" "pages s' = pages s" "dir_addr s' = dir_addr s"
proof -
  have nz: "sz \<noteq> 0" using sz by auto
  obtain v where v: "unat va = v * 4096" using va by (metis dvd_def mod_eq_0_iff_dvd mult.commute)
  have "(v * 4096 + n * 4096 - 1) div 4096 = v + n - 1"
    using sz(2) by (simp add: div_nat_eqI)
  then have span: "pages_spanned va sz = n"
    using sz by (simp add: pages_spanned_def v)
  obtain s' where run: "map_pages alloc s va sz pa pm = Inr (s', Some ())"
    using map_pages_progress [OF inv nz sz(3) _ kvm_slots(1) used, of pa pm] free slots budget
    by (auto simp: span kvm_slots(2))
  note ok = map_pages_ok [OF inv nz sz(3) run, unfolded span]
  have "pt_used s' \<subseteq> kvm_slots" using ok(4) used slots by auto
  then show thesis using that run ok budget by metis
qed

text \<open>The address space the kernel is meant to have.\<close>

definition kvm_map :: "usize \<Rightarrow> usize \<Rightarrow> (usize \<times> u32) option" where
  "kvm_map data va =
     (if KERNBASE \<le> va \<and> va < KERNBASE + PHYSTOP
      then Some (va - KERNBASE, if KERNLINK \<le> va \<and> va < data then PRESENT else WRITABLE OR PRESENT)
      else if DEVSPACE \<le> va then Some (va, WRITABLE OR PRESENT) else None)"

definition kvm_view :: "nat \<Rightarrow> nat \<Rightarrow> u32" where
  "kvm_view d = mapped_view (mapped_view (mapped_view (mapped_view (\<lambda>_. 0)
     524288 256 0 WRITABLE) 524544 (d - 524544) 0x100000 0)
     d (581632 - d) (of_nat (d - 524288) * 4096) WRITABLE) 1040384 8192 0xFE000000 WRITABLE"

text \<open>The sizes of the four kernel mappings, in pages.\<close>

lemma data_section_sizes:
  assumes "unat data mod 4096 = 0" "0x80100000 < unat data" "unat data < 0x8E000000"
  shows "524544 < vpn data" "vpn data < 581632" "unat data = vpn data * 4096"
    and "data - KERNBASE = of_nat (vpn data - 524288) * 4096"
    and "unat (data - KERNBASE - 0x100000) = (vpn data - 524544) * 4096"
    and "unat (PHYSTOP - (data - KERNBASE)) = (581632 - vpn data) * 4096"
proof -
  define d where "d = vpn data"
  show d: "unat data = vpn data * 4096" using assms(1) by (auto simp: vpn_def)
  show dd: "524544 < vpn data" "vpn data < 581632" using assms d by linarith+
  have pa: "unat (data - KERNBASE) = (d - 524288) * 4096"
    using dd d by (simp add: d_def KERNBASE_def unat_sub word_le_nat_alt diff_mult_distrib)
  have "unat (of_nat ((d - 524288) * 4096) :: usize) = (d - 524288) * 4096"
    using dd by (simp only: unat_of_nat) (simp add: mod_less d_def)
  then show "data - KERNBASE = of_nat (vpn data - 524288) * 4096"
    using pa by (metis d_def of_nat_mult of_nat_numeral word_unat_eq_iff)
  show "unat (data - KERNBASE - 0x100000) = (vpn data - 524544) * 4096"
    using pa dd by (simp add: d_def unat_sub word_le_nat_alt diff_mult_distrib)
  show "unat (PHYSTOP - (data - KERNBASE)) = (581632 - vpn data) * 4096"
    using pa dd by (simp add: d_def PHYSTOP_def unat_sub word_le_nat_alt diff_mult_distrib)
qed

lemma setup_kvm_view:
  assumes al: "page_alloc_ok alloc live avail"
    and tabs: "\<And>t tab. tables s t = Some tab \<Longrightarrow> length tab = 1024 \<and> t \<in> live (heap s)"
    and mem: "65 \<le> avail (heap s)"
    and data: "unat data mod 4096 = 0" "0x80100000 < unat data" "unat data < 0x8E000000"
  obtains s' where "setup_kvm alloc data s = Inr (Some s')" "pt_inv alloc live avail s'"
    "pt_view s' = kvm_view (vpn data)" "pages s' = pages s" "pt_used s' \<subseteq> kvm_slots"
    "Suc (pt_budget avail s') = avail (heap s)"
proof -
  define d where "d = vpn data"
  define pa where "pa = data - KERNBASE"
  note sizes = data_section_sizes [OF data, folded d_def pa_def]
  have vd: "vpn data = d" by (simp add: d_def)
  obtain p h where ph: "alloc (heap s) = Some (p, h)"
    using al mem by (cases "alloc (heap s)") (auto simp: page_alloc_ok_def)
  note pd = page_alloc_okD [OF al ph]
  define s0 where "s0 = s\<lparr>heap := h, dir_addr := p, pg_dir := replicate NPDENTRIES 0\<rparr>"
  have zd: "page_directory_zero_boxed alloc s = Inr s0"
    by (simp add: page_directory_zero_boxed_def heap_alloc_def ph s0_def)
  have s0: "pt_inv alloc live avail s0" "pt_view s0 = (\<lambda>_. 0)" "pt_used s0 = {}"
    using zero_dir [OF al, of s0] tabs pd(4) by (auto simp: s0_def NPDENTRIES_def)
  have b0: "pt_budget avail s0 = avail h" using s0(3) by (simp add: pt_budget_def s0_def)
  have b64: "64 \<le> avail h" using mem pd(5) by simp
  have slots: "m div 1024 \<in> kvm_slots" if "524288 \<le> m \<and> m < 581632 \<or> 1040384 \<le> m \<and> m < 1048576" for m
    using that unfolding kvm_slots_def by (auto simp: div_less_iff_less_mult less_eq_div_iff_mult_less_eq)
  obtain s1 where s1: "map_pages alloc s0 KERNBASE EXTMEM 0 WRITABLE = Inr (s1, Some ())"
    "pt_inv alloc live avail s1" "pt_view s1 = mapped_view (pt_view s0) (vpn KERNBASE) 256 0 WRITABLE"
    "pt_used s1 \<subseteq> kvm_slots" "pt_budget avail s1 = avail h" "pages s1 = pages s0" "dir_addr s1 = dir_addr s0"
    by (rule kmap_range [OF s0(1), of KERNBASE EXTMEM 256 0 WRITABLE])
      (use s0 b0 b64 slots in \<open>auto simp: vpn_def layout_consts\<close>)
  obtain s2 where s2: "map_pages alloc s1 KERNLINK (pa - 0x100000) 0x100000 0 = Inr (s2, Some ())"
    "pt_inv alloc live avail s2"
    "pt_view s2 = mapped_view (pt_view s1) (vpn KERNLINK) (d - 524544) 0x100000 0"
    "pt_used s2 \<subseteq> kvm_slots" "pt_budget avail s2 = avail h" "pages s2 = pages s1" "dir_addr s2 = dir_addr s1"
    by (rule kmap_range [OF s1(2,4), of KERNLINK "pa - 0x100000" "d - 524544" "0x100000" 0])
      (use s0 s1(3,5) b64 slots sizes(1,2,5) in \<open>auto simp: vpn_def layout_consts mapped_view_def\<close>)
  obtain s3 where s3: "map_pages alloc s2 data (PHYSTOP - pa) pa WRITABLE = Inr (s3, Some ())"
    "pt_inv alloc live avail s3"
    "pt_view s3 = mapped_view (pt_view s2) (vpn data) (581632 - d) pa WRITABLE"
    "pt_used s3 \<subseteq> kvm_slots" "pt_budget avail s3 = avail h" "pages s3 = pages s2" "dir_addr s3 = dir_addr s2"
    by (rule kmap_range [OF s2(2,4), of data "PHYSTOP - pa" "581632 - d" pa WRITABLE])
      (use s0 s1(3) s2(3,5) b64 slots sizes(1,2,3,6) vd data(1) in \<open>auto simp: vpn_def layout_consts mapped_view_def\<close>)
  obtain s4 where s4: "map_pages alloc s3 DEVSPACE (0 - DEVSPACE) DEVSPACE WRITABLE = Inr (s4, Some ())"
    "pt_inv alloc live avail s4"
    "pt_view s4 = mapped_view (pt_view s3) (vpn DEVSPACE) 8192 DEVSPACE WRITABLE"
    "pt_used s4 \<subseteq> kvm_slots" "pt_budget avail s4 = avail h" "pages s4 = pages s3" "dir_addr s4 = dir_addr s3"
    by (rule kmap_range [OF s3(2,4), of DEVSPACE "0 - DEVSPACE" 8192 DEVSPACE WRITABLE])
      (use s0 s1(3) s2(3) s3(3,5) b64 slots sizes(1,2) vd in \<open>auto simp: vpn_def layout_consts mapped_view_def\<close>)
  have "v2p data = Inr pa" "v2p KERNLINK = Inr 0x100000" "p2v PHYSTOP = Inr 0x8E000000"
    using v2p_Ok [of data] data(2) by (simp_all add: pa_def v2p_def p2v_def checked_add_def checked_sub_def layout_consts word_le_nat_alt)
  then have "setup_kvm alloc data s = Inr (Some s4)"
    using zd s1(1) s2(1) s3(1) s4(1)
    by (simp add: setup_kvm_def kmap_of_def DEVSPACE_def)
  moreover have "pt_view s4 = kvm_view (vpn data)"
    unfolding s4(3) s3(3) s2(3) s1(3) s0(2) kvm_view_def vd sizes(4)
    by (simp add: vpn_def layout_consts)
  moreover have "pages s4 = pages s" using s4 s3 s2 s1 by (simp add: s0_def)
  ultimately show thesis using that s4 pd(5) by metis
qed

lemma va_parts: "va = of_nat (vpn va) * 4096 + (va AND 0xFFF)"
proof -
  have "va AND NOT 0xFFF = of_nat (vpn va) * 4096"
  proof (rule word_unat_eq_iff [THEN iffD2])
    have "unat va div 4096 * 4096 < 4294967296" using unat_less32 [of va] by linarith
    then have "unat (of_nat (vpn va * 4096) :: usize) = vpn va * 4096"
      by (simp only: unat_of_nat vpn_def) simp
    then show "unat (va AND NOT 0xFFF) = unat (of_nat (vpn va) * 4096 :: usize)"
      unfolding unat_page_floor by (simp add: vpn_def)
  qed
  then show ?thesis using and_not_plus_and [of va "0xFFF"] by simp
qed

lemma page_offset_back:
  assumes "k \<le> vpn va"
  shows "of_nat (vpn va - k) * 4096 + (va AND 0xFFF) = va - of_nat k * 4096"
proof -
  have "of_nat (vpn va) * 4096 = of_nat (vpn va - k) * 4096 + (of_nat k * 4096 :: usize)"
    using assms by (metis distrib_right le_add_diff_inverse2 of_nat_add)
  then have "of_nat (vpn va - k) * 4096 + (va AND 0xFFF) + of_nat k * 4096 = va"
    using va_parts [of va] by (simp add: ac_simps)
  then show ?thesis by (simp only: eq_diff_eq)
qed

lemma aligned_pages: "(of_nat k * 4096 :: 32 word) mod 4096 = 0"
  using aligned_add_pages [of 0 k] by simp

lemma kvm_view_cases:
  assumes "524544 < d" "d < 581632" "m < 1048576"
  shows "kvm_view d m =
    (if 1040384 \<le> m then pte_new (0xFE000000 + of_nat (m - 1040384) * 4096) (WRITABLE OR PRESENT)
     else if 524288 \<le> m \<and> m < 581632
     then pte_new (of_nat (m - 524288) * 4096)
            ((if 524544 \<le> m \<and> m < d then 0 else WRITABLE) OR PRESENT)
     else 0)"
proof -
  have 1: "of_nat (d - 524288) * 4096 + of_nat (m - d) * 4096 = (of_nat (m - 524288) * 4096 :: usize)"
    if "d \<le> m"
  proof -
    have "(of_nat ((d - 524288) * 4096 + (m - d) * 4096) :: usize) = of_nat ((m - 524288) * 4096)"
      using that assms(1) by (intro arg_cong [where f = of_nat]) simp
    then show ?thesis by simp
  qed
  have 2: "0x100000 + of_nat (m - 524544) * 4096 = (of_nat (m - 524288) * 4096 :: usize)"
    if "524544 \<le> m"
  proof -
    have "(of_nat (0x100000 + (m - 524544) * 4096) :: usize) = of_nat ((m - 524288) * 4096)"
      using that by (intro arg_cong [where f = of_nat]) simp
    then show ?thesis by simp
  qed
  show ?thesis
    using assms 1 2 by (auto simp: kvm_view_def mapped_view_def)
qed

lemma vpn_le_iff: "unat b mod 4096 = 0 \<Longrightarrow> vpn b \<le> vpn va \<longleftrightarrow> b \<le> va"
proof -
  assume "unat b mod 4096 = 0"
  then have "unat b div 4096 * 4096 = unat b" by (metis add.right_neutral div_mult_mod_eq)
  then show ?thesis
    unfolding vpn_def word_le_nat_alt by (metis div_le_mono div_mult2_eq less_eq_div_iff_mult_less_eq zero_less_numeral)
qed

lemma flag_values:
  "(WRITABLE OR PRESENT) AND TAB_ENT_FLAG_MASK = WRITABLE OR PRESENT"
  "(0 OR PRESENT) AND TAB_ENT_FLAG_MASK = PRESENT" "PRESENT AND TAB_ENT_FLAG_MASK = PRESENT"
  "((WRITABLE OR USER) OR PRESENT) AND TAB_ENT_FLAG_MASK = WRITABLE OR USER OR PRESENT"
  by (simp_all add: flag_consts)

lemma kvm_view_translate:
  assumes inv: "pt_inv alloc live avail s" and view: "pt_view s = kvm_view (vpn data)"
    and data: "unat data mod 4096 = 0" "0x80100000 < unat data" "unat data < 0x8E000000"
  shows "translate s va = kvm_map data va"
proof -
  have vd: "524544 < vpn data" "vpn data < 581632"
    using data by (auto simp: vpn_def)
  note v = kvm_view_cases [OF vd vpn_less, of va]
  have b: "524288 \<le> vpn va \<longleftrightarrow> KERNBASE \<le> va" "524544 \<le> vpn va \<longleftrightarrow> KERNLINK \<le> va"
    "581632 \<le> vpn va \<longleftrightarrow> KERNBASE + PHYSTOP \<le> va" "1040384 \<le> vpn va \<longleftrightarrow> DEVSPACE \<le> va"
    "vpn data \<le> vpn va \<longleftrightarrow> data \<le> va"
    using vpn_le_iff [of KERNBASE va] vpn_le_iff [of KERNLINK va] vpn_le_iff [of "KERNBASE + PHYSTOP" va]
      vpn_le_iff [of DEVSPACE va] vpn_le_iff [OF data(1), of va]
    by (simp_all add: layout_consts vpn_def)
  consider "DEVSPACE \<le> va" | "\<not> DEVSPACE \<le> va" "KERNBASE \<le> va \<and> va < KERNBASE + PHYSTOP"
    | "\<not> DEVSPACE \<le> va" "\<not> (KERNBASE \<le> va \<and> va < KERNBASE + PHYSTOP)" by blast
  then show ?thesis
  proof cases
    case 1
    then have k: "1040384 \<le> vpn va" using b by simp
    have "translate s va = Some (0xFE000000 + of_nat (vpn va - 1040384) * 4096 + (va AND 0xFFF),
        (WRITABLE OR PRESENT) AND TAB_ENT_FLAG_MASK)"
      by (rule translate_pte_new [OF inv]) (use view v k aligned_add_pages [of "0xFE000000"] in \<open>simp_all del: of_nat_diff\<close>)
    moreover have "0xFE000000 + of_nat (vpn va - 1040384) * 4096 + (va AND 0xFFF) = va"
      using page_offset_back [OF k] by (simp add: add.assoc)
    moreover have "\<not> va < KERNBASE + PHYSTOP" using 1 by (simp add: layout_consts word_le_nat_alt word_less_nat_alt)
    ultimately show ?thesis using 1 by (simp add: kvm_map_def flag_values)
  next
    case 2
    then have k: "524288 \<le> vpn va" "vpn va < 581632" "\<not> 1040384 \<le> vpn va" using b by auto
    let ?f = "if 524544 \<le> vpn va \<and> vpn va < vpn data then 0 else WRITABLE"
    have "translate s va = Some (of_nat (vpn va - 524288) * 4096 + (va AND 0xFFF),
        (?f OR PRESENT) AND TAB_ENT_FLAG_MASK)"
      by (rule translate_pte_new [OF inv]) (use view v k aligned_pages in \<open>simp_all del: of_nat_diff\<close>)
    moreover have "of_nat (vpn va - 524288) * 4096 + (va AND 0xFFF) = va - KERNBASE"
      using page_offset_back [OF k(1)] by (simp add: KERNBASE_def)
    ultimately show ?thesis
      using 2 b by (auto simp: kvm_map_def flag_values not_le simp flip: not_le)
  next
    case 3
    then have "pt_view s (vpn va) = 0" using v view b by auto
    with 3 show ?thesis by (simp add: translate_view [OF inv] kvm_map_def)
  qed
qed

section \<open>The first user page\<close>

lemma heap_step_inv:
  assumes inv: "pt_inv alloc live avail s" and al: "alloc (heap s) = Some (p, h)"
  shows "pt_inv alloc live avail (s\<lparr>heap := h, pages := q\<rparr>)"
    "pt_view (s\<lparr>heap := h, pages := q\<rparr>) = pt_view s" "pt_used (s\<lparr>heap := h, pages := q\<rparr>) = pt_used s"
proof -
  note p = page_alloc_okD [OF pt_invD(1) [OF inv] al]
  show "pt_inv alloc live avail (s\<lparr>heap := h, pages := q\<rparr>)"
  proof (rule pt_invI)
    show "page_alloc_ok alloc live avail" by (rule pt_invD(1) [OF inv])
  qed (use pt_invD(2-6) [OF inv] p(4) in auto)
  show "pt_view (s\<lparr>heap := h, pages := q\<rparr>) = pt_view s"
    by (simp add: pt_view_def fun_eq_iff)
  show "pt_used (s\<lparr>heap := h, pages := q\<rparr>) = pt_used s"
    by (simp add: pt_used_def)
qed

lemma pt_inv_pages: "pt_inv alloc live avail (s\<lparr>pages := ps\<rparr>) \<longleftrightarrow> pt_inv alloc live avail s"
  by (simp add: pt_inv_def pt_used_def)

lemma uvm_init_ok:
  assumes inv: "pt_inv alloc live avail s" and code: "length init_code < 4096"
    and free: "pt_view s 0 AND PRESENT = 0" and mem: "2 \<le> avail (heap s)"
  obtains s' m where "uvm_init alloc s init_code = Inr s'" "KERNBASE \<le> m" "m mod 4096 = 0"
    "m \<notin> live (heap s)" "pt_view s' = (pt_view s)(0 := pte_new (m - KERNBASE) ((WRITABLE OR USER) OR PRESENT))"
    "pages s' = (pages s)(m \<mapsto> init_code @ replicate (4096 - length init_code) 0)"
    "dir_addr s' = dir_addr s" "pt_inv alloc live avail s'"
proof -
  obtain m h where al: "alloc (heap s) = Some (m, h)"
    using pt_invD(1) [OF inv] mem by (cases "alloc (heap s)") (auto simp: page_alloc_ok_def)
  note m = page_alloc_okD [OF pt_invD(1) [OF inv] al]
  define t where "t = s\<lparr>heap := h, pages := (pages s)(m \<mapsto> replicate 4096 0)\<rparr>"
  have t: "pt_inv alloc live avail t" "pt_view t = pt_view s" "pt_used t = pt_used s"
    unfolding t_def by (rule heap_step_inv [OF inv al])+
  have av: "1 \<le> avail (heap t)" using mem m(5) by (simp add: t_def)
  have fin: "finite (pt_used t)" by (simp add: pt_used_def)
  have "\<exists>t'. map_pages alloc t 0 PAGE_SIZE (m - KERNBASE) (WRITABLE OR USER) = Inr (t', Some ())"
  proof (rule map_pages_progress [OF t(1)])
    show "card (insert 0 (pt_used t)) \<le> pt_budget avail t"
      using av fin by (simp add: pt_budget_def card_insert_if)
  qed (use fin free t in \<open>auto simp: vpn_def pages_spanned_def PAGE_SIZE_def\<close>)
  then obtain t' where run: "map_pages alloc t 0 PAGE_SIZE (m - KERNBASE) (WRITABLE OR USER) = Inr (t', Some ())"
    by blast
  have rng: "PAGE_SIZE \<noteq> 0" "unat (0::usize) + unat PAGE_SIZE \<le> 4294967296"
    by (simp_all add: PAGE_SIZE_def)
  note ok = map_pages_ok [OF t(1) rng run]
  define s' where "s' = t'\<lparr>pages := (pages t')(m := map_option (\<lambda>bs. init_code @ drop (length init_code) bs) (pages t' m))\<rparr>"
  have "m \<noteq> 0" using m(2) by (auto simp: KERNBASE_def)
  then have "uvm_init alloc s init_code = Inr s'"
    using code al run v2p_Ok [OF m(2)]
    by (simp add: uvm_init_def kalloc_def heap_alloc_def s'_def t_def PAGE_SIZE_def)
  moreover have "pt_view s' = (pt_view s)(0 := pte_new (m - KERNBASE) ((WRITABLE OR USER) OR PRESENT))"
  proof -
    have "pt_view s' = pt_view t'" by (simp add: pt_view_def s'_def fun_eq_iff)
    also have "\<dots> = (pt_view s)(0 := pte_new (m - KERNBASE) ((WRITABLE OR USER) OR PRESENT))"
      unfolding ok(3) t(2) by (auto simp: mapped_view_def vpn_def pages_spanned_def PAGE_SIZE_def fun_eq_iff)
    finally show ?thesis .
  qed
  moreover have "pages s' = (pages s)(m \<mapsto> init_code @ replicate (4096 - length init_code) 0)"
    using ok(6) by (simp add: s'_def t_def)
  moreover have "dir_addr s' = dir_addr s" "pt_inv alloc live avail s'"
    using ok(2,7) by (simp_all add: s'_def t_def pt_inv_pages)
  ultimately show thesis using that m by metis
qed

end
