(* ===== verification/Address_Space.thy ===== *)
theory Address_Space
  imports Kvm
begin

text \<open>
  What the page table construction guarantees: termination of \<^verbatim>\<open>map_pages\<close>, the address spaces built
  by \<^verbatim>\<open>setup_kvm\<close>, \<^verbatim>\<open>uvm::init\<close> and the boot page directory of \<^verbatim>\<open>kernel/src/main.rs\<close>, and the round
  trips of entries and addresses.
\<close>

lemma page_floor_vpn: "va AND NOT 0xFFF = of_nat (vpn va) * 4096"
  using va_parts [of "va AND NOT 0xFFF"] unfolding vpn_page_floor by (simp only: and.assoc) simp

section \<open>Termination of map\_pages\<close>

lemma map_page_not_Spin: "map_page alloc s a pa pm \<noteq> Inl Spin"
  by (auto simp: map_page_def walk_page_dir_def page_table_zero_boxed_def heap_alloc_def read_pte_def
      deref_table_def rindex_def pde_addr_def addr_from_raw_def addr_from_def p2v_def v2p_def
      checked_add_def checked_sub_def rassert_def rbind_def split: sum.splits option.splits if_splits)

lemma page_gap:
  fixes a :: usize
  assumes "unat a mod 4096 = 0" "unat lst mod 4096 = 0" "a \<noteq> lst"
  shows "unat (a + 4096) mod 4096 = 0"
    "unat (lst - a) div 4096 = Suc (unat (lst - (a + 4096)) div 4096)"
proof -
  have d: "4096 dvd unat a" "4096 dvd unat lst" using assms(1,2) by auto
  have big: "4096 dvd (4294967296 :: nat)" by simp
  have "4096 dvd (unat a + 4096) mod 4294967296"
    using d(1) big by (intro dvd_mod dvd_add) auto
  then show "unat (a + 4096) mod 4096 = 0" by (simp add: unat_word_ariths)
  have "4096 dvd unat (lst - a)"
  proof (cases "a \<le> lst")
    case True
    then show ?thesis using d by (simp add: unat_sub)
  next
    case False
    then have "unat (lst - a) = unat lst + 4294967296 - unat a"
      by (simp add: unat_sub_if' word_le_nat_alt)
    then show ?thesis using d big by (metis dvd_add dvd_diff_nat)
  qed
  moreover have "unat (lst - a) \<noteq> 0" using assms(3) by (simp add: unat_eq_zero)
  ultimately have ge: "4096 \<le> unat (lst - a)" by (meson dvd_imp_le neq0_conv)
  have "lst - (a + 4096) = (lst - a) - 4096" by simp
  then have "unat (lst - (a + 4096)) = unat (lst - a) - 4096"
    using ge unat_sub [of 4096 "lst - a"] by (simp only:) (simp add: word_le_nat_alt)
  with ge show "unat (lst - a) div 4096 = Suc (unat (lst - (a + 4096)) div 4096)"
    by (simp add: le_div_geq)
qed

lemma map_loop_not_Spin:
  assumes "unat a mod 4096 = 0" "unat lst mod 4096 = 0" "unat (lst - a) div 4096 < fuel"
  shows "map_loop fuel alloc s a lst pa pm \<noteq> Inl Spin"
  using assms
proof (induction fuel arbitrary: s a pa)
  case (Suc n)
  show ?case
  proof (cases "map_page alloc s a pa pm")
    case (Inl f)
    then show ?thesis using map_page_not_Spin [of alloc s a pa pm] by auto
  next
    case (Inr r)
    obtain s' q where r: "r = (s', q)" by fastforce
    show ?thesis
    proof (cases "q = None \<or> a = lst")
      case True
      then show ?thesis using Inr r by (auto split: option.splits)
    next
      case False
      then obtain u where "q = Some u" "a \<noteq> lst" by auto
      moreover have "map_loop n alloc s' (a + 4096) lst (pa + 4096) pm \<noteq> Inl Spin"
        using page_gap [OF Suc.prems(1,2)] calculation(2) Suc.prems by (intro Suc.IH) auto
      ultimately show ?thesis using Inr r by (simp add: addr_add_def)
    qed
  qed
qed simp

section \<open>Properties\<close>

text \<open>C3. The kernel half of every address space. With 65 free page frames \<^verbatim>\<open>setup_kvm\<close> succeeds,
  and the processor then translates every virtual address as the memory map of the kernel
  prescribes: physical memory at \<^verbatim>\<open>KERNBASE\<close>, read-only between \<^verbatim>\<open>KERNLINK\<close> and the data section and
  writable elsewhere, the devices at their own address, and nothing else.\<close>

theorem setup_kvm_address_space:
  assumes "page_alloc_ok alloc live avail"
    and "\<And>t tab. tables s t = Some tab \<Longrightarrow> length tab = 1024 \<and> t \<in> live (heap s)"
    and "65 \<le> avail (heap s)"
    and "unat data mod 4096 = 0" "KERNLINK < data" "data < KERNBASE + PHYSTOP"
  shows "\<exists>s'. setup_kvm alloc data s = Inr (Some s') \<and> (\<forall>va. translate s' va = kvm_map data va)"
proof -
  have "0x80100000 < unat data" "unat data < 0x8E000000"
    using assms(5,6) by (simp_all add: layout_consts word_less_nat_alt)
  note data = assms(4) this
  obtain s' where "setup_kvm alloc data s = Inr (Some s')" "pt_inv alloc live avail s'"
    "pt_view s' = kvm_view (vpn data)"
    using setup_kvm_view [OF assms(1-3) data] .
  then show ?thesis using kvm_view_translate [OF _ _ data] by blast
qed

text \<open>An allocator that satisfies the hypothesis: it hands out the pages above 4 MiB in order.\<close>

definition bump_alloc :: "nat page_alloc" where
  "bump_alloc h = (if h < 100 then Some (0x80400000 + of_nat h * 4096, Suc h) else None)"

definition bump_live :: "nat \<Rightarrow> usize set" where
  "bump_live h = (\<lambda>k. 0x80400000 + of_nat k * 4096) ` {..< min h 100}"

definition bump_vm :: "nat vm" where
  "bump_vm = \<lparr>dir_addr = 0, pg_dir = replicate 1024 0, tables = Map.empty, pages = Map.empty, heap = 0\<rparr>"

lemma unat_bump: "k < 100 \<Longrightarrow> unat (0x80400000 + of_nat k * 4096 :: usize) = 0x80400000 + k * 4096"
  by (simp add: unat_word_ariths unat_of_nat)

lemma bump_alloc_ok: "page_alloc_ok bump_alloc bump_live (\<lambda>h. 100 - h)"
proof -
  have inj: "h = k" if "0x80400000 + of_nat h * 4096 = (0x80400000 + of_nat k * 4096 :: usize)" "h < 100" "k < 100"
    for h k
  proof -
    have "0x80400000 + h * 4096 = 0x80400000 + k * 4096"
      unfolding unat_bump [OF that(2), symmetric] unat_bump [OF that(3), symmetric] that(1) ..
    then show ?thesis by simp
  qed
  have live: "bump_live (Suc h) = insert (0x80400000 + of_nat h * 4096) (bump_live h)" if "h < 100" for h
    using that by (simp add: bump_live_def min_def lessThan_Suc)
  have fresh: "0x80400000 + of_nat h * 4096 \<notin> bump_live h" if "h < 100" for h
  proof
    assume "0x80400000 + of_nat h * 4096 \<in> bump_live h"
    then obtain k where k: "k \<in> {..< min h 100}"
      "0x80400000 + of_nat h * 4096 = (0x80400000 + of_nat k * 4096 :: usize)"
      unfolding bump_live_def by (rule imageE)
    then have "k < h" by simp
    with k show False using inj [of h k] that by simp
  qed
  have "(0x80400000 + of_nat h * 4096 :: usize) mod 4096 = 0" for h
    by (rule aligned_add_pages) simp
  moreover have "KERNBASE \<le> 0x80400000 + of_nat h * 4096" if "h < 100" for h
    using unat_bump [OF that] by (simp add: word_le_nat_alt KERNBASE_def)
  ultimately have "p mod 4096 = 0 \<and> KERNBASE \<le> p \<and> p \<notin> bump_live h
      \<and> bump_live h' = insert p (bump_live h) \<and> 100 - h = Suc (100 - h')"
    if "bump_alloc h = Some (p, h')" for h p h'
    using that live fresh Suc_diff_Suc [of h 100] by (auto simp only: bump_alloc_def split: if_splits)
  moreover have "100 - h = 0" if "bump_alloc h = None" for h
    using that by (simp add: bump_alloc_def split: if_splits)
  ultimately show ?thesis unfolding page_alloc_ok_def by blast
qed

lemma bump_vm_inv: "pt_inv bump_alloc bump_live (\<lambda>h. 100 - h) bump_vm" "pt_view bump_vm = (\<lambda>_. 0)"
  "pt_used bump_vm = {}"
  by (rule zero_dir [OF bump_alloc_ok]; simp add: bump_vm_def)+

theorem setup_kvm_address_space_witness:
  "\<exists>s'. setup_kvm bump_alloc 0x80108000 bump_vm = Inr (Some s') \<and> translate s' 0x80000FFF = Some (0xFFF, 3)
     \<and> translate s' 0x80107010 = Some (0x107010, 1) \<and> translate s' 0x80108000 = Some (0x108000, 3)
     \<and> translate s' 0xFEE00020 = Some (0xFEE00020, 3) \<and> translate s' 0x1000 = None"
  using setup_kvm_address_space [OF bump_alloc_ok, of bump_vm "0x80108000"]
  by (auto simp: bump_vm_def kvm_map_def layout_consts flag_consts)

text \<open>C6. The address space of the first process, as \<^verbatim>\<open>user_init\<close> builds it: after \<^verbatim>\<open>setup_kvm\<close> and
  \<^verbatim>\<open>uvm::init\<close> the first page of user space maps a fresh page that holds the initial program padded
  with zeros, readable and writable in user mode, and the rest is the kernel's memory map.\<close>

theorem user_address_space:
  assumes "page_alloc_ok alloc live avail"
    and "\<And>t tab. tables s t = Some tab \<Longrightarrow> length tab = 1024 \<and> t \<in> live (heap s)"
    and "67 \<le> avail (heap s)"
    and "unat data mod 4096 = 0" "KERNLINK < data" "data < KERNBASE + PHYSTOP"
    and "length init_code < 4096"
  shows "\<exists>s1 s2 m. setup_kvm alloc data s = Inr (Some s1) \<and> uvm_init alloc s1 init_code = Inr s2
    \<and> m \<notin> live (heap s1)
    \<and> pages s2 = (pages s)(m \<mapsto> init_code @ replicate (4096 - length init_code) 0)
    \<and> (\<forall>va. translate s2 va =
         (if va < 4096 then Some (m - KERNBASE + va, USER OR WRITABLE OR PRESENT) else kvm_map data va))"
proof -
  have "0x80100000 < unat data" "unat data < 0x8E000000"
    using assms(5,6) by (simp_all add: layout_consts word_less_nat_alt)
  note data = assms(4) this
  have mem: "65 \<le> avail (heap s)" using assms(3) by simp
  obtain s1 where s1: "setup_kvm alloc data s = Inr (Some s1)" "pt_inv alloc live avail s1"
    "pt_view s1 = kvm_view (vpn data)" "pages s1 = pages s" "pt_used s1 \<subseteq> kvm_slots"
    "Suc (pt_budget avail s1) = avail (heap s)"
    using setup_kvm_view [OF assms(1,2) mem data] .
  have "card (pt_used s1) \<le> 64" using card_mono [OF kvm_slots(1) s1(5)] kvm_slots(2) by simp
  then have av: "2 \<le> avail (heap s1)" using s1(6) assms(3) by (simp add: pt_budget_def)
  have "pt_view s1 0 = 0"
    unfolding s1(3) using kvm_view_cases [OF data_section_sizes(1,2) [OF data], of 0] by simp
  then have free: "pt_view s1 0 AND PRESENT = 0" by simp
  obtain s2 m where s2: "uvm_init alloc s1 init_code = Inr s2" "KERNBASE \<le> m" "m mod 4096 = 0"
    "m \<notin> live (heap s1)" "pt_view s2 = (pt_view s1)(0 := pte_new (m - KERNBASE) ((WRITABLE OR USER) OR PRESENT))"
    "pages s2 = (pages s1)(m \<mapsto> init_code @ replicate (4096 - length init_code) 0)"
    "dir_addr s2 = dir_addr s1" "pt_inv alloc live avail s2"
    by (rule uvm_init_ok [OF s1(2) assms(7) free av])
  have "translate s2 va = (if va < 4096 then Some (m - KERNBASE + va, USER OR WRITABLE OR PRESENT)
      else kvm_map data va)" for va
  proof (cases "va < 4096")
    case True
    then have "vpn va = 0" by (simp add: vpn_def word_less_nat_alt)
    moreover from this have "va AND 0xFFF = va" using va_parts [of va] by simp
    ultimately show ?thesis
      using translate_pte_new [OF s2(8), of va "m - KERNBASE" "WRITABLE OR USER"] s2(5) True
        kernel_addr_aligned(1) [OF s2(3,2)]
      by (simp add: flag_consts)
  next
    case False
    then have "vpn va \<noteq> 0" by (simp add: vpn_def word_less_nat_alt)
    then have "translate s2 va = translate s1 va"
      using s2(5) by (simp add: translate_view [OF s2(8)] translate_view [OF s1(2)])
    then show ?thesis using False kvm_view_translate [OF s1(2,3) data] by simp
  qed
  then show ?thesis using s1 s2 by auto
qed

theorem user_address_space_witness:
  "\<exists>s1 s2 m. setup_kvm bump_alloc 0x80108000 bump_vm = Inr (Some s1)
     \<and> uvm_init bump_alloc s1 [0x90, 0xC3] = Inr s2
     \<and> map_option (take 3) (pages s2 m) = Some [0x90, 0xC3, 0]
     \<and> translate s2 1 = Some (m - KERNBASE + 1, 7) \<and> translate s2 0x80108000 = Some (0x108000, 3)"
proof -
  obtain s1 s2 m where r: "setup_kvm bump_alloc 0x80108000 bump_vm = Inr (Some s1)"
    "uvm_init bump_alloc s1 [0x90, 0xC3] = Inr s2"
    "pages s2 = (pages bump_vm)(m \<mapsto> [0x90, 0xC3] @ replicate (4096 - length [0x90, 0xC3 :: u8]) 0)"
    "\<forall>va. translate s2 va = (if va < 4096 then Some (m - KERNBASE + va, USER OR WRITABLE OR PRESENT)
       else kvm_map 0x80108000 va)"
    using user_address_space [OF bump_alloc_ok, of bump_vm "0x80108000" "[0x90, 0xC3]"]
    by (auto simp: bump_vm_def layout_consts)
  then show ?thesis
    by (intro exI [of _ s1] exI [of _ s2] exI [of _ m])
      (simp add: kvm_map_def layout_consts flag_consts take_Cons')
qed

text \<open>C16. Mapping a range. When \<^verbatim>\<open>map_pages\<close> returns, it reports success, no page of the range was
  mapped before, every address of the pages that \<open>va\<close> to \<open>va + sz - 1\<close> touch is translated at its
  offset from \<open>pa\<close> with the given permissions, and every other translation is as before.\<close>

theorem map_pages_translates:
  assumes "pt_inv alloc live avail s" "sz \<noteq> 0" "unat va + unat sz \<le> 2 ^ 32" "pa mod 4096 = 0"
    and "map_pages alloc s va sz pa pm = Inr (s', r)"
  shows "r = Some () \<and> (\<forall>v. translate s' v =
      (if vpn va \<le> vpn v \<and> vpn v \<le> (unat va + unat sz - 1) div 4096
       then Some (pa + (v - (va AND NOT 0xFFF)), (pm OR PRESENT) AND TAB_ENT_FLAG_MASK)
       else translate s v)) \<and>
    (\<forall>v. vpn va \<le> vpn v \<and> vpn v \<le> (unat va + unat sz - 1) div 4096 \<longrightarrow> translate s v = None)"
proof -
  have rng: "unat va + unat sz \<le> 4294967296" using assms(3) by simp
  note ok = map_pages_ok [OF assms(1,2) rng assms(5)]
  have inside: "vpn v < vpn va + pages_spanned va sz \<longleftrightarrow> vpn v \<le> (unat va + unat sz - 1) div 4096"
    if "vpn va \<le> vpn v" for v
  proof -
    have "unat sz \<noteq> 0" using assms(2) by (simp add: unat_eq_zero)
    then have "vpn va \<le> (unat va + unat sz - 1) div 4096"
      unfolding vpn_def by (intro div_le_mono) simp
    then show ?thesis by (auto simp: pages_spanned_def vpn_def)
  qed
  have "translate s' v = Some (pa + (v - (va AND NOT 0xFFF)), (pm OR PRESENT) AND TAB_ENT_FLAG_MASK)"
    if v: "vpn va \<le> vpn v" "vpn v \<le> (unat va + unat sz - 1) div 4096" for v
  proof -
    have "pt_view s' (vpn v) = pte_new (pa + of_nat (vpn v - vpn va) * 4096) (pm OR PRESENT)"
      unfolding ok(3) using v inside [OF v(1)] by (simp add: mapped_view_def del: of_nat_diff)
    then have "translate s' v = Some (pa + of_nat (vpn v - vpn va) * 4096 + (v AND 0xFFF),
        (pm OR PRESENT) AND TAB_ENT_FLAG_MASK)"
      using translate_pte_new [OF ok(2)] aligned_add_pages [OF assms(4)] by blast
    moreover have "of_nat (vpn v - vpn va) * 4096 + (v AND 0xFFF) = v - (va AND NOT 0xFFF)"
      unfolding page_floor_vpn by (rule page_offset_back [OF v(1)])
    ultimately show ?thesis by (simp add: add.assoc)
  qed
  moreover have "translate s' v = translate s v"
    if "\<not> (vpn va \<le> vpn v \<and> vpn v \<le> (unat va + unat sz - 1) div 4096)" for v
    using that inside [of v] by (auto simp: translate_view [OF ok(2)] translate_view [OF assms(1)] ok(3) mapped_view_def)
  moreover have "translate s v = None" if "vpn va \<le> vpn v" "vpn v \<le> (unat va + unat sz - 1) div 4096" for v
    using that inside [of v] ok(8) [of "vpn v"] by (simp add: translate_view [OF assms(1)])
  ultimately show ?thesis using ok(1) by auto
qed

theorem map_pages_translates_witness:
  "\<exists>s'. map_pages bump_alloc bump_vm 0x1800 0x1000 0x200000 USER = Inr (s', Some ())
     \<and> translate s' 0x1234 = Some (0x200234, 5) \<and> translate s' 0x2FFF = Some (0x201FFF, 5)
     \<and> translate s' 0x3000 = translate bump_vm 0x3000"
proof -
  have rng: "(0x1000 :: usize) \<noteq> 0" "unat (0x1800 :: usize) + unat (0x1000 :: usize) \<le> 4294967296" by simp_all
  have "\<exists>s'. map_pages bump_alloc bump_vm 0x1800 0x1000 0x200000 USER = Inr (s', Some ())"
    by (rule map_pages_progress [OF bump_vm_inv(1) rng, where S = "{0}"])
      (simp_all add: bump_vm_inv pt_budget_def pages_spanned_def vpn_def, simp add: bump_vm_def)
  then obtain s' where run: "map_pages bump_alloc bump_vm 0x1800 0x1000 0x200000 USER = Inr (s', Some ())"
    by blast
  then show ?thesis
    using map_pages_translates [OF bump_vm_inv(1) _ _ _ run] by (simp add: vpn_def flag_consts)
qed

text \<open>C17. The loop of \<^verbatim>\<open>map_pages\<close> ends for every argument, empty and wrapping ranges included: the
  address space has \<open>2 ^ 20\<close> pages and the loop visits each of them at most once.\<close>

theorem map_pages_terminates: "map_pages alloc s va sz pa pm \<noteq> Inl Spin"
proof -
  have "unat (a AND NOT 0xFFF) mod 4096 = 0" for a :: usize
    unfolding unat_page_floor by simp
  moreover have "unat (l - a) div 4096 < 2 ^ 20" for l a :: usize
    using unat_less32 [of "l - a"] by (simp add: less_mult_imp_div_less)
  ultimately show ?thesis
    unfolding map_pages_def round_down_page addr_add_def addr_sub_def
    by (simp only: addr_align_one layout_simps rbind_simps mult_1_right map_loop_not_Spin not_False_eq_True)
qed

text \<open>Page directory and page table entries keep the frame address and the flags they are built
  from, apart from the flag bit that is reserved in each kind of entry.\<close>

lemma entry_round_trip:
  assumes "pa mod 4096 = 0"
  shows "pde_addr (pde_new_table pa f) = Inr pa \<and> pde_flags (pde_new_table pa f) = f AND 0xFBF
    \<and> pte_addr (pte_new pa f) = Inr pa \<and> pte_flags (pte_new pa f) = f AND 0xF7F"
  using pde_new_table_parts [OF assms, of f] pte_new_parts [OF assms, of f] assms
  by (simp add: pde_addr_def pte_addr_def pde_flags_def pte_flags_def addr_from_raw_def addr_from_def
      layout_simps) (simp add: flag_consts)

text \<open>\<^verbatim>\<open>pdx\<close>, \<^verbatim>\<open>ptx\<close> and the page offset are in range and determine the address.\<close>

lemma address_decomposition:
  "unat (pdx va) < NPDENTRIES \<and> unat (ptx va) < NPTENTRIES
   \<and> unat va = unat (pdx va) * 2 ^ 22 + unat (ptx va) * 2 ^ 12 + unat (va AND 0xFFF)"
proof -
  have "unat (va AND 0xFFF) = unat va mod 4096" by (simp add: mask_consts unat_and_mask)
  moreover have "vpn va = vpn va div 1024 * 1024 + vpn va mod 1024" "unat va = vpn va * 4096 + unat va mod 4096"
    by (simp_all add: vpn_def)
  then have "unat va = vpn va div 1024 * 4194304 + vpn va mod 1024 * 4096 + unat va mod 4096" by linarith
  ultimately show ?thesis
    using vpn_div_less [of va] by (simp add: pdx_vpn ptx_vpn NPDENTRIES_def NPTENTRIES_def)
qed

section \<open>The page directory of the boot code\<close>

definition entry_page_dir :: "u32 list" where
  "entry_page_dir = (replicate NPDENTRIES pde_zero)
     [0 := pde_new_large_page 0 (WRITABLE OR PRESENT),
      unat (drop_bit 22 KERNBASE) := pde_new_large_page 0 (WRITABLE OR PRESENT)]"

lemma entry_page_dir_nth:
  "i < 1024 \<Longrightarrow> entry_page_dir ! i = (if i = 0 \<or> i = 512 then 0x83 else 0)"
  by (simp add: entry_page_dir_def nth_list_update NPDENTRIES_def pde_zero_def KERNBASE_def
      pde_new_large_page_def flag_consts)

text \<open>While the kernel starts, its page directory maps the first 4 MiB of physical memory
  twice, at address 0 and at \<^verbatim>\<open>KERNBASE\<close>, writable and without user access, and maps nothing else.\<close>

lemma boot_address_space:
  assumes "pg_dir s = entry_page_dir"
  shows "translate s va =
    (if va < 0x400000 \<or> KERNBASE \<le> va \<and> va < KERNBASE + 0x400000
     then Some (va AND 0x3FFFFF, PAGE_SIZE_4MIB OR WRITABLE OR PRESENT) else None)"
proof -
  have "unat (pdx va) = 0 \<longleftrightarrow> va < 0x400000" "unat (pdx va) = 512 \<longleftrightarrow> KERNBASE \<le> va \<and> va < KERNBASE + 0x400000"
    by (auto simp: unat_pdx word_less_nat_alt word_le_nat_alt KERNBASE_def)
  moreover have "unat (pdx va) < 1024" by (simp add: pdx_vpn)
  ultimately show ?thesis
    by (auto simp: translate_def pte_of_def assms entry_page_dir_nth Let_def flag_consts)
qed

text \<open>So the first 4 MiB appear at their own addresses and at \<^verbatim>\<open>KERNBASE\<close>.\<close>

lemma boot_window:
  assumes "pg_dir s = entry_page_dir" "x < 0x400000"
  shows "translate s x = Some (x, PAGE_SIZE_4MIB OR WRITABLE OR PRESENT)" "translate s (KERNBASE + x) = Some (x, PAGE_SIZE_4MIB OR WRITABLE OR PRESENT)"
proof -
  have u: "unat (a AND 0x3FFFFF) = unat a mod 0x400000" for a :: u32
  proof -
    have "a AND 0x3FFFFF = take_bit 22 a" by (simp add: take_bit_eq_mask mask_eq_exp_minus_1)
    then show ?thesis by (simp only: unsigned_take_bit_eq) (simp add: take_bit_eq_mod)
  qed
  have x: "unat x < 0x400000" using assms(2) by (simp add: word_less_nat_alt)
  then have k: "unat (KERNBASE + x) = 0x80000000 + unat x" by (simp add: KERNBASE_def unat_word_ariths)
  have "x AND 0x3FFFFF = x" "(KERNBASE + x) AND 0x3FFFFF = x"
    unfolding word_unat_eq_iff u k using x mod_mult_self1 [of "unat x" 512 "0x400000"] by (simp_all add: add.commute)
  moreover have "KERNBASE \<le> KERNBASE + x" "KERNBASE + x < KERNBASE + 0x400000"
    using k x by (simp_all add: word_le_nat_alt word_less_nat_alt KERNBASE_def)
  ultimately show "translate s x = Some (x, PAGE_SIZE_4MIB OR WRITABLE OR PRESENT)" "translate s (KERNBASE + x) = Some (x, PAGE_SIZE_4MIB OR WRITABLE OR PRESENT)"
    using boot_address_space [OF assms(1), of x] boot_address_space [OF assms(1), of "KERNBASE + x"] assms(2) by simp_all
qed

end
