(* ===== verification/First_Process.thy ===== *)
theory First_Process
  imports Scheduling Address_Space
begin

text \<open>
  The first process, from \<^verbatim>\<open>user_init\<close> to user mode: \<^verbatim>\<open>alloc_proc\<close> and \<^verbatim>\<open>user_init\<close> lay out a kernel stack
  from which the first \<^verbatim>\<open>switch\<close>, \<^verbatim>\<open>forkret\<close> and \<^verbatim>\<open>trapret\<close> enter the initial program.
\<close>

section \<open>Words in memory\<close>

lemma word_offset_inj:
  assumes "(a :: u32) + 4 * of_nat j = a + 4 * of_nat k" "j < 2 ^ 30" "k < 2 ^ 30"
  shows "j = k"
proof -
  have "(of_nat (4 * j) :: u32) = of_nat (4 * k)" using assms(1) by simp
  then have "unat (of_nat (4 * j) :: u32) = unat (of_nat (4 * k) :: u32)" by simp
  then show ?thesis using assms(2,3) by (simp add: unat_of_nat del: of_nat_mult)
qed

lemma fold_store:
  assumes "distinct ks" "\<forall>k \<in> set ks. k < 2 ^ 30" "j < 2 ^ 30"
  shows "fold (\<lambda>k m. m(a + 4 * of_nat k := ws ! k)) ks mem (a + 4 * of_nat j :: u32) =
    (if j \<in> set ks then ws ! j else mem (a + 4 * of_nat j))"
  using assms(1,2)
proof (induction ks arbitrary: mem)
  case (Cons k ks)
  show ?case
    using Cons(1) [of "mem(a + 4 * of_nat k := ws ! k)"] Cons(2,3) word_offset_inj [of a j k] assms(3) by auto
qed simp

lemma fold_store_other:
  "\<forall>k \<in> set ks. x \<noteq> a + 4 * of_nat k \<Longrightarrow> fold (\<lambda>k m. m(a + 4 * of_nat k := ws ! k)) ks mem x = mem x"
  by (induction ks arbitrary: mem) auto

lemma words_at_store: "length ws < 2 ^ 30 \<Longrightarrow> words_at (store_words a ws mem) a ws"
  unfolding words_at_iff store_words_def by (auto simp: fold_store)

lemma words_at_store_other:
  assumes "\<And>j k. j < length vs \<Longrightarrow> k < length ws \<Longrightarrow> b + 4 * of_nat j \<noteq> a + 4 * of_nat k"
  shows "words_at (store_words a ws mem) b vs = words_at mem b vs"
  unfolding words_at_iff store_words_def using assms by (auto simp: fold_store_other)

text \<open>Two ranges of words that follow each other do not overlap.\<close>

lemma words_at_store_above:
  assumes "b = a + 4 * of_nat (length ws)" "length ws + length vs < 2 ^ 30"
  shows "words_at (store_words a ws mem) b vs = words_at mem b vs"
proof (rule words_at_store_other)
  fix j k assume "j < length vs" "k < length ws"
  then show "b + 4 * of_nat j \<noteq> a + 4 * of_nat k"
    using word_offset_inj [of a "length ws + j" k] assms by (auto simp: algebra_simps)
qed

lemma words_at_store_below:
  assumes "a = b + 4 * of_nat (length vs)" "length ws + length vs < 2 ^ 30"
  shows "words_at (store_words a ws mem) b vs = words_at mem b vs"
proof (rule words_at_store_other)
  fix j k assume "j < length vs" "k < length ws"
  then show "b + 4 * of_nat j \<noteq> a + 4 * of_nat k"
    using word_offset_inj [of b j "length vs + k"] assms by (auto simp: algebra_simps)
qed

lemma length_frame [simp]: "length (trap_frame_words tf) = 19" "length (context_words c) = 5"
  by (simp_all add: trap_frame_words_def context_words_def)

text \<open>The words that the new process's kernel stack holds when it first runs.\<close>

definition first_stack :: "u32 \<Rightarrow> u32 \<Rightarrow> u32 list" where
  "first_stack trapret fork = context_words (Context_zero\<lparr>ctx_eip := fork\<rparr>) @ trapret # trap_frame_words user_frame"

lemma first_stack_words:
  assumes "sp1 = sp3 + 24"
  shows "words_at (store_words sp1 (trap_frame_words user_frame) (store_words sp3 (context_words (Context_zero\<lparr>ctx_eip := fork\<rparr>))
    (store_words (sp3 + 20) [trapret] (store_words sp1 (trap_frame_words trap_frame_zero) mem)))) sp3 (first_stack trapret fork)"
proof -
  let ?c = "context_words (Context_zero\<lparr>ctx_eip := fork\<rparr>)" and ?f = "trap_frame_words user_frame"
  let ?m0 = "store_words sp1 (trap_frame_words trap_frame_zero) mem"
  let ?m1 = "store_words (sp3 + 20) [trapret] ?m0" let ?m2 = "store_words sp3 ?c ?m1"
  have 1: "words_at (store_words sp1 ?f ?m2) sp1 ?f" by (rule words_at_store) simp
  have "words_at ?m2 (sp3 + 20) [trapret] = words_at ?m1 (sp3 + 20) [trapret]" by (rule words_at_store_above) simp_all
  then have 0: "words_at ?m2 (sp3 + 20) [trapret]" using words_at_store [of "[trapret]"] by simp
  moreover have "words_at (store_words sp1 ?f ?m2) (sp3 + 20) [trapret] = words_at ?m2 (sp3 + 20) [trapret]"
    by (rule words_at_store_below) (simp_all add: assms)
  ultimately have 2: "words_at (store_words sp1 ?f ?m2) (sp3 + 20) [trapret]" by simp
  have "words_at (store_words sp1 ?f ?m2) sp3 (?c @ [trapret]) = words_at ?m2 sp3 (?c @ [trapret])"
    by (rule words_at_store_below) (simp_all add: assms)
  moreover have "words_at ?m2 sp3 ?c" by (rule words_at_store) simp
  ultimately have "words_at (store_words sp1 ?f ?m2) sp3 ?c" using 0 by (simp add: words_at_append)
  then show ?thesis using 1 2 by (simp add: first_stack_def words_at_append assms add.commute [of "numeral n" for n])
qed

section \<open>Creating the process\<close>

text \<open>What the allocator and the page table code deliver to \<^verbatim>\<open>user_init\<close>.\<close>

record 'h init_parts =
  ip_dir :: "'h vm"
  ip_stack :: usize
  ip_vm :: "'h vm"
  ip_ref :: procref
  ip_heap :: 'h
  ip_kvm :: "'h vm"
  ip_uvm :: "'h vm"

definition init_supplied :: "'h galloc \<Rightarrow> usize \<Rightarrow> u8 list \<Rightarrow> 'h pst \<Rightarrow> 'h init_parts \<Rightarrow> bool" where
  "init_supplied ga data code s a \<longleftrightarrow>
     page_directory_zero_boxed (ga_page ga) (kvm s) = Inr (ip_dir a) \<and>
     kalloc (ga_page ga) (ip_dir a) = Inr (Some (ip_stack a), ip_vm a) \<and>
     ga_arc ga (heap (ip_vm a)) = Some (ip_ref a, ip_heap a) \<and>
     setup_kvm (ga_page ga) data ((ip_vm a)\<lparr>heap := ip_heap a\<rparr>) = Inr (Some (ip_kvm a)) \<and>
     uvm_init (ga_page ga) ((ip_kvm a)\<lparr>heap := ga_free ga (dir_addr (ip_dir a)) (heap (ip_kvm a))\<rparr>) code = Inr (ip_uvm a)"

definition init_process :: "'h init_parts \<Rightarrow> u32 \<Rightarrow> usize option \<Rightarrow> Process" where
  "init_process a n root = \<lparr>pstate = Runnable, psize = PAGE_SIZE, ppg_dir = dir_addr (ip_uvm a), kernel_stack = ip_stack a, pid = n,
     trap_frame = ip_stack a + 4020, pcontext = ip_stack a + 3996, cwd = root,
     pname = [0x69, 0x6E, 0x69, 0x74] @ replicate 12 0\<rparr>"

lemma user_init_creates:
  assumes d: "depth s me i 0" and free: "\<not> locked (spin s (pt_lock s))" and pids: "unat (next_pid (ptable s)) + 1 < 2 ^ 32"
    and sup: "init_supplied ga data code s a" and ne: "ip_ref a \<noteq> pt_lock s"
  shows "\<exists>s'. user_init me ga trapret fork data code root s = Inr ((), s') \<and>
    procs s' = (procs s)(ip_ref a \<mapsto> init_process a (next_pid (ptable s)) root) \<and>
    ptable s' = (ptable s)\<lparr>next_pid := next_pid (ptable s) + 1, initproc := Some (ip_ref a), runnable := runnable (ptable s) @ [ip_ref a]\<rparr> \<and>
    words_at (kmem s') (ip_stack a + 3996) (first_stack trapret fork) \<and> \<not> locked (spin s' (pt_lock s)) \<and> depth s' me i 0 \<and>
    roster s' = roster s \<and> ints_on s' me = ints_on s me \<and> cr3 s' = cr3 s"
proof -
  let ?l = "pt_lock s" and ?r = "ip_ref a" and ?sp = "ip_stack a + 3996"
  note S = sup [unfolded init_supplied_def]
  note A = acquire_depth [OF d _ free, simplified]
  let ?a = "acquired me ?l i s"
  note m = pst_more [OF A(5)]
  define p0 where "p0 = (Process_new (dir_addr (ip_dir a)))\<lparr>pstate := Embryo, pid := next_pid (ptable s), kernel_stack := ip_stack a,
    trap_frame := ?sp + 24, pcontext := ?sp\<rparr>"
  define b where "b = ?a\<lparr>spin := (spin ?a)(?r := SpinLock_new ''process''), procs := (procs s)(?r \<mapsto> p0),
    ptable := (ptable s)\<lparr>next_pid := next_pid (ptable s) + 1\<rparr>, kvm := (ip_vm a)\<lparr>heap := ip_heap a\<rparr>,
    dirs := (dirs s)(dir_addr (ip_dir a) \<mapsto> pg_dir (ip_dir a)),
    kmem := store_words ?sp (context_words (Context_zero\<lparr>ctx_eip := fork\<rparr>)) (store_words (?sp + 20) [trapret]
      (store_words (?sp + 24) (trap_frame_words trap_frame_zero) (kmem s)))\<rparr>"
  have pid: "checked_add (next_pid (ptable s)) 1 = Inr (next_pid (ptable s) + 1)"
    by (rule checked_add_Ok) (use pids in simp)
  have alloc: "alloc_proc ga trapret fork ?a = Inr (?r, b)"
    using S pid by (simp add: alloc_proc_def m take_next_pid_def rexpect_simps Let_def KSTACKSIZE_def b_def p0_def add.commute [of "numeral n" for n])
  have "\<not> held_by s ?l i" using free by (simp add: held_by_def)
  have db: "depth b me i (Suc 0)" using A(2) depth_same [of ?a b] by (simp add: b_def same_cpus_def)
  have spb: "spin b = (spin ?a)(?r := SpinLock_new ''process'')" "procs b ?r = Some p0" by (simp_all add: b_def)
  have fb: "\<not> locked (spin b ?r)" by (simp add: spb SpinLock_new_def)
  note B = acquire_depth [OF db _ fb, simplified]
  let ?c = "acquired me ?r i b"
  note mc = pst_more [OF B(5)]
  define q where "q = init_process a (next_pid (ptable s)) root"
  define t where "t = ?c\<lparr>procs := (procs b)(?r \<mapsto> q), kvm := ip_uvm a,
    dirs := ((dirs b)(ppg_dir p0 := None))(dir_addr (ip_uvm a) \<mapsto> pg_dir (ip_uvm a)),
    kmem := store_words (?sp + 24) (trap_frame_words user_frame) (kmem b)\<rparr>"
  have kb: "kvm b = (ip_vm a)\<lparr>heap := ip_heap a\<rparr>" by (simp add: b_def)
  have p0: "ppg_dir p0 = dir_addr (ip_dir a)" "trap_frame p0 = ?sp + 24" by (simp_all add: p0_def Process_new_def)
  have q0: "p0\<lparr>ppg_dir := dir_addr (ip_uvm a), psize := PAGE_SIZE, pname := [0x69, 0x6E, 0x69, 0x74, 0] @ drop 5 (pname p0),
      cwd := root, pstate := Runnable\<rparr> = q"
    by (simp add: p0_def q_def init_process_def Process_new_def add.commute [of "numeral n" for n]) (simp add: numeral_eq_Suc)
  have body: "fill_init ga data code root ?r ?c = Inr ((), t)"
    using S q0 by (simp add: fill_init_def deref_proc_def mc spb(2) rexpect_simps Let_def t_def kb p0)
  have dt: "depth t me i (Suc (Suc 0))" using B(2) depth_same [of ?c t] by (simp add: t_def same_cpus_def)
  have st: "spin t ?r = spin ?c ?r" by (simp add: t_def)
  note W = with_lock_depth [where f = "fill_init ga data code root ?r", OF db _ fb body dt st, simplified]
  let ?w = "let_go me ?r i t"
  note mw = pst_more [OF W(5)]
  define u where "u = ?w\<lparr>ptable := put ?r ((ptable ?w)\<lparr>initproc := Some ?r\<rparr>)\<rparr>"
  have tab: "table_user_init me ga trapret fork data code root ?a = Inr ((), u)"
    using alloc W(1) by (simp add: table_user_init_def u_def)
  have du: "depth u me i (Suc 0)" using W(2) depth_same [of ?w u] by (simp add: u_def same_cpus_def)
  have su: "spin u ?l = spin ?a ?l" using W(4) B(4) spb(1) ne by (simp add: u_def t_def)
  note U = with_lock_depth [where f = "table_user_init me ga trapret fork data code root", OF d _ free tab du su, simplified]
  note mu = pst_more [OF U(5)]
  have pb: "procs b = (procs s)(?r \<mapsto> p0)" "ptable b = (ptable s)\<lparr>next_pid := next_pid (ptable s) + 1\<rparr>"
    "kmem b = store_words ?sp (context_words (Context_zero\<lparr>ctx_eip := fork\<rparr>)) (store_words (?sp + 20) [trapret]
      (store_words (?sp + 24) (trap_frame_words trap_frame_zero) (kmem s)))"
    by (simp_all add: b_def)
  have tt: "procs t = (procs b)(?r \<mapsto> q)" "ptable t = ptable b"
    "kmem t = store_words (?sp + 24) (trap_frame_words user_frame) (kmem b)"
    using mc(2) by (simp_all add: t_def)
  have uu: "procs u = procs t" "kmem u = kmem t" "ptable u = put ?r ((ptable t)\<lparr>initproc := Some ?r\<rparr>)"
    using mw by (simp_all add: u_def)
  have "words_at (kmem u) ?sp (first_stack trapret fork)"
    unfolding uu tt pb by (rule first_stack_words) simp
  moreover have "procs u = (procs s)(?r \<mapsto> q)" unfolding uu tt pb by simp
  moreover have "ptable u = (ptable s)\<lparr>next_pid := next_pid (ptable s) + 1, initproc := Some ?r, runnable := runnable (ptable s) @ [?r]\<rparr>"
    unfolding uu tt pb by (simp add: put_def)
  moreover have "same_cpus ?a b" "same_cpus ?c t" "same_cpus ?w u" by (simp_all add: b_def t_def u_def same_cpus_def)
  then have "roster u = roster s" by (simp add: roster_same)
  moreover have "cr3 b = cr3 ?a" "cr3 t = cr3 ?c" "cr3 u = cr3 ?w" by (simp_all add: b_def t_def u_def)
  then have "cr3 u = cr3 s" using m mc mw by simp
  moreover have "int_enabled (priv u i) = ints_on s me"
  proof -
    have "priv b i = priv ?a i" "priv t i = priv ?c i" "priv u i = priv ?w i" by (simp_all add: b_def t_def u_def)
    then show ?thesis using W(3) B(3) A(3) saved_depth [OF db] depthD(2) [OF d] by (simp add: saved_def)
  qed
  then have "ints_on (let_go me ?l i u) me = ints_on s me" using ints_on_let_go [OF du, of ?l] by simp
  ultimately show ?thesis
    using U(1,2,4) mu by (intro exI [of _ "let_go me ?l i u"]) (simp add: user_init_def q_def)
qed

section \<open>Running it for the first time\<close>

text \<open>A call of \<^verbatim>\<open>switch(old, new)\<close> in kernel mode whose own stack and pointer lie outside the words \<open>ws\<close> at \<open>new\<close>.\<close>

definition switch_apart :: "mach \<Rightarrow> u32 \<Rightarrow> u32 \<Rightarrow> u32 list \<Rightarrow> bool" where
  "switch_apart m old new ws \<longleftrightarrow> (\<exists>ret. stack m [ret, old, new]) \<and> aligned4 old \<and> aligned4 new \<and> rpl (sgr m CS) = 0 \<and>
     old \<notin> {gpr m ESP - 16, gpr m ESP - 12, gpr m ESP - 8, gpr m ESP - 4, gpr m ESP} \<and>
     (\<forall>k < length ws. new + 4 * of_nat k \<notin> {gpr m ESP - 16, gpr m ESP - 12, gpr m ESP - 8, gpr m ESP - 4, old})"

definition enters_user :: "mach \<Rightarrow> bool" where
  "enters_user m \<longleftrightarrow> eip m = 0 \<and> gpr m ESP = PAGE_SIZE \<and> (\<forall>r. r \<noteq> ESP \<longrightarrow> gpr m r = 0) \<and> flags m = FL_IF \<and>
     sgr m CS = 0x1B \<and> sgr m SS = 0x23 \<and> sgr m DS = 0x23 \<and> sgr m ES = 0x23"

lemma user_frame_words:
  "trap_frame_words user_frame = [0, 0, 0, 0, 0, 0, 0, 0, 0, 0, ucast (0x23 :: u16), ucast (0x23 :: u16), 0, 0, 0, ucast (0x1B :: u16), FL_IF, PAGE_SIZE, ucast (0x23 :: u16)]"
  by (simp add: trap_frame_words_def user_frame_def trap_frame_zero_def SEG_UCODE_def SEG_UDATA_def DPL_USER_def)

lemma trapret_enters_user:
  assumes "stack m (trap_frame_words user_frame)" "rpl (sgr m CS) = 0"
  shows "\<exists>m'. run trapret_code m = Inr m' \<and> enters_user m'"
proof -
  have s: "stack m (0 # 0 # 0 # 0 # 0 # 0 # 0 # 0 # 0 # 0 # ucast (0x23 :: u16) # ucast (0x23 :: u16) # 0 # 0 #
      [0, ucast (0x1B :: u16), FL_IF, PAGE_SIZE, ucast (0x23 :: u16)])"
    using assms(1) unfolding user_frame_words .
  define m1 where "m1 = m\<lparr>gpr := (gpr m)(EDI := 0, ESI := 0, EBP := 0, EBX := 0, EDX := 0, ECX := 0, EAX := 0, ESP := gpr m ESP + 56),
    sgr := (sgr m)(GS := ucast (0 :: u32), FS := ucast (0 :: u32), ES := ucast (ucast (0x23 :: u16) :: u32), DS := ucast (ucast (0x23 :: u16) :: u32))\<rparr>"
  note ex = exit_run [OF s, folded m1_def]
  have "rpl (sgr m1 CS) < rpl 0x1B" using assms(2) by (simp add: m1_def) (simp add: rpl_def)
  note ir = iret_outer [OF ex(2) this]
  have "run trapret_code m = rbind (run (butlast trapret_code) m) iret"
    by (simp add: trapret_code_def rbind_def split: sum.splits)
  then have r: "run trapret_code m = Inr (m1\<lparr>eip := 0, flags := FL_IF, gpr := (gpr m1)(ESP := PAGE_SIZE), sgr := (sgr m1)(CS := 0x1B, SS := 0x23)\<rparr>)"
    using ex(1) ir by simp
  have "gpr m1 r = 0" if "r \<noteq> ESP" for r using that by (cases r) (simp_all add: m1_def)
  then show ?thesis using r by (simp add: enters_user_def) (simp add: m1_def)
qed

lemma first_run:
  assumes ap: "switch_apart m old new (first_stack trapret fork)" and w: "words_at (dmem m) new (first_stack trapret fork)"
  shows "\<exists>m1 m2 m3. run switch_code m = Inr m1 \<and> eip m1 = fork \<and> forkret False junk m1 = Inr (False, m2) \<and> eip m2 = trapret \<and>
    run trapret_code m2 = Inr m3 \<and> enters_user m3"
proof -
  obtain ret where st: "stack m [ret, old, new]" and al: "aligned4 old" "aligned4 new" and k0: "rpl (sgr m CS) = 0"
    and old: "old \<notin> {gpr m ESP - 16, gpr m ESP - 12, gpr m ESP - 8, gpr m ESP - 4, gpr m ESP}"
    using ap unfolding switch_apart_def by blast
  define S where "S = {gpr m ESP - 16, gpr m ESP - 12, gpr m ESP - 8, gpr m ESP - 4, old}"
  have apart: "new + 4 * of_nat k \<notin> S" if "k < 25" for k
    using ap that unfolding switch_apart_def S_def [symmetric] by (simp add: first_stack_def)
  let ?c = "Context_zero\<lparr>ctx_eip := fork\<rparr>" and ?f = "trap_frame_words user_frame"
  have wc: "words_at (dmem m) new (context_words ?c)" and wf: "words_at (dmem m) (new + 20) (trapret # ?f)"
    using w unfolding first_stack_def words_at_append by (simp_all add: add.commute)
  have "new \<notin> S" "new + 4 \<notin> S" "new + 8 \<notin> S" "new + 12 \<notin> S" "new + 16 \<notin> S"
    using apart [of 0] apart [of 1] apart [of 2] apart [of 3] apart [of 4] by simp_all
  then have "{new, new + 4, new + 8, new + 12, new + 16} \<inter> S = {}" by blast
  then have "switch_call m ret old new ?c" using st al wc old unfolding switch_call_def S_def by blast
  note sw = switch_run [OF this]
  define m1 where "m1 = m\<lparr>gpr := (gpr m)(EAX := old, EDX := new, EDI := ctx_edi ?c, ESI := ctx_esi ?c,
    EBX := ctx_ebx ?c, EBP := ctx_ebp ?c, ESP := new + 20), eip := ctx_eip ?c, dmem := switch_saved m old\<rparr>"
  have "words_at (switch_saved m old) (new + 20) (trapret # ?f) = words_at (dmem m) (new + 20) (trapret # ?f)"
  proof (rule words_at_cong)
    fix k assume "k < length (trapret # ?f)"
    then have "new + 4 * of_nat (k + 5) \<notin> S" by (intro apart) simp
    then have "new + 20 + 4 * of_nat k \<notin> S" by (simp add: ac_simps)
    then show "switch_saved m old (new + 20 + 4 * of_nat k) = dmem m (new + 20 + 4 * of_nat k)"
      unfolding S_def by (rule switch_saved_frame)
  qed
  then have s1: "stack m1 (trapret # ?f)" using wf al(2) by (simp add: stack_def m1_def)
  obtain a c d where j: "junk = (a, c, d)" by (cases junk) auto
  let ?m = "set_gpr EAX a (set_gpr ECX c (set_gpr EDX d m1))"
  have s2: "stack ?m (trapret # ?f)" using s1 by (simp add: stack_set)
  define m2 where "m2 = (set_gpr ESP (gpr ?m ESP + 4) ?m)\<lparr>eip := trapret\<rparr>"
  have "forkret False junk m1 = Inr (False, m2)" using pop_eq [OF s2] by (simp add: forkret_def j m2_def)
  moreover have "stack m2 ?f" using stack_pop [OF s2] by (simp add: m2_def stack_set)
  moreover have "rpl (sgr m2 CS) = 0" using k0 by (simp add: m2_def m1_def)
  ultimately show ?thesis
    using trapret_enters_user [of m2] sw by (auto simp: m1_def m2_def Context_zero_def)
qed

section \<open>Property\<close>

text \<open>C1. The way of the first process into user mode. \<^verbatim>\<open>user_init\<close> creates it with the next process number,
  runnable, at the end of the run queue, with the address space of \<^verbatim>\<open>setup_kvm\<close> and \<^verbatim>\<open>uvm::init\<close>, and
  releases its locks. Whenever the scheduler then switches to its context in kernel mode, execution
  continues at \<^verbatim>\<open>forkret\<close>, which returns to \<^verbatim>\<open>trapret\<close>, which enters user mode at address 0 with the stack
  at the end of the page, interrupts on, user segments and all other registers zero. On the very
  first call of all, however, \<^verbatim>\<open>forkret\<close> reaches code that is not written yet and panics.\<close>

theorem first_process_enters_user_mode:
  assumes "depth s me i 0" "\<not> locked (spin s (pt_lock s))" "unat (next_pid (ptable s)) + 1 < 2 ^ 32"
    and "init_supplied ga data code s a" "ip_ref a \<noteq> pt_lock s"
  shows "\<exists>s' q. user_init me ga trapret fork data code root s = Inr ((), s') \<and> procs s' (ip_ref a) = Some q \<and>
    pstate q = Runnable \<and> pid q = next_pid (ptable s) \<and> ppg_dir q = dir_addr (ip_uvm a) \<and>
    runnable (ptable s') = runnable (ptable s) @ [ip_ref a] \<and> initproc (ptable s') = Some (ip_ref a) \<and>
    \<not> locked (spin s' (pt_lock s)) \<and>
    (\<forall>m old. dmem m = kmem s' \<and> switch_apart m old (pcontext q) (first_stack trapret fork) \<longrightarrow>
      (\<exists>m1 m2 m3. run switch_code m = Inr m1 \<and> eip m1 = fork \<and> forkret True junk m1 = Inl Todo \<and>
        forkret False junk m1 = Inr (False, m2) \<and> eip m2 = trapret \<and> run trapret_code m2 = Inr m3 \<and> enters_user m3))"
proof -
  obtain s' where s': "user_init me ga trapret fork data code root s = Inr ((), s')"
    "procs s' = (procs s)(ip_ref a \<mapsto> init_process a (next_pid (ptable s)) root)"
    "ptable s' = (ptable s)\<lparr>next_pid := next_pid (ptable s) + 1, initproc := Some (ip_ref a), runnable := runnable (ptable s) @ [ip_ref a]\<rparr>"
    "words_at (kmem s') (ip_stack a + 3996) (first_stack trapret fork)" "\<not> locked (spin s' (pt_lock s))"
    using user_init_creates [OF assms] by blast
  have "\<exists>m1 m2 m3. run switch_code m = Inr m1 \<and> eip m1 = fork \<and> forkret False junk m1 = Inr (False, m2) \<and> eip m2 = trapret \<and>
      run trapret_code m2 = Inr m3 \<and> enters_user m3"
    if "dmem m = kmem s'" "switch_apart m old (ip_stack a + 3996) (first_stack trapret fork)" for m old
    by (rule first_run [OF that(2)]) (use that(1) s'(4) in simp)
  moreover have "forkret True junk m1 = Inl Todo" for m1 by (simp add: forkret_def)
  moreover have "pcontext (init_process a (next_pid (ptable s)) root) = ip_stack a + 3996"
    "pstate (init_process a (next_pid (ptable s)) root) = Runnable" "pid (init_process a (next_pid (ptable s)) root) = next_pid (ptable s)"
    "ppg_dir (init_process a (next_pid (ptable s)) root) = dir_addr (ip_uvm a)" by (simp_all add: init_process_def)
  ultimately show ?thesis
    using s' by (intro exI [of _ s'] exI [of _ "init_process a (next_pid (ptable s)) root"]) auto
qed

definition demo_galloc :: "nat galloc" where
  "demo_galloc = \<lparr>ga_page = bump_alloc, ga_arc = (\<lambda>h. Some (0x80300200, h)), ga_free = (\<lambda>p h. h)\<rparr>"

lemma demo_supplied: "\<exists>a. init_supplied demo_galloc 0x80108000 [0x90] demo_pst a \<and> ip_ref a = 0x80300200 \<and> ip_stack a = 0x80401000"
proof -
  let ?v0 = "kvm demo_pst"
  let ?v1 = "?v0\<lparr>heap := Suc 0, dir_addr := 0x80400000, pg_dir := replicate NPDENTRIES 0\<rparr>" let ?v2 = "?v1\<lparr>heap := Suc (Suc 0)\<rparr>"
  have v: "page_directory_zero_boxed bump_alloc ?v0 = Inr ?v1" "kalloc bump_alloc ?v1 = Inr (Some 0x80401000, ?v2)"
    by (simp_all add: page_directory_zero_boxed_def kalloc_def heap_alloc_def bump_alloc_def demo_pst_def)
  have t: "tables ?v2 x \<noteq> Some y" for x y by (simp add: demo_pst_def)
  have t2: "\<And>x tab. tables ?v2 x = Some tab \<Longrightarrow> length tab = 1024 \<and> x \<in> bump_live (heap ?v2)" using t by auto
  have d: "unat (0x80108000 :: usize) mod 4096 = 0" "0x80100000 < unat (0x80108000 :: usize)" "unat (0x80108000 :: usize) < 0x8E000000" by simp_all
  have mem: "65 \<le> 100 - heap ?v2" by simp
  obtain s1 where s1: "setup_kvm bump_alloc 0x80108000 ?v2 = Inr (Some s1)" "pt_inv bump_alloc bump_live (\<lambda>h. 100 - h) s1"
    "pt_view s1 = kvm_view (vpn 0x80108000)" "pages s1 = pages ?v2" "pt_used s1 \<subseteq> kvm_slots"
    "Suc (pt_budget (\<lambda>h. 100 - h) s1) = 100 - heap ?v2"
    using setup_kvm_view [OF bump_alloc_ok t2 mem d] .
  have "card (pt_used s1) \<le> 64" using card_mono [OF kvm_slots(1) s1(5)] kvm_slots(2) by simp
  then have av: "2 \<le> 100 - heap s1" using s1(6) by (simp add: pt_budget_def)
  have "pt_view s1 0 AND PRESENT = 0"
    unfolding s1(3) using kvm_view_cases [OF data_section_sizes(1,2) [OF d], of 0] by simp
  then obtain s2 where "uvm_init bump_alloc s1 [0x90] = Inr s2"
    using uvm_init_ok [OF s1(2) _ _ av, of "[0x90]"] by auto
  then show ?thesis
    using v s1(1) by (intro exI [of _ "\<lparr>ip_dir = ?v1, ip_stack = 0x80401000, ip_vm = ?v2, ip_ref = 0x80300200, ip_heap = Suc (Suc 0), ip_kvm = s1, ip_uvm = s2\<rparr>"])
      (simp add: init_supplied_def demo_galloc_def)
qed

theorem first_process_enters_user_mode_witness:
  "\<exists>s' q. user_init 1 demo_galloc 0x80102000 0x80103000 0x80108000 [0x90] None demo_pst = Inr ((), s') \<and>
     procs s' 0x80300200 = Some q \<and> pid q = 3 \<and> runnable (ptable s') = [0x80300000, 0x80300200]"
proof -
  obtain a where a: "init_supplied demo_galloc 0x80108000 [0x90] demo_pst a" "ip_ref a = 0x80300200"
    using demo_supplied by blast
  have n: "next_pid (ptable demo_pst) = 3" by (simp add: demo_pst_def)
  have r: "ip_ref a \<noteq> pt_lock demo_pst" by (simp add: a(2) demo_pst_ok)
  from first_process_enters_user_mode [OF demo_pst_ok(1,2) _ a(1) r, of "0x80102000" "0x80103000" None "(0, 0, 0)"]
  show ?thesis by (auto simp: demo_pst_ok n a(2))
qed

end
