(* ===== verification/Supply.thy ===== *)
theory Supply
  imports First_Process
begin

text \<open>
  What \<^verbatim>\<open>setup_kvm\<close> and \<^verbatim>\<open>user_init\<close> obtain from an allocator with enough memory, also when a page is freed in between.
\<close>

section \<open>Monotonicity in the allocator\<close>

text \<open>A run that succeeds with an allocator succeeds in the same way with one that fails less often.\<close>

definition res_le :: "'a res \<Rightarrow> 'a res \<Rightarrow> bool" where
  "res_le m m' \<longleftrightarrow> (\<forall>y. m = Inr y \<longrightarrow> m' = Inr y)"

definition alloc_le :: "'h page_alloc \<Rightarrow> 'h page_alloc \<Rightarrow> bool" where
  "alloc_le al al' \<longleftrightarrow> (\<forall>h. al h = None \<or> al h = al' h)"

lemma res_le_refl: "res_le m m"
  by (simp add: res_le_def)

lemma res_le_rbind: "res_le m m' \<Longrightarrow> (\<And>x. res_le (f x) (g x)) \<Longrightarrow> res_le (rbind m f) (rbind m' g)"
  by (auto simp: res_le_def rbind_Ok_iff)

lemma heap_alloc_le: "alloc_le al al' \<Longrightarrow> res_le (heap_alloc al s) (heap_alloc al' s)"
  unfolding res_le_def heap_alloc_def alloc_le_def by (cases "al (heap s)") (auto dest: spec [of _ "heap s"] split: option.split)

lemma map_page_le:
  assumes "alloc_le al al'"
  shows "res_le (map_page al s a pa pm) (map_page al' s a pa pm)"
proof -
  have t: "res_le (page_table_zero_boxed al s) (page_table_zero_boxed al' s)"
    unfolding page_table_zero_boxed_def by (intro res_le_rbind res_le_refl heap_alloc_le [OF assms])
  have "res_le (walk_page_dir al s a True) (walk_page_dir al' s a True)"
    unfolding walk_page_dir_def
    by (intro res_le_rbind res_le_refl) (use t in \<open>auto intro!: res_le_rbind intro: res_le_refl\<close>)
  then show ?thesis unfolding map_page_def by (intro res_le_rbind res_le_refl)
qed

lemma map_pages_le:
  assumes "alloc_le al al'"
  shows "res_le (map_pages al s va sz pa pm) (map_pages al' s va sz pa pm)"
proof -
  have "res_le (map_loop n al s a lst pa pm) (map_loop n al' s a lst pa pm)" for n s a lst pa
  proof (induction n arbitrary: s a pa)
    case (Suc n)
    show ?case unfolding map_loop.simps
      by (intro res_le_rbind map_page_le [OF assms]) (auto intro!: res_le_rbind res_le_refl Suc split: option.split)
  qed (simp add: res_le_refl)
  then show ?thesis unfolding map_pages_def by (intro res_le_rbind res_le_refl)
qed

lemma setup_kvm_le:
  assumes "alloc_le al al'"
  shows "res_le (setup_kvm al data s) (setup_kvm al' data s)"
proof -
  have "res_le (map_kmaps al s ks) (map_kmaps al' s ks)" for ks s
    by (induction ks arbitrary: s) (auto intro!: res_le_rbind res_le_refl map_pages_le [OF assms] split: option.split)
  moreover have "res_le (page_directory_zero_boxed al s) (page_directory_zero_boxed al' s)"
    unfolding page_directory_zero_boxed_def by (intro res_le_rbind res_le_refl heap_alloc_le [OF assms])
  ultimately show ?thesis unfolding setup_kvm_def by (auto intro!: res_le_rbind res_le_refl)
qed

section \<open>Supply\<close>

text \<open>The page directory is the first page allocated.\<close>

lemma setup_kvm_dir:
  assumes "setup_kvm al data s = Inr (Some s')"
  shows "\<exists>h. al (heap s) = Some (dir_addr s', h)"
proof -
  have table: "dir_addr t' = dir_addr t" if "page_table_zero_boxed al t = Inr (p, t')" for t t' p
    using that by (auto simp: page_table_zero_boxed_def heap_alloc_def elim!: rbind_OkE split: option.splits)
  have walk: "dir_addr t' = dir_addr t" if "walk_page_dir al t a True = Inr (t', r)" for t t' a r
    using that unfolding walk_page_dir_def by (elim rbind_OkE) (auto elim!: rbind_OkE dest!: table split: if_splits option.splits)
  have page: "dir_addr t' = dir_addr t" if "map_page al t a pa pm = Inr (t', r)" for t t' a pa pm r
    using that unfolding map_page_def by (elim rbind_OkE) (auto elim!: rbind_OkE dest!: walk simp: write_pte_def split: if_splits option.splits)
  have loop: "dir_addr t' = dir_addr t" if "map_loop n al t a lst pa pm = Inr (t', r)" for n t t' a lst pa pm r
    using that by (induction n arbitrary: t a pa) (auto elim!: rbind_OkE dest!: page split: if_splits option.splits)
  have pages: "dir_addr t' = dir_addr t" if "map_pages al t va sz pa pm = Inr (t', r)" for t t' va sz pa pm r
    using that unfolding map_pages_def by (elim rbind_OkE) (rule loop)
  have "dir_addr t' = dir_addr t" if "map_kmaps al t ks = Inr (Some t')" for ks t t'
    using that by (induction ks arbitrary: t) (auto elim!: rbind_OkE dest!: pages split: option.splits)
  then show ?thesis using assms unfolding setup_kvm_def
    by (elim rbind_OkE) (force simp: page_directory_zero_boxed_def heap_alloc_def elim!: rbind_OkE split: if_splits option.splits)
qed

text \<open>What every allocation keeps is kept by \<^verbatim>\<open>setup_kvm\<close>, and blocks that are not handed out do not become page tables.\<close>

lemma setup_kvm_keeps:
  assumes al: "page_alloc_ok alloc live avail"
    and tabs: "\<And>t tab. tables s t = Some tab \<Longrightarrow> length tab = 1024 \<and> t \<in> live (heap s) - R"
    and Q: "Q (heap s)" "\<And>h p h'. Q h \<Longrightarrow> alloc h = Some (p, h') \<Longrightarrow> Q h' \<and> p \<notin> R" and mem: "66 \<le> avail (heap s)"
    and data: "unat data mod 4096 = 0" "0x80100000 < unat data" "unat data < 0x8E000000"
  obtains s' where "setup_kvm alloc data s = Inr (Some s')" "pt_inv alloc live avail s'" "pt_view s' = kvm_view (vpn data)" "pages s' = pages s"
    "avail (heap s) \<le> avail (heap s') + 65" "Q (heap s')" "dom (tables s') \<inter> R = {}"
proof -
  define al' where "al' h = (if Q h then alloc h else None)" for h
  define av' where "av' h = (if Q h then avail h else 0)" for h
  let ?lv = "\<lambda>h. live h - R"
  have ok': "page_alloc_ok al' ?lv av'" unfolding page_alloc_ok_def
  proof (intro conjI allI impI)
    fix h q h' assume "al' h = Some (q, h')"
    then have h: "Q h" "alloc h = Some (q, h')" by (simp_all add: al'_def split: if_splits)
    note q = page_alloc_okD [OF al h(2)] Q(2) [OF h]
    show "q mod 4096 = 0" "KERNBASE \<le> q" "q \<notin> ?lv h" "?lv h' = insert q (?lv h)" "av' h = Suc (av' h')"
      using q h(1) by (auto simp: av'_def)
  qed (use al in \<open>auto simp: al'_def av'_def page_alloc_ok_def\<close>)
  have mem': "65 \<le> av' (heap s)" using mem Q(1) by (simp add: av'_def)
  obtain s' where s': "setup_kvm al' data s = Inr (Some s')" "pt_inv al' ?lv av' s'" "pt_view s' = kvm_view (vpn data)" "pages s' = pages s"
      "pt_used s' \<subseteq> kvm_slots" "Suc (pt_budget av' s') = av' (heap s)"
    by (rule setup_kvm_view [OF ok' tabs mem' data])
  have "res_le (setup_kvm al' data s) (setup_kvm alloc data s)" by (rule setup_kvm_le) (simp add: alloc_le_def al'_def)
  then have run: "setup_kvm alloc data s = Inr (Some s')" using s'(1) by (simp add: res_le_def)
  have "card (pt_used s') \<le> 64" using card_mono [OF kvm_slots(1) s'(5)] kvm_slots(2) by simp
  then have av: "avail (heap s) \<le> av' (heap s') + 65" using s'(6) mem Q(1) by (simp add: pt_budget_def av'_def split: if_splits)
  then have in': "Q (heap s')" "av' (heap s') = avail (heap s')" using mem by (auto simp: av'_def split: if_splits)
  have "dom (tables s') \<inter> R = {}" using s'(2) unfolding pt_inv_def by auto
  moreover have "pt_inv alloc live avail s'" using s'(2) al unfolding pt_inv_def by blast
  ultimately show ?thesis using that [OF run] s'(3,4) in' av by auto
qed

text \<open>
  What is relied on of the global allocator, with the blocks in use and the number of free pages: it places the processes above
  \<open>base\<close>, with the use of at most one page, and frees only what it is given.
\<close>

definition galloc_ok :: "'h galloc \<Rightarrow> ('h \<Rightarrow> usize set) \<Rightarrow> ('h \<Rightarrow> nat) \<Rightarrow> usize \<Rightarrow> bool" where
  "galloc_ok ga live avail base \<longleftrightarrow> page_alloc_ok (ga_page ga) live avail
     \<and> (\<forall>h. 0 < avail h \<longrightarrow> (\<exists>r h'. ga_arc ga h = Some (r, h') \<and> base \<le> r \<and> live h \<subseteq> live h' \<and> avail h \<le> Suc (avail h')))
     \<and> (\<forall>p h. live h - {p} \<subseteq> live (ga_free ga p h) \<and> avail h \<le> avail (ga_free ga p h))"

lemma page_available:
  assumes "page_alloc_ok al live avail" "Suc n \<le> avail h"
  obtains p h' where "al h = Some (p, h')" "p \<noteq> 0" "p \<notin> live h" "live h' = insert p (live h)" "n \<le> avail h'"
proof -
  obtain p h' where p: "al h = Some (p, h')" using assms unfolding page_alloc_ok_def by (metis not_less_eq_eq le0 option.exhaust surj_pair)
  note q = page_alloc_okD [OF assms(1) p]
  then have "p \<noteq> 0" by (auto simp: KERNBASE_def)
  then show ?thesis using that [OF p] q assms(2) by simp
qed

lemma init_supplied_ok:
  assumes ga: "galloc_ok ga live avail base"
    and tabs: "\<And>t tab. tables (kvm s) t = Some tab \<Longrightarrow> length tab = 1024 \<and> t \<in> live (heap (kvm s))"
    and mem: "70 \<le> avail (heap (kvm s))" and code: "length code < 4096"
    and data: "unat data mod 4096 = 0" "0x80100000 < unat data" "unat data < 0x8E000000"
  shows "\<exists>a. init_supplied ga data code s a \<and> base \<le> ip_ref a"
proof -
  note al = ga [unfolded galloc_ok_def, THEN conjunct1]
  obtain p1 h1 where 1: "ga_page ga (heap (kvm s)) = Some (p1, h1)" "p1 \<noteq> 0" "p1 \<notin> live (heap (kvm s))" "live h1 = insert p1 (live (heap (kvm s)))" "69 \<le> avail h1"
    by (rule page_available [OF al, of 69 "heap (kvm s)"]) (use mem in auto)
  obtain p2 h2 where 2: "ga_page ga h1 = Some (p2, h2)" "p2 \<noteq> 0" "live h2 = insert p2 (live h1)" "68 \<le> avail h2"
    by (rule page_available [OF al, of 68 h1]) (use 1(5) in auto)
  obtain r h3 where 3: "ga_arc ga h2 = Some (r, h3)" "base \<le> r" "live h2 \<subseteq> live h3" "67 \<le> avail h3"
    using ga 2(4) unfolding galloc_ok_def by (elim conjE allE [of _ h2]) auto
  let ?v1 = "(kvm s)\<lparr>heap := h1, dir_addr := p1, pg_dir := replicate NPDENTRIES 0\<rparr>" let ?v2 = "?v1\<lparr>heap := h2\<rparr>"
  have v: "page_directory_zero_boxed (ga_page ga) (kvm s) = Inr ?v1" "kalloc (ga_page ga) ?v1 = Inr (Some p2, ?v2)"
    using 1 2 by (simp_all add: page_directory_zero_boxed_def kalloc_def heap_alloc_def)
  have tabs3: "length tab = 1024 \<and> t \<in> live (heap (?v2\<lparr>heap := h3\<rparr>)) - {p1}" if "tables (?v2\<lparr>heap := h3\<rparr>) t = Some tab" for t tab
    using tabs [of t tab] that 1(3,4) 2(3) 3(3) by auto
  have keep: "p1 \<in> live h' \<and> p \<notin> {p1}" if "p1 \<in> live h" "ga_page ga h = Some (p, h')" for h p h'
    using page_alloc_okD [OF al that(2)] that(1) by auto
  have pre: "p1 \<in> live (heap (?v2\<lparr>heap := h3\<rparr>))" "66 \<le> avail (heap (?v2\<lparr>heap := h3\<rparr>))" using 1(4) 2(3) 3(3,4) by auto
  obtain s1 where s1: "setup_kvm (ga_page ga) data (?v2\<lparr>heap := h3\<rparr>) = Inr (Some s1)" "pt_inv (ga_page ga) live avail s1" "pt_view s1 = kvm_view (vpn data)"
      "avail h3 \<le> avail (heap s1) + 65" "dom (tables s1) \<inter> {p1} = {}"
    by (rule setup_kvm_keeps [where Q = "\<lambda>h. p1 \<in> live h" and R = "{p1}", OF al tabs3 pre(1) _ pre(2) data]) (use keep in auto)
  let ?s = "s1\<lparr>heap := ga_free ga p1 (heap s1)\<rparr>"
  have free: "live (heap s1) - {p1} \<subseteq> live (heap ?s)" "avail (heap s1) \<le> avail (heap ?s)" using ga by (simp_all add: galloc_ok_def)
  have "t \<in> live (heap ?s)" if "tables s1 t = Some tab" for t tab
    using pt_invD(6) [OF s1(2) that] s1(5) that free(1) by (cases "t = p1") auto
  then have inv: "pt_inv (ga_page ga) live avail ?s" using s1(2) by (auto simp: pt_inv_def)
  have av: "2 \<le> avail (heap ?s)" using s1(4) 3(4) free(2) by simp
  have "pt_view ?s = pt_view s1" by (rule ext) (simp add: pt_view_def)
  then have "pt_view ?s 0 AND PRESENT = 0" unfolding s1(3) using kvm_view_cases [OF data_section_sizes(1,2) [OF data], of 0] s1(3) by simp
  then obtain s2 where "uvm_init (ga_page ga) ?s code = Inr s2" using uvm_init_ok [OF inv code _ av] by auto
  then show ?thesis using v 3(1,2) s1(1)
    by (intro exI [of _ "\<lparr>ip_dir = ?v1, ip_stack = p2, ip_vm = ?v2, ip_ref = r, ip_heap = h3, ip_kvm = s1, ip_uvm = s2\<rparr>"]) (simp add: init_supplied_def)
qed

end
