(* ===== verification/Ports.thy ===== *)
theory Ports
  imports Xv6_Prelude
begin

text \<open>
  Access to I/O ports (\<^verbatim>\<open>utils/src/x86.rs\<close>). What a driver writes is recorded in order; what it reads is taken
  from a list of values that the device returns. \<^verbatim>\<open>outsl\<close> and \<^verbatim>\<open>insl\<close> are recorded with the address of the
  buffer and the number of double words.
\<close>

datatype io = OutB u16 u8 | OutSL u16 usize nat | InSL u16 usize nat

definition outb :: "u16 \<Rightarrow> u8 \<Rightarrow> io list \<Rightarrow> io list" where
  "outb port data tr = tr @ [OutB port data]"

definition outsl :: "u16 \<Rightarrow> usize \<Rightarrow> nat \<Rightarrow> io list \<Rightarrow> io list" where
  "outsl port addr cnt tr = tr @ [OutSL port addr cnt]"

definition insl :: "u16 \<Rightarrow> usize \<Rightarrow> nat \<Rightarrow> io list \<Rightarrow> io list" where
  "insl port addr cnt tr = tr @ [InSL port addr cnt]"

text \<open>One read of a port: the values still to come must not be used up.\<close>

definition inb :: "u8 list \<Rightarrow> (u8 \<times> u8 list) res" where
  "inb vs = (case vs of [] \<Rightarrow> Fail Spin | v # rest \<Rightarrow> Ok (v, rest))"

lemmas port_defs = outb_def outsl_def insl_def inb_def

section \<open>Disk addresses\<close>

text \<open>What the registers of the disk controller, each with the value written last, select: the logical block.\<close>

definition port_value :: "u16 \<Rightarrow> io list \<Rightarrow> u8" where
  "port_value p tr = (case filter (\<lambda>e. case e of OutB q _ \<Rightarrow> q = p | _ \<Rightarrow> False) (rev tr) of OutB _ v # _ \<Rightarrow> v | _ \<Rightarrow> 0)"

definition selected_lba :: "io list \<Rightarrow> nat" where
  "selected_lba tr = unat (port_value 0x1F3 tr) + 256 * unat (port_value 0x1F4 tr) + 65536 * unat (port_value 0x1F5 tr) + 16777216 * unat (port_value 0x1F6 tr AND 0x0F)"

lemma unat_bounded: "take_bit 32 (unat (w :: u32)) = unat w"
  using unsigned_less [of w, where ?'a = nat] by (simp add: take_bit_nat_eq_self)

lemma byte_of: "unat (ucast (drop_bit n (w :: u32) AND 0xFF) :: u8) = unat w div 2 ^ n mod 256"
proof -
  have "drop_bit n w AND 0xFF = take_bit 8 (drop_bit n w)" by (simp add: take_bit_eq_mask mask_eq_exp_minus_1)
  then have "unat (ucast (drop_bit n w AND 0xFF) :: u8) = take_bit 8 (take_bit 8 (drop_bit n (unat w)))"
    by (simp only: unsigned_ucast_eq unsigned_take_bit_eq unsigned_drop_bit_eq) (simp add: unat_bounded)
  then show ?thesis by (simp add: take_bit_eq_mod drop_bit_eq_div)
qed

lemma nibble_of: "unat (ucast (drop_bit 24 (w :: u32) AND 0x0F) :: u8) = unat w div 2 ^ 24 mod 16"
proof -
  have "drop_bit 24 w AND 0x0F = take_bit 4 (drop_bit 24 w)" by (simp add: take_bit_eq_mask mask_eq_exp_minus_1)
  then have "unat (ucast (drop_bit 24 w AND 0x0F) :: u8) = take_bit 8 (take_bit 4 (drop_bit 24 (unat w)))"
    by (simp only: unsigned_ucast_eq unsigned_take_bit_eq unsigned_drop_bit_eq) (simp add: unat_bounded)
  then show ?thesis by (simp add: take_bit_eq_mod drop_bit_eq_div mod_mod_cancel)
qed

lemma lba_digits:
  fixes n :: nat
  shows "n mod 256 + 256 * (n div 2 ^ 8 mod 256) + 65536 * (n div 2 ^ 16 mod 256) + 16777216 * (n div 2 ^ 24 mod 16) = n mod 2 ^ 28"
proof -
  have "n mod 2 ^ 28 = n mod 2 ^ 8 + 2 ^ 8 * (n div 2 ^ 8 mod 2 ^ 20)"
    using mod_mult2_eq [of n "2 ^ 8" "2 ^ 20"] by simp
  also have "n div 2 ^ 8 mod 2 ^ 20 = n div 2 ^ 8 mod 2 ^ 8 + 2 ^ 8 * (n div 2 ^ 8 div 2 ^ 8 mod 2 ^ 12)"
    using mod_mult2_eq [of "n div 2 ^ 8" "2 ^ 8" "2 ^ 12"] by simp
  also have "n div 2 ^ 8 div 2 ^ 8 mod 2 ^ 12 = n div 2 ^ 16 mod 2 ^ 8 + 2 ^ 8 * (n div 2 ^ 24 mod 2 ^ 4)"
    using mod_mult2_eq [of "n div 2 ^ 16" "2 ^ 8" "2 ^ 4"] by (simp add: div_mult2_eq [symmetric])
  finally show ?thesis by simp
qed

end
