(* ===== verification/Boot_Code.thy ===== *)
theory Boot_Code
  imports Address_Space I386 Ports Descriptors
begin

text \<open>
  The assembly that starts the machine: the boot sector \<^verbatim>\<open>start\<close> (\<^verbatim>\<open>bootloader/src/main.rs\<close>), the entry of the kernel and
  \<^verbatim>\<open>ap_start\<close>, where the other processors begin (\<^verbatim>\<open>kernel/src/main.rs\<close>). The processor of theory \<open>I386\<close> is extended with the
  control registers, the register of the descriptor table, and the ports of the keyboard controller. The addresses of
  labels are arguments of the code. Addresses are translated when paging is on; \<open>spaces\<close> gives the address
  space that a value of CR3 selects.
\<close>

section \<open>The machine\<close>

datatype cr = CR0 | CR3 | CR4

record sys =
  core :: mach
  crs :: "cr \<Rightarrow> u32"
  gdtr :: u32
  int_on :: bool
  rstack :: "u32 list"    \<comment> \<open>the stack that the firmware left\<close>
  kin :: "u8 list"        \<comment> \<open>what reads of the ports 0x64 and 0x60 of the keyboard controller return, in the order of the reads\<close>
  kout :: "io list"

datatype sinstr =
    Core instr
  | Cli
  | XorAX                 \<comment> \<open>\<^verbatim>\<open>xorw %ax, %ax\<close>\<close>
  | MovAL u8 | OrAL u8
  | InAL u16 | OutAL u16
  | PushEAX | PopEAX
  | WaitClear u8          \<comment> \<open>\<^verbatim>\<open>inb $0x64, %al; testb imm, %al; jnz\<close> back\<close>
  | WaitSet u8            \<comment> \<open>the same with \<^verbatim>\<open>jz\<close>\<close>
  | Lgdt u32
  | FromCr cr | ToCr cr   \<comment> \<open>between \<^verbatim>\<open>%eax\<close> and a control register\<close>
  | OrEAX u32
  | MovI u32 reg
  | LoadAbs u32 reg
  | Ljmp u16 u32
  | JmpEAX
  | CallTo u32 u32        \<comment> \<open>target and return address\<close>
  | CallAbs u32 u32       \<comment> \<open>\<^verbatim>\<open>call *(addr)\<close>\<close>

definition CR0_PE :: u32 where "CR0_PE = 0x00000001"
definition CR0_WP :: u32 where "CR0_WP = 0x00010000"
definition CR0_PG :: u32 where "CR0_PG = 0x80000000"
definition CR4_PSE :: u32 where "CR4_PSE = 0x00000010"

definition phys :: "(u32 \<Rightarrow> 'h vm) \<Rightarrow> (cr \<Rightarrow> u32) \<Rightarrow> u32 \<Rightarrow> u32 res" where
  "phys spaces c a = (if c CR0 AND CR0_PG = 0 then Ok a
     else case translate (spaces (c CR3)) a of None \<Rightarrow> Fail (Undefined ''page fault'') | Some (p, _) \<Rightarrow> Ok p)"

definition load :: "(u32 \<Rightarrow> 'h vm) \<Rightarrow> sys \<Rightarrow> u32 \<Rightarrow> u32 res" where
  "load spaces s a = rbind (phys spaces (crs s) a) (ld (core s))"

definition push_ret :: "(u32 \<Rightarrow> 'h vm) \<Rightarrow> u32 \<Rightarrow> u32 \<Rightarrow> sys \<Rightarrow> sys res" where
  "push_ret spaces target ret s = (let a = gpr (core s) ESP - 4 in
     rbind (phys spaces (crs s) a) (\<lambda>p. rbind (st p ret (set_gpr ESP a (core s))) (\<lambda>m. Ok (s\<lparr>core := m\<lparr>eip := target\<rparr>\<rparr>))))"

definition eax :: "sys \<Rightarrow> u32" where
  "eax s = gpr (core s) EAX"

definition set_eax :: "u32 \<Rightarrow> sys \<Rightarrow> sys" where
  "set_eax v s = s\<lparr>core := set_gpr EAX v (core s)\<rparr>"

definition set_al :: "u8 \<Rightarrow> sys \<Rightarrow> sys" where
  "set_al v s = set_eax ((eax s AND 0xFFFFFF00) OR ucast v) s"

definition al_of :: "sys \<Rightarrow> u8" where
  "al_of s = ucast (eax s)"

fun poll :: "(u8 \<Rightarrow> bool) \<Rightarrow> u8 list \<Rightarrow> (u8 \<times> u8 list) res" where
  "poll P [] = Fail Spin"
| "poll P (v # vs) = (if P v then Ok (v, vs) else poll P vs)"

definition await :: "(u8 \<Rightarrow> bool) \<Rightarrow> sys \<Rightarrow> sys res" where
  "await P s = rbind (poll P (kin s)) (\<lambda>(v, vs). Ok (set_al v (s\<lparr>kin := vs\<rparr>)))"

fun sexec :: "(u32 \<Rightarrow> 'h vm) \<Rightarrow> sinstr \<Rightarrow> sys \<Rightarrow> sys res" where
  "sexec sp (Core i) s = rbind (exec i (core s)) (\<lambda>m. Ok (s\<lparr>core := m\<rparr>))"
| "sexec sp Cli s = Ok (s\<lparr>int_on := False\<rparr>)"
| "sexec sp XorAX s = Ok (set_eax (eax s AND 0xFFFF0000) s)"
| "sexec sp (MovAL v) s = Ok (set_al v s)"
| "sexec sp (OrAL v) s = Ok (set_al (al_of s OR v) s)"
| "sexec sp (InAL p) s = await (\<lambda>_. True) s"
| "sexec sp (OutAL p) s = Ok (s\<lparr>kout := outb p (al_of s) (kout s)\<rparr>)"
| "sexec sp PushEAX s = Ok (s\<lparr>rstack := eax s # rstack s\<rparr>)"
| "sexec sp PopEAX s = (case rstack s of [] \<Rightarrow> Fail (Undefined ''stack'') | v # vs \<Rightarrow> Ok (set_eax v (s\<lparr>rstack := vs\<rparr>)))"
| "sexec sp (WaitClear k) s = await (\<lambda>v. v AND k = 0) s"
| "sexec sp (WaitSet k) s = await (\<lambda>v. v AND k \<noteq> 0) s"
| "sexec sp (Lgdt a) s = Ok (s\<lparr>gdtr := a\<rparr>)"
| "sexec sp (FromCr c) s = Ok (set_eax (crs s c) s)"
| "sexec sp (ToCr c) s = Ok (s\<lparr>crs := (crs s)(c := eax s)\<rparr>)"
| "sexec sp (OrEAX v) s = Ok (set_eax (eax s OR v) s)"
| "sexec sp (MovI v r) s = Ok (s\<lparr>core := set_gpr r v (core s)\<rparr>)"
| "sexec sp (LoadAbs a r) s = rbind (load sp s a) (\<lambda>v. Ok (s\<lparr>core := set_gpr r v (core s)\<rparr>))"
| "sexec sp (Ljmp sel a) s = Ok (s\<lparr>core := set_sgr CS sel ((core s)\<lparr>eip := a\<rparr>)\<rparr>)"
| "sexec sp JmpEAX s = Ok (s\<lparr>core := (core s)\<lparr>eip := eax s\<rparr>\<rparr>)"
| "sexec sp (CallTo a ret) s = push_ret sp a ret s"
| "sexec sp (CallAbs a ret) s = rbind (load sp s a) (\<lambda>t. push_ret sp t ret s)"

fun srun :: "(u32 \<Rightarrow> 'h vm) \<Rightarrow> sinstr list \<Rightarrow> sys \<Rightarrow> sys res" where
  "srun sp [] s = Ok s"
| "srun sp (i # is) s = rbind (sexec sp i s) (srun sp is)"

section \<open>The code\<close>

definition enable_A20 :: "sinstr list" where
  "enable_A20 =
     [WaitClear 0x02, MovAL 0xAD, OutAL 0x64,
      WaitClear 0x02, MovAL 0xD0, OutAL 0x64,
      WaitSet 0x01, InAL 0x60, PushEAX,
      WaitClear 0x02, MovAL 0xD1, OutAL 0x64,
      WaitClear 0x02, PopEAX, OrAL 0x02, OutAL 0x60,
      WaitClear 0x02, MovAL 0xAE, OutAL 0x64,
      WaitClear 0x02]"

definition boot_start :: "u32 \<Rightarrow> u32 \<Rightarrow> u32 \<Rightarrow> u32 \<Rightarrow> u32 \<Rightarrow> sinstr list" where
  "boot_start here start32 gdtdesc boot_main spin =
     [Cli, XorAX, Core (MovSeg DS), Core (MovSeg ES), Core (MovSeg SS)]
     @ enable_A20
     @ [Lgdt gdtdesc, FromCr CR0, OrEAX 0x00000001, ToCr CR0, Ljmp (push_bit 3 1) start32]
     @ [Core (MovAX (push_bit 3 2)), Core (MovSeg DS), Core (MovSeg ES), Core (MovSeg SS),
        Core (MovAX 0), Core (MovSeg FS), Core (MovSeg GS), MovI here ESP, CallTo boot_main spin]"

definition kernel_entry :: "u32 \<Rightarrow> u32 \<Rightarrow> u32 \<Rightarrow> sinstr list" where
  "kernel_entry page_dir stk main =
     [FromCr CR4, OrEAX CR4_PSE, ToCr CR4,
      MovI (page_dir - KERNBASE) EAX, ToCr CR3,
      FromCr CR0, OrEAX (CR0_PG OR CR0_WP), ToCr CR0,
      MovI (stk + 4096 * 2) ESP,
      MovI main EAX, JmpEAX]"

definition ap_start :: "u32 \<Rightarrow> u32 \<Rightarrow> u32 \<Rightarrow> u32 \<Rightarrow> sinstr list" where
  "ap_start here start32 gdtdesc ret =
     [Cli, XorAX, Core (MovSeg DS), Core (MovSeg SS), Core (MovSeg ES),
      Lgdt gdtdesc, FromCr CR0, OrEAX CR0_PE, ToCr CR0, Ljmp (push_bit 3 1) start32,
      Core (MovAX (push_bit 3 2)), Core (MovSeg DS), Core (MovSeg ES), Core (MovSeg SS),
      Core (MovAX 0), Core (MovSeg FS), Core (MovSeg GS),
      FromCr CR4, OrEAX CR4_PSE, ToCr CR4,
      LoadAbs (here - 12) EAX, ToCr CR3,
      FromCr CR0, OrEAX (CR0_PE OR CR0_PG OR CR0_WP), ToCr CR0,
      LoadAbs (here - 4) ESP, CallAbs (here - 8) ret]"

section \<open>Lemmas\<close>

lemmas cr_consts = CR0_PE_def CR0_WP_def CR0_PG_def CR4_PSE_def

lemma srun_append: "srun sp (xs @ ys) s = rbind (srun sp xs s) (srun sp ys)"
  by (induction xs arbitrary: s) (simp_all add: rbind_def fun_eq_iff split: sum.splits)

lemma set_eax_simps [simp]:
  "eax (set_eax v s) = v" "crs (set_eax v s) = crs s" "kin (set_eax v s) = kin s" "kout (set_eax v s) = kout s" "rstack (set_eax v s) = rstack s"
  "core (set_eax v s) = set_gpr EAX v (core s)" "int_on (set_eax v s) = int_on s" "gdtr (set_eax v s) = gdtr s"
  by (simp_all add: set_eax_def eax_def set_gpr_def)

text \<open>The reads of one wait: values that do not satisfy the condition and one that does.\<close>

definition waits :: "(u8 \<Rightarrow> bool) \<Rightarrow> u8 list \<Rightarrow> bool" where
  "waits P w \<longleftrightarrow> (\<exists>xs v. w = xs @ [v] \<and> P v \<and> (\<forall>x \<in> set xs. \<not> P x))"

lemma poll_waits: "waits P w \<Longrightarrow> poll P (w @ vs) = Inr (last w, vs)"
proof -
  have "\<forall>x \<in> set xs. \<not> P x \<Longrightarrow> P v \<Longrightarrow> poll P (xs @ v # vs) = Inr (v, vs)" for xs v by (induction xs) auto
  then show "waits P w \<Longrightarrow> ?thesis" by (auto simp: waits_def)
qed

lemma await_waits:
  assumes "waits P w" "kin s = w @ vs"
  shows "await P s = Inr (set_al (last w) (s\<lparr>kin := vs\<rparr>))"
  using poll_waits [OF assms(1), of vs] assms(2) by (simp add: await_def)

lemma al_set_al [simp]: "al_of (set_al v s) = v"
proof -
  have m: "(0xFFFFFF00 :: u32) = NOT (mask 8)" by (simp add: mask_eq_exp_minus_1)
  show ?thesis unfolding al_of_def set_al_def m by (rule bit_word_eqI) (auto simp: bit_simps)
qed

lemma set_al_simps [simp]:
  "crs (set_al v s) = crs s" "kin (set_al v s) = kin s" "kout (set_al v s) = kout s" "rstack (set_al v s) = rstack s"
  "int_on (set_al v s) = int_on s" "gdtr (set_al v s) = gdtr s" "core (set_al v s) = set_gpr EAX (eax (set_al v s)) (core s)"
  by (simp_all add: set_al_def)

lemma set_eax_absorb [simp]:
  "set_eax x ((set_eax y s)\<lparr>kin := k, kout := l\<rparr>) = set_eax x (s\<lparr>kin := k, kout := l\<rparr>)"
  "set_eax x ((set_eax y s)\<lparr>kin := k\<rparr>) = set_eax x (s\<lparr>kin := k\<rparr>)"
  "set_eax x (set_eax y s) = set_eax x s"
  by (simp_all add: set_eax_def set_gpr_def)

lemma low_byte: "ucast ((x AND 0xFFFFFF00) OR ucast (v :: u8) :: u32) = v"
  using al_set_al [of v "set_eax x s"] by (simp add: al_of_def set_al_def)

text \<open>The reads of the keyboard controller: seven waits, and between the third and the fourth the value of its output port.\<close>

definition a20_input :: "u8 \<Rightarrow> u8 list \<Rightarrow> bool" where
  "a20_input v vs \<longleftrightarrow> (\<exists>w1 w2 w3 w4 w5 w6 w7. vs = w1 @ w2 @ w3 @ v # w4 @ w5 @ w6 @ w7
     \<and> (\<forall>w \<in> {w1, w2, w4, w5, w6, w7}. waits (\<lambda>x. x AND 2 = 0) w) \<and> waits (\<lambda>x. x AND 1 \<noteq> 0) w3)"

lemma enable_A20_ok:
  assumes "a20_input v (kin s)"
  shows "\<exists>x. srun sp enable_A20 s = Inr (set_eax x (s\<lparr>kin := [], kout := kout s @
    [OutB 0x64 0xAD, OutB 0x64 0xD0, OutB 0x64 0xD1, OutB 0x60 (v OR 2), OutB 0x64 0xAE]\<rparr>))"
proof -
  obtain w1 w2 w3 w4 w5 w6 w7 where k: "kin s = w1 @ w2 @ w3 @ v # w4 @ w5 @ w6 @ w7" and w3: "waits (\<lambda>x. x AND 1 \<noteq> 0) w3"
    and w: "waits (\<lambda>x. x AND 2 = 0) w1" "waits (\<lambda>x. x AND 2 = 0) w2" "waits (\<lambda>x. x AND 2 = 0) w4" "waits (\<lambda>x. x AND 2 = 0) w5"
      "waits (\<lambda>x. x AND 2 = 0) w6" "waits (\<lambda>x. x AND 2 = 0) w7"
    using assms unfolding a20_input_def by auto
  note n = low_byte [of _ "0xAD", simplified] low_byte [of _ "0xD0", simplified] low_byte [of _ "0xD1", simplified] low_byte [of _ "0xAE", simplified]
  note p = poll_waits [OF w(1)] poll_waits [OF w(2)] poll_waits [OF w(3)] poll_waits [OF w(4)] poll_waits [OF w(5)] poll_waits [OF w(6), of "[]", simplified] poll_waits [OF w3]
  show ?thesis
    using k by (cases s) (auto simp: enable_A20_def await_def p set_al_def set_eax_def eax_def al_of_def set_gpr_def low_byte n outb_def)
qed

lemma high_half: "ucast (x AND 0xFFFF0000 :: u32) = (0 :: u16)" "ucast ((x AND 0xFFFF0000) OR 0x10 :: u32) = (0x10 :: u16)"
proof -
  have m: "(0xFFFF0000 :: u32) = NOT (mask 16)" by (simp add: mask_eq_exp_minus_1)
  have z: "ucast (x AND NOT (mask 16) :: u32) = (0 :: u16)" by (rule bit_word_eqI) (auto simp: bit_simps)
  then show "ucast (x AND 0xFFFF0000 :: u32) = (0 :: u16)" unfolding m .
  have "ucast ((x AND NOT (mask 16)) OR 0x10 :: u32) = (ucast (x AND NOT (mask 16)) OR 0x10 :: u16)" by (simp add: unsigned_or_eq)
  then show "ucast ((x AND 0xFFFF0000) OR 0x10 :: u32) = (0x10 :: u16)" unfolding m z by simp
qed

lemma boot_translate:
  assumes "pg_dir (spaces (c CR3)) = entry_page_dir" "x < 0x400000"
  shows "phys spaces c x = Inr x" "c CR0 AND CR0_PG \<noteq> 0 \<Longrightarrow> phys spaces c (KERNBASE + x) = Inr x"
  using boot_window [OF assms] by (simp_all add: phys_def)

section \<open>Properties\<close>

text \<open>C39. The boot sector ends in the call of \<^verbatim>\<open>boot_main\<close> in protected mode: interrupts are off, the code segment
  selects the first and the data and stack segments the second descriptor of its table, the stack begins just below the code,
  and the commands to the keyboard controller set the A20 bit of the output port and keep its other bits.\<close>

theorem boot_enters_protected_mode:
  assumes "a20_input v (kin s)" "crs s CR0 AND CR0_PG = 0" "aligned4 here"
  shows "\<exists>s'. srun spaces (boot_start here start32 gdtdesc boot_main spin) s = Inr s'
    \<and> crs s' = (crs s)(CR0 := crs s CR0 OR CR0_PE) \<and> \<not> int_on s' \<and> gdtr s' = gdtdesc
    \<and> map (sgr (core s')) [CS, DS, ES, SS, FS, GS] = [0x08, 0x10, 0x10, 0x10, 0, 0]
    \<and> gpr (core s') ESP = here - 4 \<and> dmem (core s') = (dmem (core s))(here - 4 := spin) \<and> eip (core s') = boot_main
    \<and> kout s' = kout s @ [OutB 0x64 0xAD, OutB 0x64 0xD0, OutB 0x64 0xD1, OutB 0x60 (v OR 2), OutB 0x64 0xAE]"
proof -
  let ?s1 = "set_eax (eax s AND 0xFFFF0000) (s\<lparr>int_on := False\<rparr>)"
  let ?s2 = "?s1\<lparr>core := set_sgr SS 0 (set_sgr ES 0 (set_sgr DS 0 (core ?s1)))\<rparr>"
  have 1: "srun spaces [Cli, XorAX, Core (MovSeg DS), Core (MovSeg ES), Core (MovSeg SS)] s = Inr ?s2"
    by (simp add: set_eax_def eax_def set_gpr_def set_sgr_def high_half)
  have "a20_input v (kin ?s2)" using assms(1) by simp
  then obtain x where x: "srun spaces enable_A20 ?s2 = Inr (set_eax x (?s2\<lparr>kin := [], kout := kout ?s2 @
      [OutB 0x64 0xAD, OutB 0x64 0xD0, OutB 0x64 0xD1, OutB 0x60 (v OR 2), OutB 0x64 0xAE]\<rparr>))"
    using enable_A20_ok [of v ?s2 spaces] by blast
  have pg: "(crs s CR0 OR 1) AND CR0_PG = 0" using assms(2) by (simp add: CR0_PG_def bit.conj_disj_distrib2)
  show ?thesis unfolding boot_start_def srun_append 1 rbind_simps x
    using assms(3) pg by (simp add: eax_def set_eax_def set_gpr_def set_sgr_def high_half push_ret_def phys_def st_def CR0_PE_def Let_def)
qed

text \<open>C40. The entry code of the kernel turns on paging with the boot page directory and jumps to \<^verbatim>\<open>main\<close> on the kernel's own stack: afterwards
  the first 4 MiB of memory are at their own addresses, where the code still runs, and at \<^verbatim>\<open>KERNBASE\<close>, where \<^verbatim>\<open>main\<close> is.\<close>

theorem kernel_entry_paging:
  assumes "pg_dir (spaces (page_dir - KERNBASE)) = entry_page_dir"
  shows "\<exists>s'. srun spaces (kernel_entry page_dir stk main) s = Inr s' \<and> eip (core s') = main \<and> gpr (core s') ESP = stk + 8192
    \<and> dmem (core s') = dmem (core s) \<and> sgr (core s') = sgr (core s) \<and> crs s' CR4 = crs s CR4 OR CR4_PSE \<and> crs s' CR0 = crs s CR0 OR (CR0_PG OR CR0_WP)
    \<and> (\<forall>x < 0x400000. phys spaces (crs s') x = Inr x \<and> phys spaces (crs s') (KERNBASE + x) = Inr x)"
proof -
  let ?c = "(crs s)(CR4 := crs s CR4 OR CR4_PSE, CR3 := page_dir - KERNBASE, CR0 := crs s CR0 OR (CR0_PG OR CR0_WP))"
  let ?s = "s\<lparr>core := (core s)\<lparr>gpr := (gpr (core s))(EAX := main, ESP := stk + 8192), eip := main\<rparr>, crs := ?c\<rparr>"
  have "srun spaces (kernel_entry page_dir stk main) s = Inr ?s"
    by (simp add: kernel_entry_def set_eax_def eax_def set_gpr_def fun_upd_twist)
  moreover have "phys spaces (crs ?s) x = Inr x \<and> phys spaces (crs ?s) (KERNBASE + x) = Inr x" if "x < 0x400000" for x
  proof -
    have "crs ?s CR0 AND CR0_PG \<noteq> 0" by (simp add: CR0_PG_def CR0_WP_def bit.conj_disj_distrib2)
    then show ?thesis using boot_translate [of spaces "crs ?s" x] assms that by simp
  qed
  ultimately show ?thesis by simp
qed

definition demo_core :: mach where
  "demo_core = \<lparr>gpr = (\<lambda>_. 0x12345678), sgr = (\<lambda>_. 0x30), eip = 0, flags = 2, dmem = (\<lambda>_. 0)\<rparr>"

definition demo_sys :: sys where
  "demo_sys = \<lparr>core = demo_core, crs = (\<lambda>_. 0x10 :: u32), gdtr = 0, int_on = True, rstack = [],
     kin = [2, 0, 0, 0, 1, 0xCC, 0, 0, 0, 0], kout = []\<rparr>"

lemma demo_input: "a20_input 0xCC [2, 0, 0, 0, 1, 0xCC, 0, 0, 0, 0]"
proof -
  have w: "waits (\<lambda>x. x AND 2 = 0) [2, 0]" "waits (\<lambda>x. x AND 2 = 0) [0]" "waits (\<lambda>x. x AND 1 \<noteq> 0) [0, 1]"
    unfolding waits_def by (rule exI [of _ "[2]"], simp) (rule exI [of _ "[]"], simp, rule exI [of _ "[0]"], simp)
  show ?thesis unfolding a20_input_def
    by (rule exI [of _ "[2, 0]"], rule exI [of _ "[0]"], rule exI [of _ "[0, 1]"], rule exI [of _ "[0]"], rule exI [of _ "[0]"], rule exI [of _ "[0]"],
        rule exI [of _ "[0]"]) (simp add: w)
qed

theorem boot_enters_protected_mode_witness:
  "\<exists>s'. srun (\<lambda>_. bump_vm) (boot_start 0x7C00 0x7C60 0x7CB0 0x7D00 0x7C90) demo_sys = Inr s' \<and> crs s' CR0 = 0x11 \<and> eip (core s') = 0x7D00
     \<and> gpr (core s') ESP = 0x7BFC \<and> last (kout s') = OutB 0x64 0xAE"
  using boot_enters_protected_mode [of "0xCC" demo_sys "0x7C00" "\<lambda>_. bump_vm" "0x7C60" "0x7CB0" "0x7D00" "0x7C90"] demo_input
  by (auto simp: demo_sys_def CR0_PG_def CR0_PE_def aligned4_def)

theorem kernel_entry_paging_witness:
  "\<exists>s'. srun (\<lambda>_. bump_vm\<lparr>pg_dir := entry_page_dir\<rparr>) (kernel_entry 0x80109000 0x8010A000 0x80101234) demo_sys = Inr s'
     \<and> eip (core s') = 0x80101234 \<and> phys (\<lambda>_. bump_vm\<lparr>pg_dir := entry_page_dir\<rparr>) (crs s') (KERNBASE + 0x101234) = Inr 0x101234"
proof -
  have "pg_dir ((\<lambda>_ :: u32. bump_vm\<lparr>pg_dir := entry_page_dir\<rparr>) (0x80109000 - KERNBASE)) = entry_page_dir" by simp
  from kernel_entry_paging [OF this, where stk = "0x8010A000" and main = "0x80101234" and s = demo_sys]
  obtain s' where "srun (\<lambda>_. bump_vm\<lparr>pg_dir := entry_page_dir\<rparr>) (kernel_entry 0x80109000 0x8010A000 0x80101234) demo_sys = Inr s'" "eip (core s') = 0x80101234"
    "\<forall>x < 0x400000. phys (\<lambda>_. bump_vm\<lparr>pg_dir := entry_page_dir\<rparr>) (crs s') x = Inr x \<and> phys (\<lambda>_. bump_vm\<lparr>pg_dir := entry_page_dir\<rparr>) (crs s') (KERNBASE + x) = Inr x"
    by blast
  moreover from this(3) have "phys (\<lambda>_. bump_vm\<lparr>pg_dir := entry_page_dir\<rparr>) (crs s') (KERNBASE + 0x101234) = Inr 0x101234" by (elim allE [of _ "0x101234"]) simp
  ultimately show ?thesis by blast
qed

section \<open>Other processors\<close>

text \<open>
  The code at \<^verbatim>\<open>ap_start\<close>, which lies at 0x7000, reads three words that \<^verbatim>\<open>start_others\<close> leaves just below it: the top of the
  stack, the function to call, and the physical address of the page directory.
\<close>

lemma ap_start_runs:
  assumes "dmem (core s) 0x6FFC = tos" "dmem (core s) 0x6FF8 = fn" "dmem (core s) 0x6FF4 = dir" "pg_dir (spaces dir) = entry_page_dir"
    and "crs s CR0 AND CR0_PG = 0" "aligned4 tos" "tos - 4 = KERNBASE + x" "x < 0x400000"
  shows "\<exists>s'. srun spaces (ap_start 0x7000 start32 gdtdesc ret) s = Inr s' \<and> eip (core s') = fn \<and> gpr (core s') ESP = tos - 4
    \<and> dmem (core s') = (dmem (core s))(x := ret) \<and> map (sgr (core s')) [CS, DS, ES, SS, FS, GS] = [0x08, 0x10, 0x10, 0x10, 0, 0]
    \<and> crs s' CR3 = dir \<and> crs s' CR0 = crs s CR0 OR (CR0_PE OR CR0_PG OR CR0_WP) \<and> \<not> int_on s' \<and> gdtr s' = gdtdesc"
proof -
  let ?code = "ap_start 0x7000 start32 gdtdesc ret"
  let ?c = "(crs s)(CR4 := crs s CR4 OR CR4_PSE, CR3 := dir, CR0 := crs s CR0 OR (CR0_PE OR CR0_PG OR CR0_WP))"
  let ?g = "(sgr (core s))(CS := 0x08, DS := 0x10, ES := 0x10, SS := 0x10, FS := 0, GS := 0)"
  have o: "(crs s CR0 OR CR0_PE) OR (CR0_PE OR CR0_PG OR CR0_WP) = crs s CR0 OR (CR0_PE OR CR0_PG OR CR0_WP)"
    by (simp add: cr_consts or.assoc)
  have pg: "(crs s CR0 OR CR0_PE) AND CR0_PG = 0" using assms(5) by (simp add: CR0_PG_def CR0_PE_def bit.conj_disj_distrib2)
  have 1: "srun spaces (take 25 ?code) s = Inr (s\<lparr>core := (core s)\<lparr>gpr := (gpr (core s))(EAX := crs s CR0 OR (CR0_PE OR CR0_PG OR CR0_WP)), sgr := ?g, eip := start32\<rparr>,
      crs := ?c, int_on := False, gdtr := gdtdesc\<rparr>)" (is "_ = Inr ?s")
    using assms(3) pg by (simp add: ap_start_def set_eax_def eax_def set_gpr_def set_sgr_def high_half load_def phys_def ld_def aligned4_def o fun_upd_twist)
  have "crs ?s CR0 AND CR0_PG \<noteq> 0" by (simp add: cr_consts bit.conj_disj_distrib2)
  then have t: "phys spaces (crs ?s) y = Inr y" "phys spaces (crs ?s) (KERNBASE + y) = Inr y" if "y < 0x400000" for y
    using boot_translate [of spaces "crs ?s" y] assms(4) that by simp_all
  have "aligned4 (x + KERNBASE)" using assms(6,7) aligned4_diff [of 4 tos] by (simp add: add.commute)
  then have "aligned4 x" by (simp add: KERNBASE_def)
  then have "srun spaces (drop 25 ?code) ?s = Inr (?s\<lparr>core := (core ?s)\<lparr>gpr := (gpr (core ?s))(ESP := tos - 4), dmem := (dmem (core s))(x := ret), eip := fn\<rparr>\<rparr>)"
    using t(1) [of "0x6FFC"] t(1) [of "0x6FF8"] t(2) [OF assms(8)] assms(1,2,7)
    by (simp add: ap_start_def load_def ld_def push_ret_def st_def set_gpr_def Let_def aligned4_def)
  then show ?thesis using srun_append [of spaces "take 25 ?code" "drop 25 ?code" s] 1 by simp
qed

end
