(* ===== verification/Apic.thy ===== *)
theory Apic
  imports Cpus Ports
begin

text \<open>
  The interrupt controllers: the local APIC (\<^verbatim>\<open>kernel/src/lapic.rs\<close>), the I/O APIC (\<^verbatim>\<open>kernel/src/ioapic.rs\<close>) and
  the two 8259A (\<^verbatim>\<open>kernel/src/pic_irq.rs\<close>). The writes to a local APIC are recorded in order, and the values
  that its registers return are an argument. The I/O APIC is its selection register and its register file.
  Messages to the log are left out.
\<close>

section \<open>Interrupt numbers\<close>

definition T_IRQ0 :: u32 where "T_IRQ0 = 32"
definition IRQ_TIMER :: u32 where "IRQ_TIMER = 0"
definition IRQ_KBD :: u32 where "IRQ_KBD = 1"
definition IRQ_COM1 :: u32 where "IRQ_COM1 = 4"
definition IRQ_IDE :: u32 where "IRQ_IDE = 14"
definition IRQ_ERROR :: u32 where "IRQ_ERROR = 19"
definition IRQ_SPURIOUS :: u32 where "IRQ_SPURIOUS = 31"

lemmas irq_defs = T_IRQ0_def IRQ_TIMER_def IRQ_KBD_def IRQ_COM1_def IRQ_IDE_def IRQ_ERROR_def IRQ_SPURIOUS_def

section \<open>The local APIC\<close>

datatype LapicReg = ID | VER | TPR | EOI | SVR | ESR | ICRLO | ICRHI | TIMER | PCINT | LINT0 | LINT1 | ERROR | TICR | TCCR | TDCR

text \<open>The index of a register in the array of double words of the APIC.\<close>

primrec reg_index :: "LapicReg \<Rightarrow> usize" where
  "reg_index ID = 0x0020 div 4"
| "reg_index VER = 0x0030 div 4"
| "reg_index TPR = 0x0080 div 4"
| "reg_index EOI = 0x00B0 div 4"
| "reg_index SVR = 0x00F0 div 4"
| "reg_index ESR = 0x0280 div 4"
| "reg_index ICRLO = 0x0300 div 4"
| "reg_index ICRHI = 0x0310 div 4"
| "reg_index TIMER = 0x0320 div 4"
| "reg_index PCINT = 0x0340 div 4"
| "reg_index LINT0 = 0x0350 div 4"
| "reg_index LINT1 = 0x0360 div 4"
| "reg_index ERROR = 0x0370 div 4"
| "reg_index TICR = 0x0380 div 4"
| "reg_index TCCR = 0x0390 div 4"
| "reg_index TDCR = 0x03E0 div 4"

definition ENABLE :: u32 where "ENABLE = 0x00000100"
definition INIT :: u32 where "INIT = 0x00000500"
definition STARTUP :: u32 where "STARTUP = 0x00000600"
definition DELIVS :: u32 where "DELIVS = 0x00001000"
definition ASSERT :: u32 where "ASSERT = 0x00004000"
definition LEVEL :: u32 where "LEVEL = 0x00008000"
definition BCAST :: u32 where "BCAST = 0x00080000"
definition X1 :: u32 where "X1 = 0x0000000B"
definition PERIODIC :: u32 where "PERIODIC = 0x00020000"
definition MASKED :: u32 where "MASKED = 0x00010000"

lemmas lapic_consts = ENABLE_def INIT_def STARTUP_def DELIVS_def ASSERT_def LEVEL_def BCAST_def X1_def PERIODIC_def MASKED_def

text \<open>
  The local APIC of the processor that executes: its version register, the values that reads of the
  interrupt command register will return, and the writes so far, as address and value.
\<close>

record lapic_dev =
  lapic_version :: u32
  icr :: "u32 list"
  lwrites :: "(usize \<times> u32) list"

definition lapic_write :: "usize option \<Rightarrow> LapicReg \<Rightarrow> u32 \<Rightarrow> lapic_dev \<Rightarrow> lapic_dev res" where
  "lapic_write base r v d = rbind (rexpect base ''called Option::unwrap() on a None value'') (\<lambda>b.
     Ok (d\<lparr>lwrites := lwrites d @ [(b + 4 * reg_index r, v)]\<rparr>))"

fun lapic_writes :: "usize option \<Rightarrow> (LapicReg \<times> u32) list \<Rightarrow> lapic_dev \<Rightarrow> lapic_dev res" where
  "lapic_writes base [] d = Ok d"
| "lapic_writes base ((r, v) # ws) d = rbind (lapic_write base r v d) (lapic_writes base ws)"

fun wait_delivered :: "u32 list \<Rightarrow> u32 list res" where
  "wait_delivered [] = Fail Spin"
| "wait_delivered (v # vs) = (if v AND DELIVS > 0 then wait_delivered vs else Ok vs)"

definition lapic_init :: "usize option \<Rightarrow> lapic_dev \<Rightarrow> lapic_dev res" where
  "lapic_init base d =
     (if base = None then Ok d
      else
        rbind (lapic_writes base
          [(SVR, ENABLE OR (T_IRQ0 + IRQ_SPURIOUS)),
           (TDCR, X1),
           (TIMER, PERIODIC OR (T_IRQ0 + IRQ_TIMER)),
           (TICR, 10000000),
           (LINT0, MASKED),
           (LINT1, MASKED)] d) (\<lambda>d1.
        rbind (if drop_bit 16 (lapic_version d1) AND 0xFF \<ge> 4 then lapic_write base PCINT MASKED d1 else Ok d1) (\<lambda>d2.
        rbind (lapic_writes base
          [(ERROR, T_IRQ0 + IRQ_ERROR),
           (ESR, 0),
           (ESR, 0),
           (EOI, 0),
           (ICRHI, 0),
           (ICRLO, BCAST OR INIT OR LEVEL)] d2) (\<lambda>d3.
        rbind (wait_delivered (icr d3)) (\<lambda>vs.
        lapic_write base TPR 0 (d3\<lparr>icr := vs\<rparr>))))))"

definition eoi :: "usize option \<Rightarrow> lapic_dev \<Rightarrow> lapic_dev res" where
  "eoi base d = (if base = None then Ok d else lapic_write base EOI 0 d)"

definition CMOS_PORT :: u16 where "CMOS_PORT = 0x70"

text \<open>
  Start of another processor. The warm reset vector are the two half words at physical address 0x467,
  written here as a list of addresses and values.
\<close>

definition warm_reset :: "usize \<Rightarrow> (usize \<times> u16) list res" where
  "warm_reset addr = rbind (p2v (push_bit 4 0x40 OR 0x67)) (\<lambda>wrv. Ok [(wrv, 0), (wrv + 2, ucast (drop_bit 4 addr))])"

definition start_ap :: "usize option \<Rightarrow> u8 \<Rightarrow> usize \<Rightarrow> lapic_dev \<times> io list \<Rightarrow> ((usize \<times> u16) list \<times> lapic_dev \<times> io list) res" where
  "start_ap base ap addr = (\<lambda>(d, tr).
     let tr1 = outb (CMOS_PORT + 1) 0x0A (outb (CMOS_PORT + 0) 0x0F tr);
         dest = push_bit 24 (ucast ap);
         startup = [(ICRHI, dest), (ICRLO, STARTUP OR drop_bit 12 addr)] in
     rbind (warm_reset addr) (\<lambda>wrv.
     rbind (lapic_writes base ([(ICRHI, dest), (ICRLO, INIT OR LEVEL OR ASSERT), (ICRLO, INIT OR LEVEL)] @ startup @ startup) d) (\<lambda>d1.
     Ok (wrv, d1, tr1))))"

section \<open>The I/O APIC\<close>

definition REG_ID :: u32 where "REG_ID = 0x00"
definition REG_VER :: u32 where "REG_VER = 0x01"
definition REG_TABLE :: u32 where "REG_TABLE = 0x10"
definition INT_DISABLED :: u32 where "INT_DISABLED = 0x00010000"

lemmas ioapic_consts = REG_ID_def REG_VER_def REG_TABLE_def INT_DISABLED_def

text \<open>
  The registers behind the index and data words. The index is kept at its full 32 bits, of which a device may decode only the lowest 8: the
  driver uses no others.
\<close>

record ioapic =
  io_sel :: u32
  io_regs :: "u32 \<Rightarrow> u32"

definition ioapic_read :: "u32 \<Rightarrow> ioapic \<Rightarrow> u32 \<times> ioapic" where
  "ioapic_read r d = (let d1 = d\<lparr>io_sel := r\<rparr> in (io_regs d1 (io_sel d1), d1))"

definition ioapic_write :: "u32 \<Rightarrow> u32 \<Rightarrow> ioapic \<Rightarrow> ioapic" where
  "ioapic_write r v d = (let d1 = d\<lparr>io_sel := r\<rparr> in d1\<lparr>io_regs := (io_regs d1)(io_sel d1 := v)\<rparr>)"

text \<open>The two registers of an interrupt in the redirection table.\<close>

definition table_reg :: "u32 \<Rightarrow> u32 \<Rightarrow> u32 res" where
  "table_reg irq k = rbind (checked_mul 2 irq) (\<lambda>x. rbind (checked_add REG_TABLE x) (\<lambda>y. checked_add y k))"

definition route :: "u32 \<Rightarrow> u32 res \<Rightarrow> u32 \<Rightarrow> ioapic \<Rightarrow> ioapic res" where
  "route irq low high d =
     rbind (table_reg irq 0) (\<lambda>r. rbind low (\<lambda>v. let d1 = ioapic_write r v d in
     rbind (table_reg irq 1) (\<lambda>r'. Ok (ioapic_write r' high d1))))"

definition ioapic_init :: "ioapic \<Rightarrow> ioapic res" where
  "ioapic_init d =
     (let (ver, d1) = ioapic_read REG_VER d in
      rbind (checked_add (drop_bit 16 ver AND 0xFF) 1) (\<lambda>max_intr.
      let (idr, d2) = ioapic_read REG_ID d1 in
      for_range 0 (unat max_intr) (\<lambda>i d.
        route (of_nat i) (rbind (checked_add T_IRQ0 (of_nat i)) (\<lambda>v. Ok (INT_DISABLED OR v))) 0 d) d2))"

definition enable :: "u32 \<Rightarrow> usize \<Rightarrow> ioapic \<Rightarrow> ioapic res" where
  "enable irq cpu_num = route irq (checked_add T_IRQ0 irq) (push_bit 24 cpu_num)"

section \<open>The 8259A\<close>

definition IO_PIC1 :: u16 where "IO_PIC1 = 0x20"
definition IO_PIC2 :: u16 where "IO_PIC2 = 0xA0"

definition pic_init :: "io list \<Rightarrow> io list" where
  "pic_init tr = outb (IO_PIC2 + 1) 0xFF (outb (IO_PIC1 + 1) 0xFF tr)"

section \<open>Starting the local APIC\<close>

lemma wait_delivered_ok: "\<exists>v \<in> set vs. v AND DELIVS = 0 \<Longrightarrow> \<exists>rest. wait_delivered vs = Inr rest"
  by (induction vs) (auto simp: word_gt_0)

text \<open>The vectors that the local APIC delivers: the timer at 32, errors at 51 and spurious interrupts at 63.\<close>

lemma lapic_init_returns:
  assumes "\<exists>v \<in> set (icr d). v AND DELIVS = 0"
  shows "\<exists>d' ws. lapic_init base d = Inr d' \<and> lapic_version d' = lapic_version d \<and> lwrites d' = lwrites d @ ws
    \<and> (\<forall>b. base = Some b \<longrightarrow> (b + 0xF0, 0x13F) \<in> set ws \<and> (b + 0x320, 0x20020) \<in> set ws \<and> (b + 0x370, 0x33) \<in> set ws \<and> last ws = (b + 0x80, 0))"
proof (cases base)
  case (Some b)
  obtain vs where "wait_delivered (icr d) = Inr vs" using wait_delivered_ok [OF assms] by blast
  then show ?thesis using Some by (simp add: lapic_init_def lapic_write_def irq_defs lapic_consts)
qed (simp add: lapic_init_def)

section \<open>The redirection table\<close>

text \<open>The pair of registers of an interrupt, and the requests of the drivers in order.\<close>

definition redirection :: "ioapic \<Rightarrow> nat \<Rightarrow> u32 \<times> u32" where
  "redirection d i = (io_regs d (REG_TABLE + 2 * of_nat i), io_regs d (REG_TABLE + 2 * of_nat i + 1))"

fun enables :: "(nat \<times> usize) list \<Rightarrow> ioapic \<Rightarrow> ioapic res" where
  "enables [] d = Ok d"
| "enables ((irq, cpu) # es) d = rbind (enable (of_nat irq) cpu d) (enables es)"

definition others_same :: "nat \<Rightarrow> ioapic \<Rightarrow> ioapic \<Rightarrow> bool" where
  "others_same n d d' \<longleftrightarrow> (\<forall>r. unat r < 16 \<or> 16 + 2 * n \<le> unat r \<longrightarrow> io_regs d' r = io_regs d r)"

lemma reg_unat: "i < 256 \<Longrightarrow> unat (REG_TABLE + 2 * of_nat i) = 16 + 2 * i" "i < 256 \<Longrightarrow> unat (REG_TABLE + 2 * of_nat i + 1) = 17 + 2 * i"
  by (simp_all add: REG_TABLE_def unat_word_ariths unat_of_nat)

lemma table_reg_ok: "i < 256 \<Longrightarrow> table_reg (of_nat i) 0 = Inr (REG_TABLE + 2 * of_nat i)" "i < 256 \<Longrightarrow> table_reg (of_nat i) 1 = Inr (REG_TABLE + 2 * of_nat i + 1)"
  by (simp_all add: table_reg_def checked_add_def checked_mul_def REG_TABLE_def unat_word_ariths unat_of_nat)

lemma route_ok:
  assumes "i < 256" "low = Inr v"
  shows "\<exists>d'. route (of_nat i) low high d = Inr d' \<and> redirection d' i = (v, high) \<and> (\<forall>j < 256. j \<noteq> i \<longrightarrow> redirection d' j = redirection d j)
    \<and> (\<forall>n. i < n \<longrightarrow> others_same n d d')"
proof -
  let ?r = "REG_TABLE + 2 * of_nat i :: u32" and ?s = "REG_TABLE + 2 * of_nat i + 1 :: u32"
  let ?d = "ioapic_write ?s high (ioapic_write ?r v d)"
  have io: "io_regs ?d x = (if unat x = 17 + 2 * i then high else if unat x = 16 + 2 * i then v else io_regs d x)" for x
    using reg_unat [OF assms(1)] by (auto simp: ioapic_write_def Let_def word_unat_eq_iff)
  have "route (of_nat i) low high d = Inr ?d" unfolding route_def table_reg_ok [OF assms(1)] assms(2) by (simp add: Let_def)
  moreover have "redirection ?d i = (v, high)" unfolding redirection_def io reg_unat [OF assms(1)] by simp
  moreover have "redirection ?d j = redirection d j" if "j < 256" "j \<noteq> i" for j using that(2) unfolding redirection_def io reg_unat [OF that(1)] by simp
  moreover have "others_same n d ?d" if "i < n" for n using that unfolding others_same_def io by auto
  ultimately show ?thesis by blast
qed

lemma others_same_trans: "others_same n d1 d2 \<Longrightarrow> others_same n d2 d3 \<Longrightarrow> others_same n d1 d3"
  by (simp add: others_same_def)

lemma irq_vector: "i < 256 \<Longrightarrow> checked_add T_IRQ0 (of_nat i) = Inr (T_IRQ0 + of_nat i)"
  by (simp add: checked_add_def T_IRQ0_def unat_of_nat)

definition masked_entry :: "nat \<Rightarrow> u32 \<times> u32" where
  "masked_entry i = (INT_DISABLED OR (T_IRQ0 + of_nat i), 0)"

definition open_entry :: "nat \<Rightarrow> usize \<Rightarrow> u32 \<times> u32" where
  "open_entry i cpu = (T_IRQ0 + of_nat i, push_bit 24 cpu)"

definition io_lines :: "ioapic \<Rightarrow> nat" where
  "io_lines d = unat (drop_bit 16 (io_regs d REG_VER) AND 0xFF) + 1"

lemma io_lines_le: "io_lines d \<le> 256"
proof -
  have "unat (drop_bit 16 (io_regs d REG_VER) AND 0xFF) \<le> unat (0xFF :: u32)" by (rule word_le_nat_alt [THEN iffD1], rule word_and_le1)
  then show ?thesis by (simp add: io_lines_def)
qed

lemma ioapic_init_masks:
  "\<exists>d'. ioapic_init d = Inr d' \<and> (\<forall>i < io_lines d. redirection d' i = masked_entry i) \<and> others_same (io_lines d) d d'"
proof -
  let ?v = "drop_bit 16 (io_regs d REG_VER) AND 0xFF" and ?d = "d\<lparr>io_sel := REG_ID\<rparr>"
  let ?f = "\<lambda>i d. route (of_nat i) (rbind (checked_add T_IRQ0 (of_nat i)) (\<lambda>v. Ok (INT_DISABLED OR v))) 0 d"
  have v: "checked_add ?v 1 = Inr (?v + 1)" "unat (?v + 1) = io_lines d"
    using io_lines_le [of d] by (simp_all add: checked_add_def io_lines_def unat_word_ariths)
  have "\<exists>d'. for_range 0 (io_lines d) ?f ?d = Inr d' \<and> (\<forall>i < io_lines d. redirection d' i = masked_entry i) \<and> others_same (io_lines d) d d'"
  proof (rule for_range_inv [where P = "\<lambda>k d'. (\<forall>i < k. redirection d' i = masked_entry i) \<and> others_same (io_lines d) d d'"])
    fix i d1 assume i: "i < io_lines d" and P: "(\<forall>j < i. redirection d1 j = masked_entry j) \<and> others_same (io_lines d) d d1"
    have "i < 256" using i io_lines_le [of d] by simp
    then obtain d2 where "?f i d1 = Inr d2" "redirection d2 i = masked_entry i" "\<forall>j < 256. j \<noteq> i \<longrightarrow> redirection d2 j = redirection d1 j" "others_same (io_lines d) d1 d2"
      using route_ok [of i "rbind (checked_add T_IRQ0 (of_nat i)) (\<lambda>v. Ok (INT_DISABLED OR v))" "INT_DISABLED OR (T_IRQ0 + of_nat i)" 0 d1] i
      by (auto simp: irq_vector masked_entry_def)
    then show "\<exists>d2. ?f i d1 = Inr d2 \<and> (\<forall>j < Suc i. redirection d2 j = masked_entry j) \<and> others_same (io_lines d) d d2"
      using P others_same_trans \<open>i < 256\<close> by (auto simp: less_Suc_eq)
  qed (simp_all add: others_same_def)
  then show ?thesis using v by (simp add: ioapic_init_def ioapic_read_def Let_def)
qed

lemma enables_open:
  "\<forall>(i, c) \<in> set es. i < n \<Longrightarrow> n \<le> 256 \<Longrightarrow>
    \<exists>d'. enables es d = Inr d' \<and> (\<forall>i < n. redirection d' i = (case map_of (rev es) i of Some c \<Rightarrow> open_entry i c | None \<Rightarrow> redirection d i)) \<and> others_same n d d'"
proof (induction es arbitrary: d)
  case (Cons e es)
  obtain i c where e: "e = (i, c)" "i < n" "i < 256" using Cons.prems by (cases e) auto
  obtain d1 where d1: "enable (of_nat i) c d = Inr d1" "redirection d1 i = open_entry i c" "\<forall>j < 256. j \<noteq> i \<longrightarrow> redirection d1 j = redirection d j" "others_same n d d1"
    using route_ok [of i "checked_add T_IRQ0 (of_nat i)" _ "push_bit 24 c" d] e by (auto simp: enable_def irq_vector open_entry_def)
  obtain d2 where d2: "enables es d1 = Inr d2" "\<forall>i < n. redirection d2 i = (case map_of (rev es) i of Some c \<Rightarrow> open_entry i c | None \<Rightarrow> redirection d1 i)" "others_same n d1 d2"
    using Cons.IH [of d1] Cons.prems by auto
  have "redirection d2 j = (case map_of (rev (e # es)) j of Some c \<Rightarrow> open_entry j c | None \<Rightarrow> redirection d j)" if "j < n" for j
    using d2(2) d1(2,3) that Cons.prems(2) by (auto simp: e map_add_def split: option.splits)
  then show ?case using d1(1,4) d2(1,3) others_same_trans by (auto simp: e)
qed (simp add: others_same_def)

section \<open>Interprocessor interrupts\<close>

text \<open>
  What a sequence of writes to the interrupt command register asks for (Intel SDM, volume 3, 11.6): a write
  of the low half sends, to the processor in the upper byte of the high half, a message with the delivery mode in
  the bits 8 to 10, the level in bit 14 and the vector in the lower byte.
\<close>

datatype ipi = InitAssert | InitDeassert | StartAt nat | OtherIpi

definition ipi_of :: "u32 \<Rightarrow> ipi" where
  "ipi_of v = (let mode = drop_bit 8 v AND 7 in
     if mode = 5 then (if bit v 14 then InitAssert else InitDeassert)
     else if mode = 6 then StartAt (unat (v AND 0xFF) * 4096) else OtherIpi)"

fun ipis :: "usize \<Rightarrow> u32 \<Rightarrow> (usize \<times> u32) list \<Rightarrow> (u32 \<times> ipi) list" where
  "ipis b dest [] = []"
| "ipis b dest ((a, v) # ws) =
     (if a = b + 0x310 then ipis b (drop_bit 24 v) ws
      else if a = b + 0x300 then (dest, ipi_of v) # ipis b dest ws else ipis b dest ws)"

lemma dest_byte: "drop_bit 24 (push_bit 24 (ucast (ap :: u8) :: u32)) = ucast ap"
  by (rule bit_word_eqI) (auto simp: bit_simps dest: bit_imp_le_length)

lemma start_vector: "drop_bit 12 (push_bit 12 (ucast (p :: u8) :: u32)) = ucast p" "ucast (drop_bit 4 (push_bit 12 (ucast (p :: u8) :: u32))) = (push_bit 8 (ucast p) :: u16)"
  by (rule bit_word_eqI; auto simp: bit_simps dest: bit_imp_le_length)+

lemma unat_ucast8: "unat (ucast (p :: u8) :: u32) = unat p"
  using unsigned_less [of p, where ?'a = nat] by (simp add: unsigned_ucast_eq take_bit_nat_eq_self)

lemma ipi_of_startup: "ipi_of (STARTUP OR ucast (p :: u8)) = StartAt (4096 * unat p)"
proof -
  have "drop_bit 8 (ucast p :: u32) = 0" by (rule bit_word_eqI) (auto simp: bit_simps dest: bit_imp_le_length)
  then have m: "drop_bit 8 (STARTUP OR ucast p) AND 7 = 6" by (simp add: STARTUP_def drop_bit_or)
  have "(0xFF :: u32) = mask 8" by (simp add: mask_eq_exp_minus_1)
  then have "(ucast p :: u32) AND 0xFF = ucast p"
    by (simp only: take_bit_eq_mask [symmetric]) (rule bit_word_eqI, auto simp: bit_simps dest: bit_imp_le_length)
  then have "(STARTUP OR ucast p) AND 0xFF = ucast p" by (simp add: STARTUP_def bit.conj_disj_distrib2)
  then show ?thesis using m by (simp add: ipi_of_def unat_ucast8 del: drop_bit_or)
qed

section \<open>Properties\<close>

text \<open>C38. After \<^verbatim>\<open>ioapic::init\<close> and any requests of the drivers, every line of the I/O APIC is routed as the last request
  for it said, with the vector 32 plus its number, and masked when there was none; no other register changes.\<close>

theorem ioapic_routing:
  assumes "\<forall>(i, c) \<in> set es. i < io_lines d"
  shows "\<exists>d'. rbind (ioapic_init d) (enables es) = Inr d' \<and> others_same (io_lines d) d d'
    \<and> (\<forall>i < io_lines d. redirection d' i = (case map_of (rev es) i of Some c \<Rightarrow> (T_IRQ0 + of_nat i, push_bit 24 c) | None \<Rightarrow> (INT_DISABLED OR (T_IRQ0 + of_nat i), 0)))"
proof -
  obtain d1 where d1: "ioapic_init d = Inr d1" "\<forall>i < io_lines d. redirection d1 i = masked_entry i" "others_same (io_lines d) d d1" using ioapic_init_masks by blast
  obtain d2 where "enables es d1 = Inr d2" "others_same (io_lines d) d1 d2"
      "\<forall>i < io_lines d. redirection d2 i = (case map_of (rev es) i of Some c \<Rightarrow> open_entry i c | None \<Rightarrow> redirection d1 i)"
    using enables_open [OF assms io_lines_le, of d1] by blast
  then show ?thesis using d1 others_same_trans by (auto simp: open_entry_def masked_entry_def cong: option.case_cong)
qed

theorem ioapic_routing_witness:
  "\<exists>d'. rbind (ioapic_init \<lparr>io_sel = 0, io_regs = (\<lambda>_. 0x00170000)\<rparr>) (enables [(1, 0), (4, 0), (14, 3)]) = Inr d'
     \<and> redirection d' 14 = (46, 0x03000000) \<and> redirection d' 2 = (0x00010022, 0)"
proof -
  let ?d = "\<lparr>io_sel = 0, io_regs = (\<lambda>_. 0x00170000)\<rparr>"
  have l: "io_lines ?d = 24" by (simp add: io_lines_def)
  have "\<forall>(i, c) \<in> set [(1, 0 :: usize), (4, 0), (14, 3)]. i < io_lines ?d" unfolding l by simp
  from ioapic_routing [OF this] show ?thesis unfolding l by (auto simp: T_IRQ0_def INT_DISABLED_def)
qed

text \<open>Starting a processor at the page \<open>p\<close> of the first megabyte sets the shutdown code and a warm reset vector that
  points to that page, and sends exactly the four messages of the universal startup algorithm to that processor:
  INIT asserted, INIT deasserted and twice STARTUP at the address of the page.\<close>

lemma start_ap_sequence:
  "\<exists>d' ws. start_ap (Some b) ap (push_bit 12 (ucast (p :: u8))) (d, tr)
      = Inr ([(KERNBASE + 0x467, 0), (KERNBASE + 0x469, push_bit 8 (ucast p))], d', tr @ [OutB 0x70 0x0F, OutB 0x71 0x0A])
    \<and> lwrites d' = lwrites d @ ws
    \<and> ipis b dest ws = [(ucast ap, InitAssert), (ucast ap, InitDeassert), (ucast ap, StartAt (4096 * unat p)), (ucast ap, StartAt (4096 * unat p))]"
proof -
  have "ipi_of (INIT OR LEVEL OR ASSERT) = InitAssert" "ipi_of (INIT OR LEVEL) = InitDeassert" by (simp_all add: ipi_of_def lapic_consts)
  then show ?thesis
    by (simp add: start_ap_def warm_reset_def p2v_def checked_add_def KERNBASE_def lapic_write_def outb_def CMOS_PORT_def dest_byte start_vector ipi_of_startup Let_def)
qed

end
