(* ===== verification/Startup.thy ===== *)
theory Startup
  imports Boot_Code Apic Scheduling
begin

text \<open>
  The start of the other processors (\<^verbatim>\<open>kernel/src/main.rs\<close>: \<^verbatim>\<open>start_others\<close>, \<^verbatim>\<open>mp_enter\<close>, \<^verbatim>\<open>mp_main\<close>; \<^verbatim>\<open>seginit\<close> of
  \<^verbatim>\<open>kernel/src/vm.rs\<close> and \<^verbatim>\<open>idt_init\<close> of \<^verbatim>\<open>kernel/src/trap.rs\<close>). Besides the kernel state there are the local APIC and
  some registers of each processor. What the started processor does while \<^verbatim>\<open>start_others\<close> waits for it is an
  argument; \<open>ap_boot\<close> is what the hardware and the code of theory \<open>Boot_Code\<close> do.
\<close>

section \<open>State\<close>

record 'h smp =
  ker :: "'h pst"
  lapics :: "u8 \<Rightarrow> lapic_dev"
  port_out :: "io list"
  wrv :: "(usize \<times> u16) list"
  esp_of :: "u8 \<Rightarrow> u32"
  gdtr_of :: "u8 \<Rightarrow> u16 list"
  idtr_of :: "u8 \<Rightarrow> u16 list"

text \<open>Addresses that the linker and the allocator have chosen, and the descriptor tables by number of processor.\<close>

record image =
  mp_enter_addr :: u32
  entry_dir_addr :: usize
  kpg_dir_addr :: usize
  idt_addr :: usize
  gdt_addr :: "nat \<Rightarrow> usize"

section \<open>Operations\<close>

definition seginit :: "image \<Rightarrow> u8 \<Rightarrow> 'h smp \<Rightarrow> 'h smp res" where
  "seginit im me t =
     rbind (my_cpu_id me (ker t)) (\<lambda>i.
     rbind (with_cpu me (\<lambda>c. Ok ((), c\<lparr>gdt := seginit_gdt (gdt c)\<rparr>)) (ker t)) (\<lambda>(_, s).
     rbind (pseudo_desc (gdt_addr im i) (of_nat (8 * NSEGS))) (\<lambda>d.
     Ok (t\<lparr>ker := s, gdtr_of := (gdtr_of t)(me := d)\<rparr>))))"

definition idt_init :: "image \<Rightarrow> u8 \<Rightarrow> 'h smp \<Rightarrow> 'h smp res" where
  "idt_init im me t = rbind (pseudo_desc (idt_addr im) (of_nat (8 * 256))) (\<lambda>d. Ok (t\<lparr>idtr_of := (idtr_of t)(me := d)\<rparr>))"

definition lapic_start :: "u8 \<Rightarrow> 'h smp \<Rightarrow> 'h smp res" where
  "lapic_start me t = rbind (lapic_init (lapic (ker t)) (lapics t me)) (\<lambda>d. Ok (t\<lparr>lapics := (lapics t)(me := d)\<rparr>))"

text \<open>
  \<^verbatim>\<open>mp_main\<close> up to the call of the scheduler. Of the message at its start, which is printed under the lock of the screen, only the question for
  the number of the processor is modelled.
\<close>

definition mp_main :: "image \<Rightarrow> u8 \<Rightarrow> 'h smp \<Rightarrow> 'h smp res" where
  "mp_main im me t =
     rbind (my_cpu_id me (ker t)) (\<lambda>_.
     rbind (idt_init im me t) (\<lambda>t1.
     rbind (my_cpu_id me (ker t1)) (\<lambda>id.
     rbind (rindex (cpus (ker t1)) id) (\<lambda>c.
     Ok (t1\<lparr>ker := (ker t1)\<lparr>cpu_table := (cpu_table (ker t1))[id := c\<lparr>started := True\<rparr>]\<rparr>\<rparr>)))))"

definition mp_enter :: "image \<Rightarrow> u8 \<Rightarrow> 'h smp \<Rightarrow> 'h smp res" where
  "mp_enter im me t =
     rbind (switch_kvm me (kpg_dir_addr im) (ker t)) (\<lambda>s.
     rbind (seginit im me (t\<lparr>ker := s\<rparr>)) (\<lambda>t1.
     rbind (lapic_start me t1) (\<lambda>t2. mp_main im me t2)))"

definition ptr_layout :: layout where
  "ptr_layout = \<lparr>size_of = 4, align_of = 4\<rparr>"

text \<open>The body of the loop of \<^verbatim>\<open>start_others\<close>; \<open>wait\<close> is what the processor that has been started does.\<close>

definition start_other :: "image \<Rightarrow> 'h page_alloc \<Rightarrow> (u8 \<Rightarrow> 'h smp \<Rightarrow> 'h smp res) \<Rightarrow> u8 \<Rightarrow> nat \<Rightarrow> nat \<Rightarrow> 'h smp \<Rightarrow> 'h smp res" where
  "start_other im al wait me main_cpu_id idx t =
     (if idx = main_cpu_id then Ok t
      else
        rbind (rindex (cpus (ker t)) idx) (\<lambda>cpu.
        rbind (kalloc al (kvm (ker t))) (\<lambda>(page, v).
        rbind (rexpect page ''called Option::unwrap() on a None value'') (\<lambda>stk.
        rbind (addr_from_raw ptr_layout 0x7000) (\<lambda>pa.
        rbind (p2v pa) (\<lambda>code.
        rbind (v2p (entry_dir_addr im)) (\<lambda>dir.
        let mem = (kmem (ker t))(code - 4 := stk + KSTACKSIZE, code - 8 := mp_enter_addr im, code - 12 := dir);
            s = (ker t)\<lparr>kvm := v, kmem := mem\<rparr> in
        rbind (v2p code) (\<lambda>code_pa.
        rbind (start_ap (lapic s) (apic_id cpu) code_pa (lapics t me, port_out t)) (\<lambda>(w, d, tr).
        rbind (wait (apic_id cpu) (t\<lparr>ker := s, lapics := (lapics t)(me := d), port_out := tr, wrv := w\<rparr>)) (\<lambda>t1.
        rbind (rindex (cpus (ker t1)) idx) (\<lambda>cpu1.
        if started cpu1 then Ok t1 else Fail Spin)))))))))))"

definition start_others :: "image \<Rightarrow> 'h page_alloc \<Rightarrow> (u8 \<Rightarrow> 'h smp \<Rightarrow> 'h smp res) \<Rightarrow> u8 \<Rightarrow> 'h smp \<Rightarrow> 'h smp res" where
  "start_others im al wait me t =
     rbind (my_cpu_id me (ker t)) (\<lambda>main_cpu_id.
     for_range 0 (length (cpus (ker t))) (start_other im al wait me main_cpu_id) t)"

section \<open>The other processors\<close>

text \<open>
  A processor that the last message told to start at the page of \<^verbatim>\<open>ap_start\<close> runs that code on the memory that \<^verbatim>\<open>start_others\<close> has
  prepared, from a state \<open>reset\<close> of its registers, and then the function it calls.
\<close>

definition told_to_start :: "usize option \<Rightarrow> u8 \<Rightarrow> lapic_dev \<Rightarrow> bool" where
  "told_to_start base ap d = (case base of None \<Rightarrow> False
     | Some b \<Rightarrow> ipis b 0 (lwrites d) \<noteq> [] \<and> last (ipis b 0 (lwrites d)) = (ucast ap, StartAt 0x7000))"

definition ap_boot :: "(u32 \<Rightarrow> 'h vm) \<Rightarrow> image \<Rightarrow> (u32 \<times> u32 \<times> u32) \<Rightarrow> sys \<Rightarrow> u8 \<Rightarrow> u8 \<Rightarrow> 'h smp \<Rightarrow> 'h smp res" where
  "ap_boot spaces im labels reset me ap t = (case labels of (start32, gdtdesc, ret) \<Rightarrow>
     if \<not> told_to_start (lapic (ker t)) ap (lapics t me) then Fail Spin
     else rbind (srun spaces (ap_start 0x7000 start32 gdtdesc ret)
            (reset\<lparr>core := (core reset)\<lparr>dmem := (\<lambda>p. kmem (ker t) (p + KERNBASE))\<rparr>\<rparr>)) (\<lambda>s1.
       if eip (core s1) \<noteq> mp_enter_addr im \<or> int_on s1 then Fail (Undefined ''wild jump'')
       else mp_enter im ap (t\<lparr>ker := (ker t)\<lparr>kmem := (\<lambda>a. dmem (core s1) (a - KERNBASE)), eflags := (eflags (ker t))(ap := eflags (ker t) ap AND NOT FL_IF)\<rparr>,
         esp_of := (esp_of t)(ap := gpr (core s1) ESP)\<rparr>)))"

section \<open>Lemmas\<close>

text \<open>The processors are registered with distinct identifiers.\<close>

definition cpus_ok :: "'b kst_scheme \<Rightarrow> bool" where
  "cpus_ok s \<longleftrightarrow> lapic s \<noteq> None \<and> n_cpu s \<le> length (cpu_table s) \<and> distinct (map apic_id (cpus s))"

lemma position_distinct:
  "distinct (map f xs) \<Longrightarrow> i < length xs \<Longrightarrow> position (\<lambda>x. f x = f (xs ! i)) xs = Some i"
proof (induction xs arbitrary: i)
  case (Cons x xs)
  then show ?case by (cases i) (auto simp: nth_mem)
qed simp

lemma my_cpu_id_at:
  assumes "cpus_ok s" "idx < n_cpu s" "apic_id (cpu_table s ! idx) = ap" "eflags s ap AND FL_IF = 0"
  shows "my_cpu_id ap s = Inr idx"
proof -
  have "idx < length (cpus s)" "cpus s ! idx = cpu_table s ! idx" using assms(1,2) by (simp_all add: cpus_ok_def cpus_def)
  then have "position (\<lambda>c. apic_id c = ap) (cpus s) = Some idx"
    using position_distinct [of apic_id "cpus s" idx] assms(1,3) by (simp add: cpus_ok_def)
  then show ?thesis using assms(1,4) by (auto simp: my_cpu_id_def lapic_id_def cpus_ok_def)
qed

lemma ids_update: "apic_id c = apic_id (xs ! i) \<Longrightarrow> map apic_id (take n (xs[i := c])) = map apic_id (take n xs)"
  by (metis list_update_id map_update take_map)

text \<open>What a processor changes in its own record.\<close>

definition brought_up :: "CpuShared \<Rightarrow> CpuShared" where
  "brought_up c = c\<lparr>cpu_private := (cpu_private c)\<lparr>gdt := seginit_gdt (gdt (cpu_private c))\<rparr>, started := True\<rparr>"

text \<open>The register of a table of \<open>n\<close> descriptors at address \<open>a\<close>: the offset of its last byte and the two halves of the address.\<close>

definition dt_reg :: "usize \<Rightarrow> nat \<Rightarrow> u16 list" where
  "dt_reg a n = [of_nat (8 * n) - 1, ucast a, ucast (drop_bit 16 a)]"

lemma pseudo_desc_ok: "0 < (of_nat (8 * n) :: u16) \<Longrightarrow> pseudo_desc a (of_nat (8 * n)) = Inr (dt_reg a n)"
  by (simp add: pseudo_desc_def dt_reg_def checked_sub_def word_le_nat_alt word_less_nat_alt del: of_nat_mult)

lemma seginit_ok:
  assumes "cpus_ok (ker t)" "idx < n_cpu (ker t)" "apic_id (cpu_table (ker t) ! idx) = ap" "eflags (ker t) ap AND FL_IF = 0"
  shows "seginit im ap t = Inr (t\<lparr>ker := set_priv idx ((priv (ker t) idx)\<lparr>gdt := seginit_gdt (gdt (priv (ker t) idx))\<rparr>) (ker t),
    gdtr_of := (gdtr_of t)(ap := dt_reg (gdt_addr im idx) NSEGS)\<rparr>)"
  using my_cpu_id_at [OF assms] pseudo_desc_ok [of NSEGS "gdt_addr im idx"] by (simp add: seginit_def with_cpu_def NSEGS_def set_priv_def)

lemma mp_main_ok:
  assumes "cpus_ok (ker t)" "idx < n_cpu (ker t)" "apic_id (cpu_table (ker t) ! idx) = ap" "eflags (ker t) ap AND FL_IF = 0"
  shows "mp_main im ap t = Inr (t\<lparr>ker := (ker t)\<lparr>cpu_table := (cpu_table (ker t))[idx := (cpu_table (ker t) ! idx)\<lparr>started := True\<rparr>]\<rparr>,
    idtr_of := (idtr_of t)(ap := dt_reg (idt_addr im) 256)\<rparr>)"
proof -
  have "idx < length (cpu_table (ker t))" using assms(1,2) by (simp add: cpus_ok_def)
  then show ?thesis using my_cpu_id_at [OF assms] assms(2) pseudo_desc_ok [of 256 "idt_addr im"]
    by (simp add: mp_main_def idt_init_def rindex_def cpus_def)
qed

lemma cpus_ok_update: "cpus_ok s \<Longrightarrow> apic_id c = apic_id (cpu_table s ! i) \<Longrightarrow> cpus_ok (s\<lparr>cpu_table := (cpu_table s)[i := c]\<rparr>)"
  using ids_update [of c "cpu_table s" i "n_cpu s"] by (simp add: cpus_ok_def cpus_def)

lemma mp_enter_ok:
  assumes ok: "cpus_ok (ker t)" and idx: "idx < n_cpu (ker t)" "apic_id (cpu_table (ker t) ! idx) = ap" "eflags (ker t) ap AND FL_IF = 0"
    and dev: "\<exists>v \<in> set (icr (lapics t ap)). v AND DELIVS = 0" and kpg: "KERNBASE \<le> kpg_dir_addr im"
  shows "\<exists>d. mp_enter im ap t = Inr (t\<lparr>ker := (ker t)\<lparr>cr3 := (cr3 (ker t))(ap := kpg_dir_addr im - KERNBASE),
      cpu_table := (cpu_table (ker t))[idx := brought_up (cpu_table (ker t) ! idx)]\<rparr>,
    lapics := (lapics t)(ap := d), gdtr_of := (gdtr_of t)(ap := dt_reg (gdt_addr im idx) NSEGS), idtr_of := (idtr_of t)(ap := dt_reg (idt_addr im) 256)\<rparr>)"
proof -
  let ?s = "ker t" and ?g = "dt_reg (gdt_addr im idx) NSEGS" and ?l = "dt_reg (idt_addr im) 256" and ?c = "cpu_table (ker t) ! idx"
  let ?sa = "?s\<lparr>cr3 := (cr3 ?s)(ap := kpg_dir_addr im - KERNBASE)\<rparr>"
  let ?sb = "set_priv idx ((priv ?sa idx)\<lparr>gdt := seginit_gdt (gdt (priv ?sa idx))\<rparr>) ?sa"
  have len: "idx < length (cpu_table ?s)" using ok idx(1) by (simp add: cpus_ok_def)
  obtain d where d: "lapic_init (lapic ?s) (lapics t ap) = Inr d" using lapic_init_returns [OF dev] by blast
  have kvm: "switch_kvm ap (kpg_dir_addr im) ?s = Inr ?sa" using kpg by (simp add: switch_kvm_def v2p_def checked_sub_def)
  have "cpus_ok (ker (t\<lparr>ker := ?sa\<rparr>))" using ok by (simp add: cpus_ok_def cpus_def)
  then have g: "seginit im ap (t\<lparr>ker := ?sa\<rparr>) = Inr (t\<lparr>ker := ?sb, gdtr_of := (gdtr_of t)(ap := ?g)\<rparr>)"
    using seginit_ok [of "t\<lparr>ker := ?sa\<rparr>" idx ap im] idx by auto
  let ?u = "t\<lparr>ker := ?sb, gdtr_of := (gdtr_of t)(ap := ?g), lapics := (lapics t)(ap := d)\<rparr>"
  have start: "lapic_start ap (t\<lparr>ker := ?sb, gdtr_of := (gdtr_of t)(ap := ?g)\<rparr>) = Inr ?u"
    using d by (simp add: lapic_start_def set_priv_def)
  have "cpus_ok (ker ?u)" using cpus_ok_update [of ?sa "?c\<lparr>cpu_private := x\<rparr>" idx for x] ok by (simp add: set_priv_def cpus_ok_def cpus_def)
  then have "mp_main im ap ?u = Inr (?u\<lparr>ker := ?sb\<lparr>cpu_table := (cpu_table ?sb)[idx := (cpu_table ?sb ! idx)\<lparr>started := True\<rparr>]\<rparr>, idtr_of := (idtr_of t)(ap := ?l)\<rparr>)"
    using mp_main_ok [of ?u idx ap im] idx len by (auto simp: set_priv_def)
  then have "mp_enter im ap t = Inr (?u\<lparr>ker := ?sb\<lparr>cpu_table := (cpu_table ?sb)[idx := (cpu_table ?sb ! idx)\<lparr>started := True\<rparr>]\<rparr>, idtr_of := (idtr_of t)(ap := ?l)\<rparr>)"
    by (simp only: mp_enter_def kvm rbind_simps g start)
  moreover have "(cpu_table ?sb)[idx := (cpu_table ?sb ! idx)\<lparr>started := True\<rparr>] = (cpu_table ?s)[idx := brought_up ?c]"
    using len by (simp add: set_priv_def brought_up_def)
  ultimately show ?thesis by (cases t) (auto simp: set_priv_def)
qed

lemma ipis_append: "\<exists>dest'. ipis b dest (xs @ ys) = ipis b dest xs @ ipis b dest' ys"
  by (induction xs arbitrary: dest) auto

lemma start_ap_told:
  "\<exists>w d' tr'. start_ap (Some b) ap 0x7000 (d, tr) = Inr (w, d', tr') \<and> told_to_start (Some b) ap d'"
proof -
  have seq: "\<exists>w d' tr' ws. start_ap (Some b) ap 0x7000 (d, tr) = Inr (w, d', tr') \<and> lwrites d' = lwrites d @ ws
      \<and> ipis b dest ws \<noteq> [] \<and> last (ipis b dest ws) = (ucast ap, StartAt 0x7000)" for dest
    using start_ap_sequence [of b ap 7 d tr dest] by auto
  obtain w d' tr' ws where 1: "start_ap (Some b) ap 0x7000 (d, tr) = Inr (w, d', tr')" "lwrites d' = lwrites d @ ws" using seq [of 0] by blast
  obtain dest where 2: "ipis b 0 (lwrites d @ ws) = ipis b 0 (lwrites d) @ ipis b dest ws" using ipis_append [of b 0 "lwrites d" ws] by blast
  have "ipis b dest ws \<noteq> []" "last (ipis b dest ws) = (ucast ap, StartAt 0x7000)" using seq [of dest] 1 by auto
  then show ?thesis using 1 2 by (auto simp: told_to_start_def)
qed

lemma stack_below_4M:
  assumes "KERNBASE \<le> stk" "stk \<le> KERNBASE + 0x3FF000"
  shows "stk + 4092 - KERNBASE < 0x400000"
proof -
  have k: "unat KERNBASE = 0x80000000" by (simp add: KERNBASE_def)
  have b: "unat KERNBASE \<le> unat stk" "unat stk \<le> 0x803FF000" using assms by (simp_all add: word_le_nat_alt KERNBASE_def)
  then have s: "unat (stk + 4092) = unat stk + 4092" by (simp add: unat_word_ariths)
  have "unat (stk + 4092 - KERNBASE) = unat stk + 4092 - 0x80000000"
    unfolding s [symmetric] k [symmetric] by (rule unat_sub) (use b s in \<open>simp only: word_le_nat_alt\<close>)
  also have "\<dots> < 0x400000" using b by linarith
  finally show ?thesis by (simp only: word_less_nat_alt unat_numeral) simp
qed

lemma ap_boot_ok:
  assumes told: "told_to_start (lapic (ker t)) ap (lapics t me)"
    and words: "kmem (ker t) 0x80006FFC = stk + KSTACKSIZE" "kmem (ker t) 0x80006FF8 = mp_enter_addr im" "kmem (ker t) 0x80006FF4 = dir"
    and dir: "pg_dir (spaces dir) = entry_page_dir" and reset: "crs reset CR0 AND CR0_PG = 0"
    and stk: "stk mod 4096 = 0" "KERNBASE \<le> stk" "stk \<le> KERNBASE + 0x3FF000"
    and ok: "cpus_ok (ker t)" and idx: "idx < n_cpu (ker t)" "apic_id (cpu_table (ker t) ! idx) = ap"
    and dev: "\<exists>v \<in> set (icr (lapics t ap)). v AND DELIVS = 0" and kpg: "KERNBASE \<le> kpg_dir_addr im"
  shows "\<exists>d m. ap_boot spaces im (start32, gdtdesc, ret) reset me ap t = Inr (t\<lparr>ker := (ker t)\<lparr>
      eflags := (eflags (ker t))(ap := eflags (ker t) ap AND NOT FL_IF), kmem := m,
      cr3 := (cr3 (ker t))(ap := kpg_dir_addr im - KERNBASE), cpu_table := (cpu_table (ker t))[idx := brought_up (cpu_table (ker t) ! idx)]\<rparr>,
    lapics := (lapics t)(ap := d), esp_of := (esp_of t)(ap := stk + 4092),
    gdtr_of := (gdtr_of t)(ap := dt_reg (gdt_addr im idx) NSEGS), idtr_of := (idtr_of t)(ap := dt_reg (idt_addr im) 256)\<rparr>)"
proof -
  let ?r = "reset\<lparr>core := (core reset)\<lparr>dmem := (\<lambda>p. kmem (ker t) (p + KERNBASE))\<rparr>\<rparr>"
  let ?x = "stk + 4092 - KERNBASE" and ?g = "dt_reg (gdt_addr im idx) NSEGS" and ?l = "dt_reg (idt_addr im) 256"
  have u: "unat stk mod 4096 = 0" using arg_cong [OF stk(1), of unat] by (simp add: unat_mod_distrib)
  then have "unat stk mod 4 = 0" using mod_mod_cancel [of 4 4096 "unat stk"] by simp
  then have al4: "aligned4 (stk + 4096)" using aligned4_add [of 4096 stk] by (simp add: aligned4_unat)
  have x: "?x < 0x400000" by (rule stack_below_4M [OF stk(2,3)])
  have r: "dmem (core ?r) 0x6FFC = stk + 4096" "dmem (core ?r) 0x6FF8 = mp_enter_addr im" "dmem (core ?r) 0x6FF4 = dir"
    using words by (simp_all add: KSTACKSIZE_def PAGE_SIZE_def KERNBASE_def)
  have reset': "crs ?r CR0 AND CR0_PG = 0" using reset by simp
  have e: "stk + 4096 - 4 = KERNBASE + ?x" by simp
  obtain s1 where s1: "srun spaces (ap_start 0x7000 start32 gdtdesc ret) ?r = Inr s1" "eip (core s1) = mp_enter_addr im" "gpr (core s1) ESP = stk + 4092" "\<not> int_on s1"
    using ap_start_runs [where spaces = spaces, OF r dir reset' al4 e x, of start32 gdtdesc ret] by (auto simp: add.commute)
  let ?s = "(ker t)\<lparr>kmem := (\<lambda>a. dmem (core s1) (a - KERNBASE)), eflags := (eflags (ker t))(ap := eflags (ker t) ap AND NOT FL_IF)\<rparr>"
  let ?t = "t\<lparr>ker := ?s, esp_of := (esp_of t)(ap := stk + 4092)\<rparr>"
  have pre: "cpus_ok (ker ?t)" "idx < n_cpu (ker ?t)" "apic_id (cpu_table (ker ?t) ! idx) = ap" "eflags (ker ?t) ap AND FL_IF = 0"
      "\<exists>v \<in> set (icr (lapics ?t ap)). v AND DELIVS = 0"
    using ok idx dev by (simp_all add: cpus_ok_def cpus_def and.assoc)
  obtain d where "mp_enter im ap ?t = Inr (?t\<lparr>ker := (ker ?t)\<lparr>cr3 := (cr3 (ker ?t))(ap := kpg_dir_addr im - KERNBASE),
      cpu_table := (cpu_table (ker ?t))[idx := brought_up (cpu_table (ker ?t) ! idx)]\<rparr>,
    lapics := (lapics ?t)(ap := d), gdtr_of := (gdtr_of ?t)(ap := ?g), idtr_of := (idtr_of ?t)(ap := ?l)\<rparr>)"
    using mp_enter_ok [OF pre kpg] by blast
  then have "ap_boot spaces im (start32, gdtdesc, ret) reset me ap t = Inr (?t\<lparr>ker := (ker ?t)\<lparr>cr3 := (cr3 (ker ?t))(ap := kpg_dir_addr im - KERNBASE),
      cpu_table := (cpu_table (ker ?t))[idx := brought_up (cpu_table (ker ?t) ! idx)]\<rparr>,
    lapics := (lapics ?t)(ap := d), gdtr_of := (gdtr_of ?t)(ap := ?g), idtr_of := (idtr_of ?t)(ap := ?l)\<rparr>)"
    using told s1 by (simp add: ap_boot_def)
  then show ?thesis by (intro exI [of _ d] exI [of _ "\<lambda>a. dmem (core s1) (a - KERNBASE)"]) (cases t, cases "ker t", simp)
qed

text \<open>What is needed of the machine: memory for the stacks below 4 MiB, as long as the heap is \<open>low\<close>, the boot page directory and processors that
  start with paging off.\<close>

definition boot_env :: "'h page_alloc \<Rightarrow> ('h \<Rightarrow> bool) \<Rightarrow> (u32 \<Rightarrow> 'h vm) \<Rightarrow> image \<Rightarrow> sys \<Rightarrow> bool" where
  "boot_env al low spaces im reset \<longleftrightarrow> (\<forall>h p h'. low h \<and> al h = Some (p, h') \<longrightarrow> p \<le> KERNBASE + 0x3FF000 \<and> low h') \<and> KERNBASE \<le> kpg_dir_addr im
     \<and> KERNBASE \<le> entry_dir_addr im \<and> pg_dir (spaces (entry_dir_addr im - KERNBASE)) = entry_page_dir \<and> crs reset CR0 AND CR0_PG = 0"

text \<open>What the other processors leave alone on their way to the scheduler.\<close>

definition kept :: "'h pst \<Rightarrow> 'h pst \<Rightarrow> bool" where
  "kept s s' \<longleftrightarrow> spin s' = spin s \<and> procs s' = procs s \<and> ptable s' = ptable s \<and> pt_lock s' = pt_lock s \<and> dirs s' = dirs s
     \<and> dir_addr (kvm s') = dir_addr (kvm s) \<and> pg_dir (kvm s') = pg_dir (kvm s) \<and> tables (kvm s') = tables (kvm s) \<and> pages (kvm s') = pages (kvm s)"

lemma kept_trans: "kept s t \<Longrightarrow> kept t u \<Longrightarrow> kept s u"
  by (simp add: kept_def)

text \<open>One round of the loop for another processor, which runs on the new page \<open>stk\<close>.\<close>

definition round :: "image \<Rightarrow> u8 \<Rightarrow> nat \<Rightarrow> usize \<Rightarrow> 'h smp \<Rightarrow> 'h smp \<Rightarrow> bool" where
  "round im me idx stk t t' \<longleftrightarrow> (let ap = apic_id (cpu_table (ker t) ! idx) in
     kept (ker t) (ker t') \<and> lapic (ker t') = lapic (ker t) \<and> n_cpu (ker t') = n_cpu (ker t) \<and> cpu_table (ker t') = (cpu_table (ker t))[idx := brought_up (cpu_table (ker t) ! idx)]
     \<and> cr3 (ker t') = (cr3 (ker t))(ap := kpg_dir_addr im - KERNBASE) \<and> esp_of t' = (esp_of t)(ap := stk + 4092)
     \<and> gdtr_of t' = (gdtr_of t)(ap := dt_reg (gdt_addr im idx) NSEGS) \<and> idtr_of t' = (idtr_of t)(ap := dt_reg (idt_addr im) 256)
     \<and> (\<forall>a. a \<noteq> ap \<longrightarrow> eflags (ker t') a = eflags (ker t) a) \<and> (\<forall>a. a \<notin> {ap, me} \<longrightarrow> lapics t' a = lapics t a))"

lemma start_other_round:
  assumes al: "page_alloc_ok al live avail" "al (heap (kvm (ker t))) = Some (stk, h)" and env: "boot_env al low spaces im reset" "low (heap (kvm (ker t)))"
    and ok: "cpus_ok (ker t)" "idx < n_cpu (ker t)" "idx \<noteq> i" "apic_id (cpu_table (ker t) ! idx) \<noteq> me"
    and dev: "\<exists>v \<in> set (icr (lapics t (apic_id (cpu_table (ker t) ! idx)))). v AND DELIVS = 0"
  shows "\<exists>t'. start_other im al (ap_boot spaces im (start32, gdtdesc, ret) reset me) me i idx t = Inr t' \<and> round im me idx stk t t' \<and> heap (kvm (ker t')) = h \<and> low h"
proof -
  let ?c = "cpu_table (ker t) ! idx" and ?ap = "apic_id (cpu_table (ker t) ! idx)" and ?dir = "entry_dir_addr im - KERNBASE"
  have "stk mod 4096 = 0 \<and> KERNBASE \<le> stk" using al unfolding page_alloc_ok_def by blast
  moreover have low: "stk \<le> KERNBASE + 0x3FF000" "low h" using al(2) env unfolding boot_env_def by blast+
  ultimately have stk: "stk mod 4096 = 0" "KERNBASE \<le> stk" "stk \<le> KERNBASE + 0x3FF000" "stk \<noteq> 0" by (auto simp: KERNBASE_def)
  obtain b where b: "lapic (ker t) = Some b" using ok(1) by (auto simp: cpus_ok_def)
  have len: "idx < length (cpu_table (ker t))" using ok(1,2) by (simp add: cpus_ok_def)
  then have cpu: "rindex (cpus (ker t)) idx = Inr ?c" using ok(2) by (simp add: rindex_def cpus_def)
  obtain w d tr where sap: "start_ap (Some b) ?ap 0x7000 (lapics t me, port_out t) = Inr (w, d, tr)" "told_to_start (Some b) ?ap d"
    using start_ap_told by blast
  let ?mem = "(kmem (ker t))(0x80006FFC := stk + KSTACKSIZE, 0x80006FF8 := mp_enter_addr im, 0x80006FF4 := ?dir)"
  let ?k = "(ker t)\<lparr>kvm := (kvm (ker t))\<lparr>heap := h\<rparr>, kmem := ?mem\<rparr>"
  let ?t = "t\<lparr>ker := ?k, lapics := (lapics t)(me := d), port_out := tr, wrv := w\<rparr>"
  have pre: "told_to_start (lapic (ker ?t)) ?ap (lapics ?t me)" "kmem (ker ?t) 0x80006FFC = stk + KSTACKSIZE" "kmem (ker ?t) 0x80006FF8 = mp_enter_addr im"
      "kmem (ker ?t) 0x80006FF4 = ?dir" "pg_dir (spaces ?dir) = entry_page_dir" "crs reset CR0 AND CR0_PG = 0"
    using sap(2) b env by (simp_all add: boot_env_def)
  have pre2: "cpus_ok (ker ?t)" "idx < n_cpu (ker ?t)" "apic_id (cpu_table (ker ?t) ! idx) = ?ap" "\<exists>v \<in> set (icr (lapics ?t ?ap)). v AND DELIVS = 0" "KERNBASE \<le> kpg_dir_addr im"
    using ok dev env by (simp_all add: cpus_ok_def cpus_def boot_env_def)
  obtain d' m where boot: "ap_boot spaces im (start32, gdtdesc, ret) reset me ?ap ?t = Inr (?t\<lparr>ker := (ker ?t)\<lparr>
      eflags := (eflags (ker ?t))(?ap := eflags (ker ?t) ?ap AND NOT FL_IF), kmem := m,
      cr3 := (cr3 (ker ?t))(?ap := kpg_dir_addr im - KERNBASE), cpu_table := (cpu_table (ker ?t))[idx := brought_up (cpu_table (ker ?t) ! idx)]\<rparr>,
    lapics := (lapics ?t)(?ap := d'), esp_of := (esp_of ?t)(?ap := stk + 4092),
    gdtr_of := (gdtr_of ?t)(?ap := dt_reg (gdt_addr im idx) NSEGS), idtr_of := (idtr_of ?t)(?ap := dt_reg (idt_addr im) 256)\<rparr>)" (is "_ = Inr ?t'")
    using ap_boot_ok [where spaces = spaces, OF pre stk(1-3) pre2, of start32 gdtdesc ret] by blast
  have "rindex (cpus (ker ?t')) idx = Inr (brought_up ?c)" using len ok(2) by (simp add: rindex_def cpus_def)
  moreover have "started (brought_up ?c)" by (simp add: brought_up_def)
  moreover have "kalloc al (kvm (ker t)) = Inr (Some stk, (kvm (ker t))\<lparr>heap := h\<rparr>)" using al(2) stk(4) by (simp add: kalloc_def heap_alloc_def)
  moreover have "addr_from_raw ptr_layout 0x7000 = Inr 0x7000" "p2v 0x7000 = Inr 0x80007000" "v2p 0x80007000 = Inr 0x7000" "v2p (entry_dir_addr im) = Inr ?dir"
      "(0x80007000 :: usize) - 4 = 0x80006FFC" "(0x80007000 :: usize) - 8 = 0x80006FF8" "(0x80007000 :: usize) - 12 = 0x80006FF4" "lapic ?k = Some b"
    using env b by (simp_all add: addr_from_raw_def ptr_layout_def p2v_def v2p_def checked_add_def checked_sub_def KERNBASE_def boot_env_def)
  ultimately have "start_other im al (ap_boot spaces im (start32, gdtdesc, ret) reset me) me i idx t = Inr ?t'"
    using ok(3) by (simp only: start_other_def cpu rbind_simps prod.case rexpect_simps Let_def sap(1) boot if_False if_True)
  moreover have "round im me idx stk t ?t'" by (simp add: round_def kept_def)
  ultimately show ?thesis using low(2) by auto
qed

lemma cpu_ids_differ:
  assumes "cpus_ok s" "j < n_cpu s" "k < n_cpu s" "j \<noteq> k"
  shows "apic_id (cpu_table s ! j) \<noteq> apic_id (cpu_table s ! k)"
  using assms distinct_conv_nth [of "map apic_id (cpus s)"] by (auto simp: cpus_ok_def cpus_def)

text \<open>The state after the first \<open>k\<close> rounds; processor \<open>i\<close> is the one that starts the others.\<close>

definition brought :: "('h \<Rightarrow> usize set) \<Rightarrow> image \<Rightarrow> u8 \<Rightarrow> nat \<Rightarrow> 'h smp \<Rightarrow> nat \<Rightarrow> 'h smp \<Rightarrow> bool" where
  "brought live im me i t0 k t \<longleftrightarrow>
     kept (ker t0) (ker t) \<and> cr3 (ker t) me = cr3 (ker t0) me \<and> gdtr_of t me = gdtr_of t0 me \<and> lapic (ker t) = lapic (ker t0) \<and> n_cpu (ker t) = n_cpu (ker t0) \<and> eflags (ker t) me = eflags (ker t0) me
     \<and> cpu_table (ker t) = map (\<lambda>j. if j < k \<and> j \<noteq> i then brought_up (cpu_table (ker t0) ! j) else cpu_table (ker t0) ! j) [0..<length (cpu_table (ker t0))]
     \<and> (\<forall>j. k \<le> j \<and> j < n_cpu (ker t0) \<and> j \<noteq> i \<longrightarrow> lapics t (apic_id (cpu_table (ker t0) ! j)) = lapics t0 (apic_id (cpu_table (ker t0) ! j)))
     \<and> live (heap (kvm (ker t0))) \<subseteq> live (heap (kvm (ker t)))
     \<and> (\<forall>j < k. j \<noteq> i \<longrightarrow> cr3 (ker t) (apic_id (cpu_table (ker t0) ! j)) = kpg_dir_addr im - KERNBASE
         \<and> gdtr_of t (apic_id (cpu_table (ker t0) ! j)) = dt_reg (gdt_addr im j) NSEGS
         \<and> idtr_of t (apic_id (cpu_table (ker t0) ! j)) = dt_reg (idt_addr im) 256
         \<and> esp_of t (apic_id (cpu_table (ker t0) ! j)) - 4092 \<in> live (heap (kvm (ker t))) - live (heap (kvm (ker t0))))
     \<and> inj_on (\<lambda>j. esp_of t (apic_id (cpu_table (ker t0) ! j))) ({..<k} - {i})"

lemma brought_0: "brought live im me i t 0 t"
  by (simp add: brought_def map_nth kept_def)

lemma apic_id_brought_up [simp]: "apic_id (brought_up c) = apic_id c"
  by (simp add: brought_up_def)

lemma brought_ids:
  assumes "brought live im me i t0 k t" "cpus_ok (ker t0)"
  shows "cpus_ok (ker t)" "length (cpu_table (ker t)) = length (cpu_table (ker t0))"
proof -
  have t: "cpu_table (ker t) = map (\<lambda>j. if j < k \<and> j \<noteq> i then brought_up (cpu_table (ker t0) ! j) else cpu_table (ker t0) ! j) [0..<length (cpu_table (ker t0))]"
    using assms(1) by (simp add: brought_def)
  have "map apic_id (cpu_table (ker t)) = map apic_id (cpu_table (ker t0))" unfolding t by (rule nth_equalityI) auto
  then show "cpus_ok (ker t)" "length (cpu_table (ker t)) = length (cpu_table (ker t0))"
    using assms by (simp_all add: cpus_ok_def cpus_def brought_def take_map [symmetric])
qed

lemma brought_round:
  assumes b: "brought live im me i t0 k t" and ok: "cpus_ok (ker t0)" "k < n_cpu (ker t0)" "k \<noteq> i" "i < n_cpu (ker t0)" "apic_id (cpu_table (ker t0) ! i) = me"
    and r: "round im me k stk t t'" and live: "stk \<notin> live (heap (kvm (ker t)))" "live (heap (kvm (ker t'))) = insert stk (live (heap (kvm (ker t))))"
  shows "brought live im me i t0 (Suc k) t'"
proof -
  let ?c = "\<lambda>j. cpu_table (ker t0) ! j" let ?id = "\<lambda>j. apic_id (?c j)" and ?L = "\<lambda>t. live (heap (kvm (ker t)))"
  have len: "k < length (cpu_table (ker t0))" "n_cpu (ker t0) \<le> length (cpu_table (ker t0))" using ok(1,2) by (simp_all add: cpus_ok_def)
  have k: "cpu_table (ker t) ! k = ?c k" using b len by (simp add: brought_def)
  have ids: "?id j \<noteq> ?id k" if "j < n_cpu (ker t0)" "j \<noteq> k" for j using cpu_ids_differ [OF ok(1)] ok(2) that by blast
  have me: "?id j \<noteq> me" if "j < n_cpu (ker t0)" "j \<noteq> i" for j using cpu_ids_differ [OF ok(1)] ok(4,5) that by blast
  note R = r [unfolded round_def Let_def k]
  have tab: "cpu_table (ker t') = map (\<lambda>j. if j < Suc k \<and> j \<noteq> i then brought_up (?c j) else ?c j) [0..<length (cpu_table (ker t0))]"
    using R b len ok(3) by (intro nth_equalityI) (auto simp: brought_def nth_list_update)
  have esp: "gdtr_of t' (?id j) = (if j = k then dt_reg (gdt_addr im k) NSEGS else gdtr_of t (?id j))"
      "idtr_of t' (?id j) = (if j = k then dt_reg (idt_addr im) 256 else idtr_of t (?id j))"
      "esp_of t' (?id j) = (if j = k then stk + 4092 else esp_of t (?id j))" "cr3 (ker t') (?id j) = (if j = k then kpg_dir_addr im - KERNBASE else cr3 (ker t) (?id j))"
    if "j \<le> k" for j using R ids [of j] ok(2) that by auto
  have old: "esp_of t (?id j) - 4092 \<in> ?L t - ?L t0" "cr3 (ker t) (?id j) = kpg_dir_addr im - KERNBASE"
      "gdtr_of t (?id j) = dt_reg (gdt_addr im j) NSEGS" "idtr_of t (?id j) = dt_reg (idt_addr im) 256" if "j < k" "j \<noteq> i" for j
    using b that by (simp_all add: brought_def)
  have "stk \<notin> ?L t0" using b live(1) by (auto simp: brought_def)
  then have new: "cr3 (ker t') (?id j) = kpg_dir_addr im - KERNBASE \<and> gdtr_of t' (?id j) = dt_reg (gdt_addr im j) NSEGS
      \<and> idtr_of t' (?id j) = dt_reg (idt_addr im) 256 \<and> esp_of t' (?id j) - 4092 \<in> ?L t' - ?L t0" if "j < Suc k" "j \<noteq> i" for j
    using esp [of j] old [of j] that live(2) by (cases "j = k") auto
  have inj: "inj_on (\<lambda>j. esp_of t' (?id j)) ({..<Suc k} - {i})"
  proof (rule inj_onI)
    fix x y assume xy: "x \<in> {..<Suc k} - {i}" "y \<in> {..<Suc k} - {i}" "esp_of t' (?id x) = esp_of t' (?id y)"
    have ne: "esp_of t (?id j) \<noteq> stk + 4092" if "j < k" "j \<noteq> i" for j using old(1) [OF that] live(1) by auto
    have inj: "inj_on (\<lambda>j. esp_of t (?id j)) ({..<k} - {i})" using b by (simp add: brought_def)
    consider "x = k" "y = k" | "x = k" "y < k" | "x < k" "y = k" | "x < k" "y < k" using xy(1,2) by force
    then show "x = y" using xy esp [of x] esp [of y] ne [of x] ne [of y] inj_onD [OF inj, of x y] by cases auto
  qed
  show ?thesis unfolding brought_def
  proof (intro conjI)
    show "eflags (ker t') me = eflags (ker t0) me" "cr3 (ker t') me = cr3 (ker t0) me" "gdtr_of t' me = gdtr_of t0 me" using R b me [OF ok(2,3)] by (simp_all add: brought_def)
    show "kept (ker t0) (ker t')" using R b kept_trans by (auto simp: brought_def)
    show "\<forall>j. Suc k \<le> j \<and> j < n_cpu (ker t0) \<and> j \<noteq> i \<longrightarrow> lapics t' (?id j) = lapics t0 (?id j)"
      using R b ids me by (auto simp: brought_def)
  qed (use R b tab new inj live in \<open>auto simp: brought_def\<close>)
qed

lemma start_others_brought:
  assumes "page_alloc_ok al live avail" "boot_env al low spaces im reset" "low (heap (kvm (ker t)))" "n_cpu (ker t) \<le> avail (heap (kvm (ker t)))"
    and "cpus_ok (ker t)" "i < n_cpu (ker t)" "apic_id (cpu_table (ker t) ! i) = me" "eflags (ker t) me AND FL_IF = 0"
    and "\<forall>j < n_cpu (ker t). j \<noteq> i \<longrightarrow> (\<exists>v \<in> set (icr (lapics t (apic_id (cpu_table (ker t) ! j)))). v AND DELIVS = 0)"
  shows "\<exists>t'. start_others im al (ap_boot spaces im (start32, gdtdesc, ret) reset me) me t = Inr t' \<and> brought live im me i t (n_cpu (ker t)) t'
    \<and> avail (heap (kvm (ker t))) \<le> avail (heap (kvm (ker t'))) + n_cpu (ker t)"
proof -
  let ?n = "n_cpu (ker t)" and ?f = "start_other im al (ap_boot spaces im (start32, gdtdesc, ret) reset me) me i"
  let ?P = "\<lambda>k u. brought live im me i t k u \<and> low (heap (kvm (ker u))) \<and> avail (heap (kvm (ker t))) \<le> avail (heap (kvm (ker u))) + k"
  have "\<exists>u'. ?f k u = Inr u' \<and> ?P (Suc k) u'" if k: "k < ?n" and P: "?P k u" for k u
  proof (cases "k = i")
    case True
    then have "{..<Suc k} - {i} = {..<k} - {i}" by auto
    then have "brought live im me i t (Suc k) u" using P True unfolding brought_def by (auto simp: less_Suc_eq)
    then show ?thesis using P True by (auto simp: start_other_def)
  next
    case False
    note ids = brought_ids [OF conjunct1 [OF P] assms(5)]
    have c: "cpu_table (ker u) ! k = cpu_table (ker t) ! k" "n_cpu (ker u) = ?n" using P k assms(5) by (simp_all add: brought_def cpus_ok_def)
    have me: "apic_id (cpu_table (ker u) ! k) \<noteq> me" using cpu_ids_differ [OF assms(5) k assms(6) False] assms(7) c(1) by simp
    have "avail (heap (kvm (ker u))) \<noteq> 0" using P k assms(4) by simp
    then obtain stk h where h: "al (heap (kvm (ker u))) = Some (stk, h)" using assms(1) unfolding page_alloc_ok_def by (metis not_None_eq surj_pair)
    then have live: "stk \<notin> live (heap (kvm (ker u)))" "live h = insert stk (live (heap (kvm (ker u))))" "avail (heap (kvm (ker u))) = Suc (avail h)"
      using assms(1) unfolding page_alloc_ok_def by blast+
    have dev: "\<exists>v \<in> set (icr (lapics u (apic_id (cpu_table (ker u) ! k)))). v AND DELIVS = 0" using P k False assms(9) unfolding c(1) brought_def by simp
    have k': "k < n_cpu (ker u)" using k c(2) by simp
    obtain u' where u': "?f k u = Inr u'" "round im me k stk u u'" "heap (kvm (ker u')) = h" "low h"
      using start_other_round [OF assms(1) h assms(2) _ ids(1) k' False me dev, of start32 gdtdesc ret] P by blast
    then have "brought live im me i t (Suc k) u'" using brought_round [OF conjunct1 [OF P] assms(5) k False assms(6,7) u'(2)] live by simp
    then show ?thesis using u' P live(3) by auto
  qed
  then obtain t' where t': "for_range 0 ?n ?f t = Inr t'" "?P ?n t'"
    using for_range_inv [of 0 ?n ?P ?f 0 t] brought_0 [of live im me i t] assms(3) by auto
  have "length (cpus (ker t)) = ?n" using assms(5) by (simp add: cpus_ok_def cpus_def)
  then have "start_others im al (ap_boot spaces im (start32, gdtdesc, ret) reset me) me t = Inr t'"
    using t'(1) my_cpu_id_at [OF assms(5-8)] by (simp add: start_others_def)
  then show ?thesis using t'(2) by blast
qed

section \<open>Properties\<close>

text \<open>C8. \<^verbatim>\<open>start_others\<close> brings up every other processor. For processors registered under distinct identifiers, whose APICs
  deliver messages, and enough free pages in the first 4 MiB, the loop ends: each of the others has run the code at \<^verbatim>\<open>ap_start\<close> to
  \<^verbatim>\<open>mp_enter\<close>, uses the kernel page directory, has filled in its own segment table and loaded the register with the address and
  the size of that table, has loaded the interrupt table of 256 entries, has reported that it has started, and runs on a freshly
  allocated stack of its own.\<close>

theorem start_others_bring_up:
  assumes "page_alloc_ok al live avail" "boot_env al low spaces im reset" "low (heap (kvm (ker t)))" "n_cpu (ker t) \<le> avail (heap (kvm (ker t)))"
    and "cpus_ok (ker t)" "i < n_cpu (ker t)" "apic_id (cpu_table (ker t) ! i) = me" "eflags (ker t) me AND FL_IF = 0"
    and "\<forall>j < n_cpu (ker t). j \<noteq> i \<longrightarrow> (\<exists>v \<in> set (icr (lapics t (apic_id (cpu_table (ker t) ! j)))). v AND DELIVS = 0)"
  shows "\<exists>t'. start_others im al (ap_boot spaces im (start32, gdtdesc, ret) reset me) me t = Inr t'
    \<and> (\<forall>j < n_cpu (ker t). j \<noteq> i \<longrightarrow> cpu_table (ker t') ! j = brought_up (cpu_table (ker t) ! j)
        \<and> cr3 (ker t') (apic_id (cpu_table (ker t) ! j)) = kpg_dir_addr im - KERNBASE
        \<and> gdtr_of t' (apic_id (cpu_table (ker t) ! j)) = dt_reg (gdt_addr im j) NSEGS
        \<and> idtr_of t' (apic_id (cpu_table (ker t) ! j)) = dt_reg (idt_addr im) 256
        \<and> esp_of t' (apic_id (cpu_table (ker t) ! j)) - 4092 \<in> live (heap (kvm (ker t'))) - live (heap (kvm (ker t))))
    \<and> inj_on (\<lambda>j. esp_of t' (apic_id (cpu_table (ker t) ! j))) ({..<n_cpu (ker t)} - {i})"
proof -
  obtain t' where t': "start_others im al (ap_boot spaces im (start32, gdtdesc, ret) reset me) me t = Inr t'" "brought live im me i t (n_cpu (ker t)) t'"
    using start_others_brought [OF assms] by blast
  moreover have "cpu_table (ker t') ! j = brought_up (cpu_table (ker t) ! j)" if "j < n_cpu (ker t)" "j \<noteq> i" for j
    using t'(2) that assms(5) by (simp add: brought_def cpus_ok_def)
  ultimately show ?thesis unfolding brought_def by blast
qed

text \<open>A machine with two processors, of which the first starts the second; two pages below 4 MiB are free.\<close>

definition low_alloc :: "nat page_alloc" where
  "low_alloc h = (if h = 0 then Some (0x80300000, 1) else if h = 1 then Some (0x80301000, 2) else None)"

definition low_live :: "nat \<Rightarrow> usize set" where
  "low_live h = (if h = 0 then {} else if h = 1 then {0x80300000} else {0x80300000, 0x80301000})"

lemma low_alloc_ok: "page_alloc_ok low_alloc low_live (\<lambda>h. 2 - h)"
  by (auto simp: page_alloc_ok_def low_alloc_def low_live_def KERNBASE_def split: if_splits)

definition demo_image :: image where
  "demo_image = \<lparr>mp_enter_addr = 0x80101000, entry_dir_addr = 0x80109000, kpg_dir_addr = 0x803FF000, idt_addr = 0x8010C000,
     gdt_addr = (\<lambda>i. 0x8010B000 + 0x100 * of_nat i)\<rparr>"

definition demo_smp :: "nat smp" where
  "demo_smp = \<lparr>ker = demo_pst\<lparr>eflags := (\<lambda>_. 2)\<rparr>, lapics = (\<lambda>_. \<lparr>lapic_version = 0x50014, icr = [DELIVS, 0], lwrites = []\<rparr>), port_out = [], wrv = [],
     esp_of = (\<lambda>_. 0), gdtr_of = (\<lambda>_. []), idtr_of = (\<lambda>_. [])\<rparr>"

definition demo_spaces :: "u32 \<Rightarrow> nat vm" where
  "demo_spaces = (\<lambda>_. bump_vm\<lparr>pg_dir := entry_page_dir\<rparr>)"

lemma demo_env: "boot_env low_alloc (\<lambda>_. True) demo_spaces demo_image demo_sys"
  by (auto simp: boot_env_def low_alloc_def demo_spaces_def demo_image_def demo_sys_def KERNBASE_def CR0_PG_def split: if_splits)

theorem start_others_bring_up_witness:
  "\<exists>t'. start_others demo_image low_alloc (ap_boot demo_spaces demo_image (0x7020, 0x7090, 0x7068) demo_sys 0) 0 demo_smp = Inr t'
     \<and> started (cpu_table (ker t') ! 1) \<and> cr3 (ker t') 1 = 0x3FF000 \<and> gdtr_of t' 1 = [47, 0xB100, 0x8010] \<and> idtr_of t' 1 = [2047, 0xC000, 0x8010]
     \<and> esp_of t' 1 - 4092 \<in> low_live (heap (kvm (ker t')))"
proof -
  let ?t = "demo_smp"
  have k: "n_cpu (ker ?t) = 2" "cpu_table (ker ?t) = [CpuShared_zero, CpuShared_zero\<lparr>apic_id := 1\<rparr>]" "heap (kvm (ker ?t)) = 0" "lapic (ker ?t) \<noteq> None"
    "eflags (ker ?t) 0 AND FL_IF = 0" "icr (lapics ?t a) = [DELIVS, 0]" for a
    by (simp_all add: demo_smp_def demo_pst_def FL_IF_def)
  have "cpus_ok (ker ?t)" using k by (simp add: cpus_ok_def cpus_def CpuShared_zero_def)
  moreover have "apic_id (cpu_table (ker ?t) ! 0) = 0" using k by (simp add: CpuShared_zero_def)
  ultimately obtain t' where t': "start_others demo_image low_alloc (ap_boot demo_spaces demo_image (0x7020, 0x7090, 0x7068) demo_sys 0) 0 demo_smp = Inr t'"
    "\<forall>j < n_cpu (ker ?t). j \<noteq> 0 \<longrightarrow> cpu_table (ker t') ! j = brought_up (cpu_table (ker ?t) ! j)
        \<and> cr3 (ker t') (apic_id (cpu_table (ker ?t) ! j)) = kpg_dir_addr demo_image - KERNBASE
        \<and> gdtr_of t' (apic_id (cpu_table (ker ?t) ! j)) = dt_reg (gdt_addr demo_image j) NSEGS
        \<and> idtr_of t' (apic_id (cpu_table (ker ?t) ! j)) = dt_reg (idt_addr demo_image) 256
        \<and> esp_of t' (apic_id (cpu_table (ker ?t) ! j)) - 4092 \<in> low_live (heap (kvm (ker t'))) - low_live (heap (kvm (ker ?t)))"
    using start_others_bring_up [OF low_alloc_ok demo_env, of ?t 0 0 "0x7020" "0x7090" "0x7068"] k by auto
  have "apic_id (cpu_table (ker ?t) ! 1) = 1" by (simp add: k(2))
  with t'(2) [rule_format, of 1] show ?thesis
    using t'(1) by (auto simp: k(1) brought_up_def demo_image_def KERNBASE_def dt_reg_def NSEGS_def)
qed

end
