(* ===== verification/Kernel_Heap.thy ===== *)
theory Kernel_Heap
  imports Scheduling Address_Space
begin

text \<open>
  The kernel heap (\<^verbatim>\<open>kernel/src/kalloc.rs\<close>): the two phases in which \<^verbatim>\<open>main\<close> hands memory to the allocator, and freeing
  a page. The allocator is the crate \<^verbatim>\<open>linked_list_allocator\<close>, whose operations are the fields of \<open>heap_ops\<close>; allocation
  is in theory \<open>Paging\<close>. \<open>lk\<close> is the address of the lock of the heap.
\<close>

section \<open>Operations\<close>

record 'h heap_ops =
  h_init :: "usize \<Rightarrow> usize \<Rightarrow> 'h \<Rightarrow> 'h"
  h_extend :: "usize \<Rightarrow> 'h \<Rightarrow> 'h"
  h_dealloc :: "usize \<Rightarrow> usize \<Rightarrow> usize \<Rightarrow> 'h \<Rightarrow> 'h"

definition on_heap :: "('h \<Rightarrow> 'h) \<Rightarrow> 'h pst \<Rightarrow> (unit \<times> 'h pst) res" where
  "on_heap f s = Ok ((), s\<lparr>kvm := (kvm s)\<lparr>heap := f (heap (kvm s))\<rparr>\<rparr>)"

text \<open>The operations of the allocator with its lock; \<open>al\<close> is \<^verbatim>\<open>allocate_first_fit\<close> for a layout.\<close>

definition KernelHeap_alloc :: "'h page_alloc \<Rightarrow> u8 \<Rightarrow> usize \<Rightarrow> 'h pst \<Rightarrow> (usize \<times> 'h pst) res" where
  "KernelHeap_alloc al me lk = with_lock me lk (\<lambda>s. rbind (heap_alloc al (kvm s)) (\<lambda>(p, v). Ok (p, s\<lparr>kvm := v\<rparr>)))"

definition KernelHeap_init :: "'h heap_ops \<Rightarrow> u8 \<Rightarrow> usize \<Rightarrow> usize \<Rightarrow> usize \<Rightarrow> 'h pst \<Rightarrow> (unit \<times> 'h pst) res" where
  "KernelHeap_init ops me lk start_addr sz = with_lock me lk (on_heap (h_init ops start_addr sz))"

definition KernelHeap_extend :: "'h heap_ops \<Rightarrow> u8 \<Rightarrow> usize \<Rightarrow> usize \<Rightarrow> 'h pst \<Rightarrow> (unit \<times> 'h pst) res" where
  "KernelHeap_extend ops me lk sz = with_lock me lk (on_heap (h_extend ops sz))"

definition KernelHeap_dealloc :: "'h heap_ops \<Rightarrow> u8 \<Rightarrow> usize \<Rightarrow> usize \<Rightarrow> usize \<Rightarrow> usize \<Rightarrow> 'h pst \<Rightarrow> (unit \<times> 'h pst) res" where
  "KernelHeap_dealloc ops me lk ptr sz align s =
     rbind (rassert (ptr \<noteq> 0) ''assertion failed: !ptr.is_null()'') (\<lambda>_.
       with_lock me lk (on_heap (h_dealloc ops ptr sz align)) s)"

definition init1 :: "'h heap_ops \<Rightarrow> u8 \<Rightarrow> usize \<Rightarrow> usize \<Rightarrow> usize \<Rightarrow> 'h pst \<Rightarrow> (unit \<times> 'h pst) res" where
  "init1 ops me lk start_addr end_addr s = rbind (checked_sub end_addr start_addr) (\<lambda>sz. KernelHeap_init ops me lk start_addr sz s)"

definition init2 :: "'h heap_ops \<Rightarrow> u8 \<Rightarrow> usize \<Rightarrow> usize \<Rightarrow> usize \<Rightarrow> 'h pst \<Rightarrow> (unit \<times> 'h pst) res" where
  "init2 ops me lk start_addr end_addr s = rbind (checked_sub end_addr start_addr) (\<lambda>sz. KernelHeap_extend ops me lk sz s)"

definition kfree :: "'h heap_ops \<Rightarrow> u8 \<Rightarrow> usize \<Rightarrow> usize \<Rightarrow> 'h pst \<Rightarrow> (unit \<times> 'h pst) res" where
  "kfree ops me lk page = KernelHeap_dealloc ops me lk page PAGE_SIZE PAGE_SIZE"

text \<open>The calls of \<^verbatim>\<open>main\<close>: before the kernel page table is built, and after the other processors have started.\<close>

definition main_init1 :: "'h heap_ops \<Rightarrow> u8 \<Rightarrow> usize \<Rightarrow> usize \<Rightarrow> 'h pst \<Rightarrow> (unit \<times> 'h pst) res" where
  "main_init1 ops me lk kernel_end s =
     rbind (addr_from_raw byte_layout (4 * 1024 * 1024)) (\<lambda>pre_alloc_lim.
     rbind (addr_from_raw byte_layout kernel_end) (\<lambda>a.
     rbind (p2v pre_alloc_lim) (\<lambda>e. init1 ops me lk a e s)))"

definition main_init2 :: "'h heap_ops \<Rightarrow> u8 \<Rightarrow> usize \<Rightarrow> 'h pst \<Rightarrow> (unit \<times> 'h pst) res" where
  "main_init2 ops me lk s =
     rbind (addr_from_raw byte_layout (4 * 1024 * 1024)) (\<lambda>pre_alloc_lim.
     rbind (p2v pre_alloc_lim) (\<lambda>a.
     rbind (p2v PHYSTOP) (\<lambda>e. init2 ops me lk a e s)))"

section \<open>Lemmas\<close>

text \<open>What is relied on of the allocator: the region it manages, as its first address and its sz.\<close>

definition heap_laws :: "('h \<Rightarrow> nat \<times> nat) \<Rightarrow> 'h heap_ops \<Rightarrow> bool" where
  "heap_laws region ops \<longleftrightarrow> (\<forall>a n h. region (h_init ops a n h) = (unat a, unat n))
     \<and> (\<forall>n h. region (h_extend ops n h) = (fst (region h), snd (region h) + unat n))"

definition managed :: "nat \<times> nat \<Rightarrow> usize \<Rightarrow> bool" where
  "managed r a \<longleftrightarrow> fst r \<le> unat a \<and> unat a < fst r + snd r"

lemma from_raw_bytes: "addr_from_raw byte_layout a = Inr a"
  by (simp add: addr_from_raw_def)

lemma with_lock_early: "lapic s = None \<Longrightarrow> f s = Inr (r, t) \<Longrightarrow> lapic t = None \<Longrightarrow> with_lock me l f s = Inr (r, t)"
  by (simp add: with_lock_def acquire_def release_def lapic_id_def)

lemma on_heap_locked:
  assumes "lock_ready me lk i s"
  shows "\<exists>s'. with_lock me lk (on_heap f) s = Inr ((), s') \<and> heap (kvm s') = f (heap (kvm s)) \<and> \<not> locked (spin s' lk)"
proof -
  let ?t = "(acquired me lk i s)\<lparr>kvm := (kvm s)\<lparr>heap := f (heap (kvm s))\<rparr>\<rparr>"
  have "on_heap f (acquired me lk i s) = Inr ((), ?t)" "keeps_lock lk (acquired me lk i s) ?t"
    by (simp_all add: on_heap_def keeps_lock_def same_cpus_def acquired_def pushed_def set_priv_def x86_cli_def cpus_def)
  from spin.body_result [where f = "on_heap f" and t = ?t, OF assms this] show ?thesis
    by (simp add: with_lock_within released_def restored_def remembered_def set_priv_def)
qed

text \<open>
  The other theories call \<open>heap_alloc\<close> directly. With the lock, the operation has the same result and the same effect on the heap whenever the lock
  is free, and the lock is free again afterwards.
\<close>

lemma KernelHeap_alloc_locked:
  assumes "lock_ready me lk i s" "heap_alloc al (kvm s) = Inr (p, v)"
  shows "\<exists>s'. KernelHeap_alloc al me lk s = Inr (p, s') \<and> kvm s' = v \<and> procs s' = procs s \<and> ptable s' = ptable s \<and> \<not> locked (spin s' lk)"
proof -
  let ?f = "\<lambda>s. rbind (heap_alloc al (kvm s)) (\<lambda>(p, v). Ok (p, s\<lparr>kvm := v\<rparr>))" and ?t = "(acquired me lk i s)\<lparr>kvm := v\<rparr>"
  have "kvm (acquired me lk i s) = kvm s" by (simp add: acquired_def pushed_def set_priv_def x86_cli_def)
  then have "?f (acquired me lk i s) = Inr (p, ?t)" "keeps_lock lk (acquired me lk i s) ?t"
    using assms(2) by (simp_all add: keeps_lock_def same_cpus_def cpus_def)
  from spin.body_result [where f = ?f and t = ?t, OF assms(1) this] show ?thesis
    by (simp add: KernelHeap_alloc_def with_lock_within released_def restored_def remembered_def set_priv_def acquired_def pushed_def x86_cli_def)
qed

lemma main_init1_eq:
  assumes "lapic s = None" "kernel_end \<le> KERNBASE + 0x400000"
  shows "main_init1 ops me lk kernel_end s = Inr ((), s\<lparr>kvm := (kvm s)\<lparr>heap := h_init ops kernel_end (KERNBASE + 0x400000 - kernel_end) (heap (kvm s))\<rparr>\<rparr>)"
    (is "_ = Inr ((), ?s1)")
  using assms with_lock_early [of s "on_heap (h_init ops kernel_end (KERNBASE + 0x400000 - kernel_end))" "()" ?s1 me lk]
  by (simp add: main_init1_def init1_def KernelHeap_init_def on_heap_def from_raw_bytes p2v_def checked_add_def checked_sub_def KERNBASE_def)

lemma main_init2_eq: "main_init2 ops me lk s = with_lock me lk (on_heap (h_extend ops 0xDC00000)) s"
  by (simp add: main_init2_def init2_def KernelHeap_extend_def from_raw_bytes p2v_def checked_add_def checked_sub_def layout_consts)

section \<open>Properties\<close>

text \<open>C15. The heap never leaves mapped memory. \<^verbatim>\<open>main\<close> first hands the allocator exactly the memory from the end of the kernel to 4 MiB, all of which
  the boot page directory maps writable, and once the kernel page table is in use extends it to exactly the memory from the end of
  the kernel to \<^verbatim>\<open>PHYSTOP\<close>, all of which the kernel's memory map maps writable.\<close>

theorem heap_region_mapped:
  assumes "heap_laws region ops" "lapic s = None" "KERNBASE \<le> kernel_end" "kernel_end \<le> KERNBASE + 0x400000" "data \<le> kernel_end"
    and "pg_dir v = entry_page_dir"
  shows "\<exists>s1. main_init1 ops me lk kernel_end s = Inr ((), s1)
    \<and> (\<forall>a. managed (region (heap (kvm s1))) a \<longleftrightarrow> kernel_end \<le> a \<and> a < KERNBASE + 0x400000)
    \<and> (\<forall>a. managed (region (heap (kvm s1))) a \<longrightarrow> translate v a = Some (a - KERNBASE, PAGE_SIZE_4MIB OR WRITABLE OR PRESENT))
    \<and> (\<forall>s2 i. lock_ready me lk i s2 \<and> region (heap (kvm s2)) = region (heap (kvm s1)) \<longrightarrow>
        (\<exists>s3. main_init2 ops me lk s2 = Inr ((), s3)
          \<and> (\<forall>a. managed (region (heap (kvm s3))) a \<longleftrightarrow> kernel_end \<le> a \<and> a < KERNBASE + PHYSTOP)
          \<and> (\<forall>a. managed (region (heap (kvm s3))) a \<longrightarrow> kvm_map data a = Some (a - KERNBASE, WRITABLE OR PRESENT))))"
proof -
  let ?n = "KERNBASE + 0x400000 - kernel_end"
  let ?s1 = "s\<lparr>kvm := (kvm s)\<lparr>heap := h_init ops kernel_end ?n (heap (kvm s))\<rparr>\<rparr>"
  have n: "unat ?n = 0x80400000 - unat kernel_end" using assms(4) by (simp add: unat_sub word_le_nat_alt KERNBASE_def)
  have ke: "0x80000000 \<le> unat kernel_end" "unat kernel_end \<le> 0x80400000" using assms(3,4) by (simp_all add: word_le_nat_alt KERNBASE_def)
  note i1 = main_init1_eq [OF assms(2,4), of ops me lk]
  have m1: "managed (region (heap (kvm ?s1))) a \<longleftrightarrow> kernel_end \<le> a \<and> a < KERNBASE + 0x400000" for a
    using assms(1) n ke by (auto simp: heap_laws_def managed_def word_le_nat_alt word_less_nat_alt KERNBASE_def)
  have t1: "translate v a = Some (a - KERNBASE, PAGE_SIZE_4MIB OR WRITABLE OR PRESENT)" if "managed (region (heap (kvm ?s1))) a" for a
  proof -
    have "unat (a - KERNBASE) < 0x400000" using that ke unfolding m1 by (auto simp: word_le_nat_alt word_less_nat_alt KERNBASE_def unat_sub_if')
    then show ?thesis using boot_window(2) [OF assms(6), of "a - KERNBASE"] by (simp add: word_less_nat_alt)
  qed
  have i2: "\<exists>s3. main_init2 ops me lk s2 = Inr ((), s3)
      \<and> (\<forall>a. managed (region (heap (kvm s3))) a \<longleftrightarrow> kernel_end \<le> a \<and> a < KERNBASE + PHYSTOP)
      \<and> (\<forall>a. managed (region (heap (kvm s3))) a \<longrightarrow> kvm_map data a = Some (a - KERNBASE, WRITABLE OR PRESENT))"
    if ready: "lock_ready me lk i s2" and same: "region (heap (kvm s2)) = region (heap (kvm ?s1))" for s2 i
  proof -
    obtain s3 where s3: "with_lock me lk (on_heap (h_extend ops 0xDC00000)) s2 = Inr ((), s3)" "heap (kvm s3) = h_extend ops 0xDC00000 (heap (kvm s2))"
      using on_heap_locked [OF ready, of "h_extend ops 0xDC00000"] by blast
    have "main_init2 ops me lk s2 = Inr ((), s3)" by (simp add: main_init2_eq s3(1))
    moreover have m3: "managed (region (heap (kvm s3))) a \<longleftrightarrow> kernel_end \<le> a \<and> a < KERNBASE + PHYSTOP" for a
      using assms(1) n ke same by (auto simp: s3(2) heap_laws_def managed_def word_le_nat_alt word_less_nat_alt layout_consts)
    moreover have "kvm_map data a = Some (a - KERNBASE, WRITABLE OR PRESENT)" if "managed (region (heap (kvm s3))) a" for a
      using that assms(3,5) unfolding m3 kvm_map_def by auto
    ultimately show ?thesis by blast
  qed
  show ?thesis using i1 m1 t1 i2 by blast
qed

text \<open>An allocator that only keeps the region.\<close>

definition region_ops :: "(nat \<times> nat) heap_ops" where
  "region_ops = \<lparr>h_init = (\<lambda>a n _. (unat a, unat n)), h_extend = (\<lambda>n (a, k). (a, k + unat n)), h_dealloc = (\<lambda>_ _ _ h. h)\<rparr>"

definition demo_heap :: "(nat \<times> nat) pst" where
  "demo_heap = \<lparr>lapic = None, n_cpu = 0, cpu_table = [], eflags = (\<lambda>_. 2), spin = (\<lambda>_. SpinLock_new ''kheap''), procs = Map.empty,
     ptable = ProcessTable_new, pt_lock = 0x80112000,
     kvm = \<lparr>dir_addr = 0, pg_dir = [], tables = Map.empty, pages = Map.empty, heap = (0, 0)\<rparr>, dirs = Map.empty, kmem = (\<lambda>_. 0),
     cr3 = (\<lambda>_. 0), task_reg = (\<lambda>_. 0)\<rparr>"

theorem heap_region_mapped_witness:
  "\<exists>s1. main_init1 region_ops 0 0x80113000 0x80115000 demo_heap = Inr ((), s1) \<and> managed (heap (kvm s1)) 0x80115000 \<and> \<not> managed (heap (kvm s1)) 0x80400000
     \<and> (\<exists>s3. main_init2 region_ops 0 0x80113000 (s1\<lparr>lapic := Some 0xFEE00000, n_cpu := 1, cpu_table := [CpuShared_zero]\<rparr>) = Inr ((), s3)
         \<and> managed (heap (kvm s3)) 0x8DFFFFFF)"
proof -
  have pre: "heap_laws id region_ops" "lapic demo_heap = None" "KERNBASE \<le> 0x80115000" "0x80115000 \<le> KERNBASE + 0x400000" "(0x80108000 :: usize) \<le> 0x80115000"
    "pg_dir (bump_vm\<lparr>pg_dir := entry_page_dir\<rparr>) = entry_page_dir"
    by (simp_all add: heap_laws_def region_ops_def demo_heap_def KERNBASE_def)
  from heap_region_mapped [OF pre, of 0 "0x80113000", unfolded id_apply]
  obtain s1 where s1: "main_init1 region_ops 0 0x80113000 0x80115000 demo_heap = Inr ((), s1)"
      "\<forall>a. managed (heap (kvm s1)) a \<longleftrightarrow> 0x80115000 \<le> a \<and> a < KERNBASE + 0x400000"
      "\<forall>s2 i. lock_ready 0 0x80113000 i s2 \<and> heap (kvm s2) = heap (kvm s1) \<longrightarrow>
        (\<exists>s3. main_init2 region_ops 0 0x80113000 s2 = Inr ((), s3) \<and> (\<forall>a. managed (heap (kvm s3)) a \<longleftrightarrow> 0x80115000 \<le> a \<and> a < KERNBASE + PHYSTOP)
          \<and> (\<forall>a. managed (heap (kvm s3)) a \<longrightarrow> kvm_map 0x80108000 a = Some (a - KERNBASE, WRITABLE OR PRESENT)))"
    by (elim exE conjE)
  let ?s2 = "s1\<lparr>lapic := Some 0xFEE00000, n_cpu := 1, cpu_table := [CpuShared_zero]\<rparr>"
  have "spin s1 = spin demo_heap" "eflags s1 = eflags demo_heap"
    using s1(1) by (auto simp: main_init1_def init1_def KernelHeap_init_def on_heap_def from_raw_bytes p2v_def checked_add_def checked_sub_def KERNBASE_def
        with_lock_def acquire_def release_def lapic_id_def demo_heap_def)
  then have "lock_ready 0 0x80113000 0 ?s2"
    by (simp add: lock_ready_def cli_room_def cli_ok_def cpu_at_def cpus_def CpuShared_zero_def demo_heap_def SpinLock_new_def ints_on_def)
  moreover have "heap (kvm ?s2) = heap (kvm s1)" by simp
  ultimately obtain s3 where "main_init2 region_ops 0 0x80113000 ?s2 = Inr ((), s3)" "\<forall>a. managed (heap (kvm s3)) a \<longleftrightarrow> 0x80115000 \<le> a \<and> a < KERNBASE + PHYSTOP"
    using s1(3) by (elim allE [of _ ?s2] allE [of _ 0]) (elim impE exE conjE, simp)
  then show ?thesis using s1(1,2) by (auto simp: layout_consts)
qed

end
