(* ===== verification/Byte_Memory.thy ===== *)
theory Byte_Memory
  imports Xv6_Prelude
begin

text \<open>
  Memory by bytes, for code that reads structures that something else has laid out: the tables of the firmware and
  the headers of an executable file. Numbers are little-endian.
\<close>

type_synonym bytes_mem = "usize \<Rightarrow> u8"

definition mem_u16 :: "bytes_mem \<Rightarrow> usize \<Rightarrow> u16" where
  "mem_u16 m a = ucast (m a) OR push_bit 8 (ucast (m (a + 1)))"

definition mem_u32 :: "bytes_mem \<Rightarrow> usize \<Rightarrow> u32" where
  "mem_u32 m a = ucast (m a) OR push_bit 8 (ucast (m (a + 1))) OR push_bit 16 (ucast (m (a + 2))) OR push_bit 24 (ucast (m (a + 3)))"

definition mem_bytes :: "bytes_mem \<Rightarrow> usize \<Rightarrow> nat \<Rightarrow> u8 list" where
  "mem_bytes m a n = map (\<lambda>k. m (a + of_nat k)) [0..<n]"

end
