(* ===== verification/Mp.thy ===== *)
theory Mp
  imports Cpus Ports Byte_Memory
begin

text \<open>
  Multiprocessor support (\<^verbatim>\<open>kernel/src/mp.rs\<close>): the search for the MP structures that the firmware leaves in
  memory, and the registration of the processors they list. Memory is a function from the kernel's virtual
  addresses to bytes; structures are read through their field offsets.
\<close>

section \<open>Checksums\<close>

definition sum_bytes :: "bytes_mem \<Rightarrow> usize \<Rightarrow> nat \<Rightarrow> u8" where
  "sum_bytes m p len = foldl (+) 0 (mem_bytes m p len)"

section \<open>The floating pointer structure and the configuration table\<close>

definition Mp_layout :: layout where
  "Mp_layout = \<lparr>size_of = 16, align_of = 4\<rparr>"

definition u16_layout :: layout where
  "u16_layout = \<lparr>size_of = 2, align_of = 2\<rparr>"

definition mp_verify :: "bytes_mem \<Rightarrow> usize \<Rightarrow> bool" where
  "mp_verify m a \<longleftrightarrow> mem_bytes m a 4 = [0x5F, 0x4D, 0x50, 0x5F] \<and> sum_bytes m a 16 = 0"

definition conf_addr :: "bytes_mem \<Rightarrow> usize \<Rightarrow> usize" where
  "conf_addr m mp = mem_u32 m (mp + 4)"

definition imcr :: "bytes_mem \<Rightarrow> usize \<Rightarrow> u8" where
  "imcr m mp = m (mp + 12)"

definition conf_length :: "bytes_mem \<Rightarrow> usize \<Rightarrow> u16" where
  "conf_length m conf = mem_u16 m (conf + 4)"

definition conf_version :: "bytes_mem \<Rightarrow> usize \<Rightarrow> u8" where
  "conf_version m conf = m (conf + 6)"

definition conf_lapic_addr :: "bytes_mem \<Rightarrow> usize \<Rightarrow> usize" where
  "conf_lapic_addr m conf = mem_u32 m (conf + 36)"

definition conf_verify :: "bytes_mem \<Rightarrow> usize \<Rightarrow> bool" where
  "conf_verify m conf \<longleftrightarrow> mem_bytes m conf 4 = [0x50, 0x43, 0x4D, 0x50] \<and> sum_bytes m conf (unat (conf_length m conf)) = 0"

definition get_conf :: "bytes_mem \<Rightarrow> usize \<Rightarrow> usize option res" where
  "get_conf m mp = (if conf_addr m mp = 0 then Ok None
     else rbind (p2v (conf_addr m mp)) (\<lambda>conf. Ok (if conf_verify m conf then Some conf else None)))"

text \<open>
  The loop of \<^verbatim>\<open>search1\<close> moves by 16 bytes; a pointer that runs over the end of the address space would start
  again at 0. The fuel is the number of candidates in the range.
\<close>

fun search_loop :: "nat \<Rightarrow> bytes_mem \<Rightarrow> usize \<Rightarrow> usize \<Rightarrow> usize option res" where
  "search_loop 0 m end addr = Fail Spin"
| "search_loop (Suc n) m end addr =
     (if addr < end
      then rbind (addr_cast Mp_layout addr) (\<lambda>mp.
        if mp_verify m mp then Ok (Some mp)
        else rbind (addr_add byte_layout addr (size_of Mp_layout)) (search_loop n m end))
      else Ok None)"

definition search1 :: "bytes_mem \<Rightarrow> usize \<Rightarrow> usize \<Rightarrow> usize option res" where
  "search1 m addr len = rbind (p2v addr) (\<lambda>a. rbind (addr_add byte_layout a len) (\<lambda>end. search_loop (unat len div 16 + 2) m end a))"

definition search :: "bytes_mem \<Rightarrow> usize option res" where
  "search m =
     rbind (addr_from_raw u16_layout 0x40E) (\<lambda>pa. rbind (p2v pa) (\<lambda>va.
     let ebda = push_bit 4 (ucast (mem_u16 m va)) in
     rbind (if ebda \<noteq> 0 then Ok ebda
            else rbind (addr_from_raw u16_layout 0x413) (\<lambda>pb. rbind (p2v pb) (\<lambda>vb.
                 rbind (checked_mul (ucast (mem_u16 m vb)) 1024) (\<lambda>bef. checked_sub bef 1024)))) (\<lambda>first_try.
     rbind (search1 m first_try 1024) (\<lambda>r. case r of Some mp \<Rightarrow> Ok (Some mp) | None \<Rightarrow> search1 m 0xF0000 0x10000))))"

definition config :: "bytes_mem \<Rightarrow> (usize \<times> usize) option res" where
  "config m = rbind (search m) (\<lambda>r. case r of None \<Rightarrow> Ok None | Some mp \<Rightarrow>
     rbind (get_conf m mp) (\<lambda>c. case c of None \<Rightarrow> Ok None | Some conf \<Rightarrow>
       Ok (if conf_version m conf \<in> {1, 4} then Some (mp, conf) else None)))"

section \<open>The entries\<close>

definition MPPROC :: u8 where "MPPROC = 0x00"
definition MPBUS :: u8 where "MPBUS = 0x01"
definition MPIOAPIC :: u8 where "MPIOAPIC = 0x02"
definition MPIOINTR :: u8 where "MPIOINTR = 0x03"
definition MPLINTR :: u8 where "MPLINTR = 0x04"

definition register_cpu :: "u8 \<Rightarrow> 'b kst_scheme \<Rightarrow> 'b kst_scheme" where
  "register_cpu ap s = (case init_new_cpu s of (None, s1) \<Rightarrow> s1
     | (Some i, s1) \<Rightarrow> s1\<lparr>cpu_table := (cpu_table s1)[i := (cpu_table s1 ! i)\<lparr>apic_id := ap\<rparr>]\<rparr>)"

text \<open>
  The loop of \<^verbatim>\<open>init\<close> over the entries, with the identifier of the I/O APIC. An entry has at least 8 bytes, and the fuel
  is the length of the table in bytes.
\<close>

fun entries_loop :: "nat \<Rightarrow> bytes_mem \<Rightarrow> usize \<Rightarrow> usize \<Rightarrow> 'b kst_scheme \<times> u8 \<Rightarrow> ('b kst_scheme \<times> u8) res" where
  "entries_loop 0 m p e c = Fail Spin"
| "entries_loop (Suc n) m p e c =
     (if p < e
      then let ty = m p in
        if ty = MPPROC then entries_loop n m (p + 20) e (register_cpu (m (p + 1)) (fst c), snd c)
        else if ty = MPIOAPIC then entries_loop n m (p + 8) e (fst c, m (p + 1))
        else if ty = MPBUS \<or> ty = MPIOINTR \<or> ty = MPLINTR then entries_loop n m (p + 8) e c
        else Fail (Panic ''Didn't find a suitable machine'')
      else Ok c)"

text \<open>\<open>vs\<close> are the values of reads of the port 0x23.\<close>

definition mp_init :: "bytes_mem \<Rightarrow> u8 list \<Rightarrow> 'b kst_scheme \<times> u8 \<Rightarrow> (('b kst_scheme \<times> u8) \<times> io list) res" where
  "mp_init m vs c =
     rbind (config m) (\<lambda>r. rbind (rexpect r ''Expect to run on an SMP'') (\<lambda>(mp, conf).
     rbind (entries_loop (unat (conf_length m conf) + 1) m (conf + 44) (conf + ucast (conf_length m conf)) c) (\<lambda>(s, io).
     let s1 = s\<lparr>lapic := Some (conf_lapic_addr m conf)\<rparr> in
     if imcr m mp \<noteq> 0
     then rbind (inb vs) (\<lambda>(v, _). Ok ((s1, io), outb 0x23 (v OR 1) (outb 0x22 0x70 [])))
     else Ok ((s1, io), []))))"

section \<open>Lemmas\<close>

text \<open>The candidates of a range are its multiples of 16 bytes.\<close>

definition candidates :: "usize \<Rightarrow> nat \<Rightarrow> usize list" where
  "candidates a n = map (\<lambda>k. a + of_nat (16 * k)) [0..<n]"

lemma candidates_Suc: "candidates a (Suc n) = a # candidates (a + 16) n"
  by (simp add: candidates_def upt_conv_Cons map_Suc_upt [symmetric] algebra_simps del: upt_Suc)

lemma search_loop_find:
  assumes "unat a + 16 * k < 2 ^ 32" "unat a mod 4 = 0" "k < n"
  shows "search_loop n m (a + of_nat (16 * k)) a = Inr (find (mp_verify m) (candidates a k))"
  using assms
proof (induction k arbitrary: a n)
  case 0
  then show ?case by (cases n) (simp_all add: candidates_def)
next
  case (Suc k)
  obtain n' where n: "n = Suc n'" using Suc.prems(3) by (cases n) auto
  have u: "unat (a + of_nat (16 * Suc k)) = unat a + 16 * Suc k" "unat (a + 16) = unat a + 16"
    using Suc.prems(1) by (simp_all add: unat_word_ariths unat_of_nat)
  have lt: "a < a + of_nat (16 * Suc k)" using u(1) by (simp only: word_less_nat_alt) simp
  have al: "a mod 4 = 0" using Suc.prems(2) by (simp add: word_unat_eq_iff unat_mod)
  have "search_loop n' m (a + 16 + of_nat (16 * k)) (a + 16) = Inr (find (mp_verify m) (candidates (a + 16) k))"
    by (rule Suc.IH) (use Suc.prems u(2) n in auto)
  moreover have "a + 16 + of_nat (16 * k) = a + of_nat (16 * Suc k)" by simp
  ultimately have rec: "search_loop n' m (a + of_nat (16 * Suc k)) (a + 16) = Inr (find (mp_verify m) (candidates (a + 16) k))" by (simp only:)
  show ?case
    unfolding n candidates_Suc using lt al rec
    by (simp add: addr_cast_def addr_from_def addr_add_def Mp_layout_def del: of_nat_mult)
qed

lemma word_of_unat: "unat (w :: usize) = n \<Longrightarrow> w = of_nat n"
  by auto

lemma unat_ucast16: "unat (ucast (w :: u16) :: usize) = unat w"
  by (simp add: unsigned_ucast_eq take_bit_nat_eq_self order_less_trans [OF unat_less16])

lemma find_append: "find P (xs @ ys) = (case find P xs of None \<Rightarrow> find P ys | Some x \<Rightarrow> Some x)"
  by (induction xs) auto

lemma search1_find:
  assumes "unat addr + unat len < 2 ^ 31" "unat addr mod 4 = 0" "unat len = 16 * k"
  shows "search1 m addr len = Inr (find (mp_verify m) (candidates (addr + KERNBASE) k))"
proof -
  have u: "unat (addr + KERNBASE) = unat addr + 2 ^ 31" using assms(1) by (simp add: unat_word_ariths KERNBASE_def)
  have "p2v addr = Inr (addr + KERNBASE)" using assms(1) by (simp add: p2v_def checked_add_def KERNBASE_def)
  moreover have "len = of_nat (16 * k)" using word_of_unat [OF assms(3)] .
  moreover have "search_loop (unat len div 16 + 2) m (addr + KERNBASE + of_nat (16 * k)) (addr + KERNBASE) = Inr (find (mp_verify m) (candidates (addr + KERNBASE) k))"
    by (rule search_loop_find) (use u assms in \<open>simp_all add: mod_add_eq [symmetric, of _ "2147483648"]\<close>)
  ultimately show ?thesis by (simp add: search1_def addr_add_def del: of_nat_mult)
qed

lemma ebda_bounds: "unat (push_bit 4 (ucast (w :: u16)) :: usize) = 16 * unat w"
  using unat_less16 [of w] by (simp add: push_bit_eq_mult unat_word_ariths unat_ucast16)

datatype mp_entry = Proc u8 | IoApic u8 | Other u8

fun mp_table_at :: "bytes_mem \<Rightarrow> usize \<Rightarrow> mp_entry list \<Rightarrow> bool" where
  "mp_table_at m p [] \<longleftrightarrow> True"
| "mp_table_at m p (Proc ap # es) \<longleftrightarrow> m p = MPPROC \<and> m (p + 1) = ap \<and> mp_table_at m (p + 20) es"
| "mp_table_at m p (IoApic ap # es) \<longleftrightarrow> m p = MPIOAPIC \<and> m (p + 1) = ap \<and> mp_table_at m (p + 8) es"
| "mp_table_at m p (Other ty # es) \<longleftrightarrow> m p = ty \<and> ty \<in> {MPBUS, MPIOINTR, MPLINTR} \<and> mp_table_at m (p + 8) es"

fun table_size :: "mp_entry list \<Rightarrow> nat" where
  "table_size [] = 0"
| "table_size (Proc ap # es) = 20 + table_size es"
| "table_size (IoApic ap # es) = 8 + table_size es"
| "table_size (Other ty # es) = 8 + table_size es"

fun proc_ids :: "mp_entry list \<Rightarrow> u8 list" where
  "proc_ids [] = []"
| "proc_ids (Proc ap # es) = ap # proc_ids es"
| "proc_ids (IoApic ap # es) = proc_ids es"
| "proc_ids (Other ty # es) = proc_ids es"

fun io_id :: "mp_entry list \<Rightarrow> u8 \<Rightarrow> u8" where
  "io_id [] io = io"
| "io_id (Proc ap # es) io = io_id es io"
| "io_id (IoApic ap # es) io = io_id es ap"
| "io_id (Other ty # es) io = io_id es io"

lemma table_size_length: "length es \<le> table_size es"
  by (induction es rule: table_size.induct) auto

lemmas mp_types = MPPROC_def MPBUS_def MPIOAPIC_def MPIOINTR_def MPLINTR_def

lemma entries_loop_ok:
  fixes s :: "'b kst_scheme"
  shows "mp_table_at m p es \<Longrightarrow> unat p + table_size es < 2 ^ 32 \<Longrightarrow> length es < n \<Longrightarrow>
    entries_loop n m p (p + of_nat (table_size es)) (s, io) = Inr (fold register_cpu (proc_ids es) s, io_id es io)"
proof (induction es arbitrary: n p s io)
  case Nil
  then show ?case by (cases n) simp_all
next
  case (Cons e es)
  obtain n' where n: "n = Suc n'" "length es < n'" using Cons.prems(3) by (cases n) auto
  define k where "k = (case e of Proc _ \<Rightarrow> 20 | _ \<Rightarrow> (8 :: nat))"
  have k: "table_size (e # es) = k + table_size es" "8 \<le> k" by (cases e; simp add: k_def)+
  have u: "unat (p + of_nat (table_size (e # es))) = unat p + table_size (e # es)" "unat (p + of_nat k) = unat p + k"
    using Cons.prems(2) k by (simp_all add: unat_word_ariths unat_of_nat)
  have lt: "p < p + of_nat (table_size (e # es))" unfolding word_less_nat_alt u(1) using k by simp
  have e: "p + of_nat (table_size (e # es)) = (p + of_nat k) + of_nat (table_size es)" by (simp add: k(1))
  have IH: "entries_loop n' m (p + of_nat k) (p + of_nat (table_size (e # es))) (s', io') = Inr (fold register_cpu (proc_ids es) s', io_id es io')"
    if "mp_table_at m (p + of_nat k) es" for s' :: "'b kst_scheme" and io'
    unfolding e by (rule Cons.IH [OF that]) (use u(2) Cons.prems(2) k n(2) in simp_all)
  show ?case
    using Cons.prems(1) lt unfolding n(1)
    by (cases e) (use IH in \<open>auto simp: k_def mp_types Let_def simp del: table_size.simps\<close>)
qed

lemma cpus_registered:
  "length (cpu_table s) = MAX_NCPU \<Longrightarrow> n_cpu s \<le> MAX_NCPU \<Longrightarrow>
    map apic_id (cpus (fold register_cpu ids s)) = take MAX_NCPU (map apic_id (cpus s) @ ids)"
proof (induction ids arbitrary: s)
  case Nil
  then show ?case by (simp add: cpus_def)
next
  case (Cons ap ids)
  let ?s = "register_cpu ap s"
  show ?case
  proof (cases "n_cpu s = MAX_NCPU")
    case True
    then have "?s = s" by (simp add: register_cpu_def init_new_cpu_def)
    then show ?thesis using Cons.IH [of s] Cons.prems True by (simp add: cpus_def)
  next
    case False
    then have lt: "n_cpu s < MAX_NCPU" using Cons.prems(2) by simp
    have "n_cpu ?s = Suc (n_cpu s)" "cpu_table ?s = (cpu_table s)[n_cpu s := (cpu_table s ! n_cpu s)\<lparr>apic_id := ap\<rparr>]"
      using False by (simp_all add: register_cpu_def init_new_cpu_def)
    moreover from this have "map apic_id (cpus ?s) = map apic_id (cpus s) @ [ap]"
      using lt Cons.prems(1) by (simp add: cpus_def take_Suc_conv_app_nth)
    ultimately show ?thesis using Cons.IH [of ?s] Cons.prems(1) lt by simp
  qed
qed

lemma register_cpu_table: "length (cpu_table (fold register_cpu ids s)) = length (cpu_table s)"
  by (induction ids arbitrary: s) (auto simp: register_cpu_def init_new_cpu_def split: prod.splits option.splits if_splits)

text \<open>Registration changes nothing but the number of processors and their identifiers.\<close>

lemma register_keeps:
  "eflags (fold register_cpu ids s) = eflags s" "spin (fold register_cpu ids s) = spin s" "kst.more (fold register_cpu ids s) = kst.more s"
  "n_cpu s \<le> MAX_NCPU \<Longrightarrow> n_cpu (fold register_cpu ids s) \<le> MAX_NCPU"
  "map (\<lambda>c. c\<lparr>apic_id := 0\<rparr>) (cpu_table (fold register_cpu ids s)) = map (\<lambda>c. c\<lparr>apic_id := 0\<rparr>) (cpu_table s)"
proof -
  have "eflags (register_cpu ap s) = eflags s \<and> spin (register_cpu ap s) = spin s \<and> kst.more (register_cpu ap s) = kst.more s
      \<and> (n_cpu s \<le> MAX_NCPU \<longrightarrow> n_cpu (register_cpu ap s) \<le> MAX_NCPU)
      \<and> map (\<lambda>c. c\<lparr>apic_id := 0\<rparr>) (cpu_table (register_cpu ap s)) = map (\<lambda>c. c\<lparr>apic_id := 0\<rparr>) (cpu_table s)" for ap and s :: "'a kst_scheme"
  proof (cases "n_cpu s < length (cpu_table s)")
    case True
    then show ?thesis by (auto intro!: nth_equalityI simp: register_cpu_def init_new_cpu_def nth_list_update)
  next
    case False
    then show ?thesis by (auto simp: register_cpu_def init_new_cpu_def list_update_beyond)
  qed
  then show "eflags (fold register_cpu ids s) = eflags s" "spin (fold register_cpu ids s) = spin s" "kst.more (fold register_cpu ids s) = kst.more s"
      "n_cpu s \<le> MAX_NCPU \<Longrightarrow> n_cpu (fold register_cpu ids s) \<le> MAX_NCPU"
      "map (\<lambda>c. c\<lparr>apic_id := 0\<rparr>) (cpu_table (fold register_cpu ids s)) = map (\<lambda>c. c\<lparr>apic_id := 0\<rparr>) (cpu_table s)"
    by (induction ids arbitrary: s; simp)+
qed

lemma search_eq:
  "search m = (let ebda = mem_u16 m 0x8000040E in
     if ebda = 0 then Inl (Panic ''address must be aligned properly'')
     else Inr (find (mp_verify m) (candidates (KERNBASE + 16 * ucast ebda) 64 @ candidates (KERNBASE + 0xF0000) 4096)))"
proof -
  define w where "w = mem_u16 m 0x8000040E"
  let ?e = "push_bit 4 (ucast w) :: usize"
  have p: "addr_from_raw u16_layout 0x40E = Inr 0x40E" "p2v 0x40E = Inr 0x8000040E"
    by (simp_all add: addr_from_raw_def u16_layout_def p2v_def checked_add_def KERNBASE_def)
  have u: "unat ?e = 16 * unat w" by (rule ebda_bounds)
  have z: "?e = 0 \<longleftrightarrow> w = 0" using u by (metis mult_eq_0_iff unat_eq_zero zero_neq_numeral)
  show ?thesis
  proof (cases "w = 0")
    case True
    then show ?thesis using p by (simp add: search_def Let_def w_def [symmetric] addr_from_raw_def [of _ "0x413"] u16_layout_def)
  next
    case False
    have "unat ?e + unat (1024 :: usize) < 2 ^ 31" "unat ?e mod 4 = 0" "unat (1024 :: usize) = 16 * 64" using u unat_less16 [of w] by simp_all
    then have s1: "search1 m ?e 1024 = Inr (find (mp_verify m) (candidates (?e + KERNBASE) 64))" by (rule search1_find)
    have s2: "search1 m 0xF0000 0x10000 = Inr (find (mp_verify m) (candidates (0xF0000 + KERNBASE) 4096))" by (rule search1_find) simp_all
    have "?e = 16 * ucast w" by (simp add: push_bit_eq_mult mult.commute)
    then show ?thesis using p s1 s2 False z
      by (auto simp: search_def Let_def w_def [symmetric] find_append add.commute [of KERNBASE] split: option.splits)
  qed
qed

section \<open>Properties\<close>

text \<open>C36. Which MP structures \<^verbatim>\<open>search\<close> finds: when the firmware reports an EBDA, the first one with the signature and a zero checksum, at steps
  of 16 bytes, in the first kilobyte of the EBDA and then from 0xF0000 to 0xFFFFF, and none anywhere else. So it looks into two of the three
  places that its comment lists: a structure between 0xE0000 and 0xEFFFF, in the lower half of the BIOS ROM, or in the last kilobyte of base
  memory is not found. On a machine whose firmware reports no EBDA it panics before it looks anywhere, since the address 0x413 that it
  would read then is odd.\<close>

theorem mp_search_first:
  "search m = (let ebda = mem_u16 m 0x8000040E in
     if ebda = 0 then Inl (Panic ''address must be aligned properly'')
     else Inr (find (mp_verify m) (candidates (KERNBASE + 16 * ucast ebda) 64 @ candidates (KERNBASE + 0xF0000) 4096)))"
  by (rule search_eq)

text \<open>What goes to the ports of the IMCR, if there is one, when \<open>v\<close> is the value read from it.\<close>

definition imcr_out :: "bytes_mem \<Rightarrow> usize \<Rightarrow> u8 \<Rightarrow> io list" where
  "imcr_out m mp v = (if imcr m mp = 0 then [] else [OutB 0x22 0x70, OutB 0x23 (v OR 1)])"

lemma mp_init_ok:
  assumes "config m = Inr (Some (mp, conf))" "imcr m mp = 0 \<or> vs \<noteq> []" "mp_table_at m (conf + 44) es" "unat (conf_length m conf) = 44 + table_size es"
    and "unat conf + unat (conf_length m conf) < 2 ^ 32"
  shows "mp_init m vs (s, io) = Inr (((fold register_cpu (proc_ids es) s)\<lparr>lapic := Some (conf_lapic_addr m conf)\<rparr>, io_id es io), imcr_out m mp (hd vs))"
proof -
  let ?l = "conf_length m conf" and ?s = "fold register_cpu (proc_ids es) s"
  have l: "ucast ?l = (of_nat (44 + table_size es) :: usize)" by (rule word_of_unat) (simp add: unat_ucast16 assms(4))
  have e: "conf + ucast ?l = (conf + 44) + of_nat (table_size es)" by (simp add: l)
  have "unat (conf + 44) = unat conf + 44" using assms(4,5) by (simp add: unat_word_ariths)
  then have "entries_loop (unat ?l + 1) m (conf + 44) (conf + ucast ?l) (s, io) = Inr (?s, io_id es io)"
    unfolding e by (intro entries_loop_ok [OF assms(3)]) (use assms(4,5) table_size_length [of es] in simp_all)
  then show ?thesis using assms(1,2) by (cases vs) (auto simp: mp_init_def Let_def imcr_out_def outb_def inb_def simp del: entries_loop.simps)
qed


text \<open>Memory with an EBDA at 0x9FC00 that holds the MP structure, and a table of one processor and one I/O APIC.\<close>

definition demo_mp :: "u8 list" where
  "demo_mp = [95, 77, 80, 95, 0, 253, 9, 0, 1, 4, 154, 0, 0, 0, 0, 0]"

definition demo_conf :: "u8 list" where
  "demo_conf = [80, 67, 77, 80, 72, 0, 4, 179, 0, 0, 0, 0, 0, 0, 0, 0, 0, 0, 0, 0, 0, 0, 0, 0, 0, 0, 0, 0, 0, 0, 0, 0, 0, 0, 3, 0, 0, 0, 224, 254, 0, 0, 0, 0, 0, 0, 20, 3, 0, 0, 0, 0, 0, 0, 0, 0, 0, 0, 0, 0, 0, 0, 0, 0, 2, 7, 17, 1, 0, 0, 192, 254]"

definition demo_mem :: bytes_mem where
  "demo_mem a = (if a = 0x8000040E then 0xC0 else if a = 0x8000040F then 0x9F
     else if a - 0x8009FC00 < 16 then demo_mp ! unat (a - 0x8009FC00) else if a - 0x8009FD00 < 72 then demo_conf ! unat (a - 0x8009FD00) else 0)"

lemma demo_verify: "mp_verify demo_mem 0x8009FC00" "conf_verify demo_mem 0x8009FD00"
  by code_simp+

lemma demo_fields:
  "mem_u16 demo_mem 0x8000040E = 0x9FC0" "conf_addr demo_mem 0x8009FC00 = 0x9FD00" "conf_version demo_mem 0x8009FD00 = 4"
  "imcr demo_mem 0x8009FC00 = 0" "conf_length demo_mem 0x8009FD00 = 72" "conf_lapic_addr demo_mem 0x8009FD00 = 0xFEE00000"
  "mp_table_at demo_mem (0x8009FD00 + 44) [Proc 0, IoApic 7]"
  by code_simp+

lemma demo_config: "config demo_mem = Inr (Some (0x8009FC00, 0x8009FD00))"
proof -
  have "candidates 0x8009FC00 64 = 0x8009FC00 # candidates 0x8009FC10 63" using candidates_Suc [of "0x8009FC00" 63] by simp
  then have "search demo_mem = Inr (Some 0x8009FC00)"
    unfolding search_eq using demo_verify(1) by (simp add: Let_def demo_fields(1) KERNBASE_def)
  then show ?thesis
    using demo_verify(2) by (simp add: config_def get_conf_def demo_fields p2v_def checked_add_def KERNBASE_def)
qed


end
