(* ===== verification/Console.thy ===== *)
theory Console
  imports Apic Scheduling
begin

text \<open>
  The console: the VGA text screen of \<^verbatim>\<open>kernel/src/console.rs\<close> (module \<^verbatim>\<open>vga\<close>) and the serial line of
  \<^verbatim>\<open>kernel/src/uart.rs\<close>. The screen memory is a list of rows of cells, and every access to it is checked
  against its bounds as the array accesses of the source are; positions are at most 80 and are kept as
  natural numbers.
\<close>

section \<open>The screen\<close>

datatype Color = Black | Blue | Green | Cyan | Red | Magenta | Brown | LightGray | DarkGray | LightBlue | LightGreen
  | LightCyan | LightRed | Pink | Yellow | White

primrec color_number :: "Color \<Rightarrow> u8" where
  "color_number Black = 0"
| "color_number Blue = 1"
| "color_number Green = 2"
| "color_number Cyan = 3"
| "color_number Red = 4"
| "color_number Magenta = 5"
| "color_number Brown = 6"
| "color_number LightGray = 7"
| "color_number DarkGray = 8"
| "color_number LightBlue = 9"
| "color_number LightGreen = 10"
| "color_number LightCyan = 11"
| "color_number LightRed = 12"
| "color_number Pink = 13"
| "color_number Yellow = 14"
| "color_number White = 15"

definition ColorCode_new :: "Color \<Rightarrow> Color \<Rightarrow> u8" where
  "ColorCode_new fg bg = push_bit 4 (color_number bg) OR color_number fg"

definition WHITE :: u8 where "WHITE = ColorCode_new White Black"
definition LIGHT_RED :: u8 where "LIGHT_RED = ColorCode_new LightRed Black"
definition YELLOW :: u8 where "YELLOW = ColorCode_new Yellow Black"
definition CYAN :: u8 where "CYAN = ColorCode_new LightCyan Black"
definition LIGHT_GREEN :: u8 where "LIGHT_GREEN = ColorCode_new LightGreen Black"

definition HEIGHT :: nat where "HEIGHT = 25"
definition WIDTH :: nat where "WIDTH = 80"
definition CRT_PORT :: u16 where "CRT_PORT = 0x3D4"

record ScreenCell =
  ascii :: u8
  cell_color :: u8

text \<open>\<open>crt\<close> are the accesses to the ports of the cursor.\<close>

record Writer =
  column_position :: nat
  row_position :: nat
  wcolor :: u8
  cells :: "ScreenCell list list"
  crt :: "io list"

definition write_cell :: "nat \<Rightarrow> nat \<Rightarrow> ScreenCell \<Rightarrow> Writer \<Rightarrow> Writer res" where
  "write_cell r c cell w =
     (if r < length (cells w) \<and> c < length (cells w ! r)
      then Ok (w\<lparr>cells := (cells w)[r := (cells w ! r)[c := cell]]\<rparr>) else Fail (Panic ''index out of bounds''))"

definition read_cell :: "nat \<Rightarrow> nat \<Rightarrow> Writer \<Rightarrow> ScreenCell res" where
  "read_cell r c w =
     (if r < length (cells w) \<and> c < length (cells w ! r) then Ok (cells w ! r ! c) else Fail (Panic ''index out of bounds''))"

definition update_cursor :: "Writer \<Rightarrow> Writer" where
  "update_cursor w = (let pos = of_nat (row_position w * WIDTH + column_position w) :: usize in
     w\<lparr>crt := outb (CRT_PORT + 1) (ucast (drop_bit 8 pos AND 0xFF)) (outb (CRT_PORT + 0) 0x0E
       (outb (CRT_PORT + 1) (ucast (pos AND 0xFF)) (outb (CRT_PORT + 0) 0x0F (crt w))))\<rparr>)"

definition clear_row :: "nat \<Rightarrow> Writer \<Rightarrow> Writer res" where
  "clear_row row w = (let blank = \<lparr>ascii = 0x20, cell_color = wcolor w\<rparr> in
     for_range 0 WIDTH (\<lambda>col. write_cell row col blank) w)"

definition clear_screen :: "Writer \<Rightarrow> Writer res" where
  "clear_screen w = for_range 0 HEIGHT clear_row w"

definition scroll :: "Writer \<Rightarrow> Writer res" where
  "scroll w = for_range 1 HEIGHT (\<lambda>row. for_range 0 WIDTH (\<lambda>col w1.
     rbind (read_cell row col w1) (\<lambda>cell. write_cell (row - 1) col cell w1))) w"

definition new_line :: "Writer \<Rightarrow> Writer res" where
  "new_line w =
     rbind (if row_position w = HEIGHT - 1 then rbind (scroll w) (clear_row (HEIGHT - 1))
            else Ok (w\<lparr>row_position := row_position w + 1\<rparr>)) (\<lambda>w1.
       Ok (update_cursor (w1\<lparr>column_position := 0\<rparr>)))"

definition write_byte :: "u8 \<Rightarrow> Writer \<Rightarrow> Writer res" where
  "write_byte byte w =
     (if byte = 0x0A then new_line w
      else rbind (if column_position w \<ge> WIDTH then new_line w else Ok w) (\<lambda>w1.
           rbind (write_cell (row_position w1) (column_position w1) \<lparr>ascii = byte, cell_color = wcolor w1\<rparr> w1) (\<lambda>w2.
             Ok (update_cursor (w2\<lparr>column_position := column_position w2 + 1\<rparr>)))))"

text \<open>Bytes that are neither printable nor a line feed are shown as a square.\<close>

definition shown :: "u8 \<Rightarrow> u8" where
  "shown byte = (if 0x20 \<le> byte \<and> byte \<le> 0x7E \<or> byte = 0x0A then byte else 0xFE)"

fun write_string :: "u8 list \<Rightarrow> Writer \<Rightarrow> Writer res" where
  "write_string [] w = Ok w"
| "write_string (b # bs) w = rbind (write_byte (shown b) w) (write_string bs)"

definition change_color :: "u8 \<Rightarrow> Writer \<Rightarrow> Writer" where
  "change_color c w = w\<lparr>wcolor := c\<rparr>"

section \<open>The serial line\<close>

definition COM1 :: u16 where "COM1 = 0x03F8"

text \<open>The driver with the values that reads of its ports will return, which but for the initialisation are those of the line status.\<close>

record uart =
  is_uart :: bool
  lsr :: "u8 list"
  sent :: "io list"

fun wait_lsr :: "u8 list \<Rightarrow> u8 list res" where
  "wait_lsr [] = Fail Spin"
| "wait_lsr (v # vs) = (if v AND 0x20 = 0 then wait_lsr vs else Ok vs)"

definition putc :: "u8 \<Rightarrow> uart \<Rightarrow> uart res" where
  "putc c u = (if \<not> is_uart u then Ok u
     else rbind (wait_lsr (lsr u)) (\<lambda>vs. Ok (u\<lparr>lsr := vs, sent := outb (COM1 + 0) c (sent u)\<rparr>)))"

fun puts_loop :: "u8 list \<Rightarrow> uart \<Rightarrow> uart res" where
  "puts_loop [] u = Ok u"
| "puts_loop (c # cs) u = rbind (putc c u) (puts_loop cs)"

definition puts :: "u8 list \<Rightarrow> uart \<Rightarrow> uart res" where
  "puts s u = (if \<not> is_uart u then Ok u else puts_loop s u)"

text \<open>Initialisation reads the line status and, when there is a serial port, two more registers, and routes its interrupt.\<close>

definition uart_init :: "uart \<times> ioapic \<Rightarrow> (uart \<times> ioapic) res" where
  "uart_init = (\<lambda>(u, io).
     let tr = outb (COM1 + 1) 0x01 (outb (COM1 + 4) 0 (outb (COM1 + 3) 0x03 (outb (COM1 + 1) 0
       (outb (COM1 + 0) (of_nat (115200 div 9600)) (outb (COM1 + 3) 0x80 (outb (COM1 + 2) 0 (sent u))))))) in
     rbind (inb (lsr u)) (\<lambda>(v, vs).
       if v = 0xFF then Ok (u\<lparr>lsr := vs, sent := tr\<rparr>, io)
       else rbind (inb vs) (\<lambda>(_, vs1). rbind (inb vs1) (\<lambda>(_, vs2).
         rbind (enable IRQ_COM1 0 io) (\<lambda>io1. Ok (u\<lparr>is_uart := True, lsr := vs2, sent := tr\<rparr>, io1))))))"

section \<open>Printing\<close>

text \<open>\<^verbatim>\<open>write_fmt\<close> hands the pieces of the formatted text to \<^verbatim>\<open>write_str\<close> one by one.\<close>

definition write_str :: "u8 list \<Rightarrow> uart \<times> Writer \<Rightarrow> (uart \<times> Writer) res" where
  "write_str s = (\<lambda>(u, w). rbind (puts s u) (\<lambda>u1. rbind (write_string s w) (\<lambda>w1. Ok (u1, w1))))"

fun write_fmt :: "u8 list list \<Rightarrow> uart \<times> Writer \<Rightarrow> (uart \<times> Writer) res" where
  "write_fmt [] c = Ok c"
| "write_fmt (p # ps) c = rbind (write_str p c) (write_fmt ps)"

text \<open>\<open>vga_print\<close> is \<^verbatim>\<open>_print\<close>, with the guard of the lock \<open>lk\<close> of \<^verbatim>\<open>VGA_WRITER\<close>, and \<open>print_with_color\<close> is \<^verbatim>\<open>_print_with_color\<close>.\<close>

definition vga_print :: "u8 \<Rightarrow> usize \<Rightarrow> u8 list list \<Rightarrow> (uart \<times> Writer) \<times> 'b kst_scheme \<Rightarrow> ((uart \<times> Writer) \<times> 'b kst_scheme) res" where
  "vga_print me lk ps = (\<lambda>(c, s). with_lock me lk (\<lambda>s1. rbind (write_fmt ps c) (\<lambda>c1. Ok (c1, s1))) s)"

definition print_with_color :: "u8 \<Rightarrow> usize \<Rightarrow> u8 \<Rightarrow> u8 list list \<Rightarrow> (uart \<times> Writer) \<times> 'b kst_scheme \<Rightarrow> ((uart \<times> Writer) \<times> 'b kst_scheme) res" where
  "print_with_color me lk color ps = (\<lambda>((u, w), s). with_lock me lk (\<lambda>s1.
     rbind (write_fmt ps (u, change_color color w)) (\<lambda>(u1, w1). Ok ((u1, change_color WHITE w1), s1))) s)"

section \<open>Screen operations as list operations\<close>

definition wf_screen :: "ScreenCell list list \<Rightarrow> bool" where
  "wf_screen cs \<longleftrightarrow> length cs = HEIGHT \<and> (\<forall>row \<in> set cs. length row = WIDTH)"

lemma wf_screenD: "wf_screen cs \<Longrightarrow> length cs = HEIGHT" "wf_screen cs \<Longrightarrow> r < HEIGHT \<Longrightarrow> length (cs ! r) = WIDTH"
  by (auto simp: wf_screen_def)

lemma wf_screen_update: "wf_screen cs \<Longrightarrow> length row = WIDTH \<Longrightarrow> wf_screen (cs[r := row])"
  using set_update_subset_insert [of cs r row] by (auto simp: wf_screen_def)

lemma update_boundary:
  assumes "i < length ys" "length xs = i"
  shows "(xs @ drop i ys)[i := y] = (xs @ [y]) @ drop (Suc i) ys"
  using assms by (simp add: list_update_append Cons_nth_drop_Suc [symmetric])

lemma clear_row_eq:
  assumes wf: "wf_screen (cells w)" and r: "row < HEIGHT"
  shows "clear_row row w = Inr (w\<lparr>cells := (cells w)[row := replicate WIDTH \<lparr>ascii = 0x20, cell_color = wcolor w\<rparr>]\<rparr>)"
proof -
  let ?b = "\<lparr>ascii = 0x20, cell_color = wcolor w\<rparr>"
  define P where "P i s \<longleftrightarrow> s = w\<lparr>cells := (cells w)[row := replicate i ?b @ drop i (cells w ! row)]\<rparr>" for i s
  have l: "length (cells w) = HEIGHT" "length (cells w ! row) = WIDTH" using wf_screenD [OF wf] r by simp_all
  have "\<exists>s'. write_cell row i ?b s = Inr s' \<and> P (Suc i) s'" if "i < WIDTH" "P i s" for i s
    using that l r update_boundary [of i "cells w ! row" "replicate i ?b" ?b]
    by (simp add: P_def write_cell_def replicate_append_same)
  then obtain s' where "for_range 0 WIDTH (\<lambda>col. write_cell row col ?b) w = Inr s'" "P WIDTH s'"
    using for_range_inv [of 0 WIDTH P "\<lambda>col. write_cell row col ?b" 0 w] by (auto simp: P_def)
  then show ?thesis using l by (simp add: clear_row_def P_def)
qed

lemma scroll_row:
  assumes wf: "wf_screen (cells w)" and r: "Suc r < HEIGHT"
  shows "for_range 0 WIDTH (\<lambda>col w1. rbind (read_cell (Suc r) col w1) (\<lambda>cell. write_cell r col cell w1)) w
    = Inr (w\<lparr>cells := (cells w)[r := cells w ! Suc r]\<rparr>)"
proof -
  let ?f = "\<lambda>col w1. rbind (read_cell (Suc r) col w1) (\<lambda>cell. write_cell r col cell w1)"
  define P where "P i s \<longleftrightarrow> s = w\<lparr>cells := (cells w)[r := take i (cells w ! Suc r) @ drop i (cells w ! r)]\<rparr>" for i s
  have l: "length (cells w) = HEIGHT" "length (cells w ! r) = WIDTH" "length (cells w ! Suc r) = WIDTH" using wf_screenD [OF wf] r by simp_all
  have "\<exists>s'. ?f i s = Inr s' \<and> P (Suc i) s'" if "i < WIDTH" "P i s" for i s
    using that l r update_boundary [of i "cells w ! r" "take i (cells w ! Suc r)" "cells w ! Suc r ! i"]
    by (simp add: P_def write_cell_def read_cell_def take_Suc_conv_app_nth)
  then obtain s' where "for_range 0 WIDTH ?f w = Inr s'" "P WIDTH s'"
    using for_range_inv [of 0 WIDTH P ?f 0 w] by (auto simp: P_def)
  then show ?thesis using l by (simp add: P_def)
qed

lemma scroll_eq:
  assumes wf: "wf_screen (cells w)"
  shows "\<exists>row. scroll w = Inr (w\<lparr>cells := tl (cells w) @ [row]\<rparr>) \<and> length row = WIDTH"
proof -
  let ?f = "\<lambda>row. for_range 0 WIDTH (\<lambda>col w1. rbind (read_cell row col w1) (\<lambda>cell. write_cell (row - 1) col cell w1))"
  define P where "P i s \<longleftrightarrow> s = w\<lparr>cells := take (i - 1) (tl (cells w)) @ drop (i - 1) (cells w)\<rparr>" for i s
  have l: "length (cells w) = HEIGHT" using wf_screenD [OF wf] by simp
  have "\<exists>s'. ?f i s = Inr s' \<and> P (Suc i) s'" if i: "1 \<le> i" "i < HEIGHT" "P i s" for i s
  proof -
    obtain r where r: "i = Suc r" using i(1) by (cases i) auto
    let ?cs = "take r (tl (cells w)) @ drop r (cells w)"
    have s: "cells s = ?cs" "s = w\<lparr>cells := ?cs\<rparr>" using i(3) r by (simp_all add: P_def)
    have "set ?cs \<subseteq> set (cells w)"
      using set_take_subset [of r "tl (cells w)"] set_drop_subset [of r "cells w"] list.set_sel(2) [of "cells w"] by (cases "cells w") auto
    then have "wf_screen (cells s)" using wf l i(2) r by (auto simp: wf_screen_def s(1))
    moreover have "?cs[r := ?cs ! Suc r] = take (Suc r) (tl (cells w)) @ drop (Suc r) (cells w)"
      using update_boundary [of r "cells w" "take r (tl (cells w))" "cells w ! Suc r"] i(2) r l
      by (simp add: nth_append take_Suc_conv_app_nth nth_tl)
    ultimately show ?thesis using scroll_row [of s r] i(2) r s by (simp add: P_def)
  qed
  then obtain s' where "for_range 1 HEIGHT ?f w = Inr s'" "P HEIGHT s'"
    using for_range_inv [of 1 HEIGHT P ?f 1 w] by (auto simp: P_def HEIGHT_def)
  moreover have "take (HEIGHT - 1) (tl (cells w)) @ drop (HEIGHT - 1) (cells w) = tl (cells w) @ [cells w ! (HEIGHT - 1)]"
    using l by (simp add: HEIGHT_def Cons_nth_drop_Suc [symmetric])
  ultimately show ?thesis using wf_screenD(2) [OF wf, of "HEIGHT - 1"] by (auto simp: scroll_def P_def HEIGHT_def)
qed

section \<open>The text on the screen\<close>

text \<open>
  The specification: a text is a list of lines, broken at line feeds and after 80 bytes, and the screen
  shows its last 25 lines.
\<close>

definition lay :: "u8 list list \<Rightarrow> u8 \<Rightarrow> u8 list list" where
  "lay ls b = (if b = 0x0A then ls @ [[]] else if length (last ls) = WIDTH then ls @ [[b]] else butlast ls @ [last ls @ [b]])"

definition text_lines :: "u8 list \<Rightarrow> u8 list list" where
  "text_lines s = foldl lay [[]] (map shown s)"

definition row_of :: "u8 \<Rightarrow> u8 list \<Rightarrow> ScreenCell list" where
  "row_of color l = map (\<lambda>b. \<lparr>ascii = b, cell_color = color\<rparr>) l @ replicate (WIDTH - length l) \<lparr>ascii = 0x20, cell_color = color\<rparr>"

definition screen_of :: "u8 \<Rightarrow> u8 list list \<Rightarrow> ScreenCell list list" where
  "screen_of color ls = map (row_of color) (drop (length ls - HEIGHT) ls) @ replicate (HEIGHT - length ls) (row_of color [])"

definition shows_text :: "u8 \<Rightarrow> u8 list list \<Rightarrow> Writer \<Rightarrow> bool" where
  "shows_text color ls w \<longleftrightarrow> wcolor w = color \<and> ls \<noteq> [] \<and> (\<forall>l \<in> set ls. length l \<le> WIDTH) \<and> cells w = screen_of color ls
     \<and> row_position w = min (length ls) HEIGHT - 1 \<and> column_position w = length (last ls)"

lemma length_row_of [simp]: "length l \<le> WIDTH \<Longrightarrow> length (row_of color l) = WIDTH"
  by (simp add: row_of_def)

lemma wf_screen_of: "\<forall>l \<in> set ls. length l \<le> WIDTH \<Longrightarrow> wf_screen (screen_of color ls)"
  by (auto simp: wf_screen_def screen_of_def dest: in_set_dropD)

lemma update_cursor_sel [simp]:
  "wcolor (update_cursor w) = wcolor w" "cells (update_cursor w) = cells w" "row_position (update_cursor w) = row_position w"
  "column_position (update_cursor w) = column_position w"
  by (simp_all add: update_cursor_def Let_def)

lemma shows_text_cursor [simp]: "shows_text color ls (update_cursor w) = shows_text color ls w"
  by (simp add: shows_text_def)

lemma new_line_shows:
  assumes R: "shows_text color ls w"
  shows "\<exists>w'. new_line w = Inr (update_cursor w') \<and> shows_text color (ls @ [[]]) w'"
proof (cases "length ls < HEIGHT")
  case True
  have n: "ls \<noteq> []" "0 < length ls" using R by (auto simp: shows_text_def)
  have "replicate (HEIGHT - length ls) (row_of color []) = row_of color [] # replicate (HEIGHT - length (ls @ [[]])) (row_of color [])"
    using True by (simp add: Suc_diff_Suc [symmetric])
  then have "screen_of color (ls @ [[]]) = screen_of color ls" using True by (simp add: screen_of_def)
  then have "shows_text color (ls @ [[]]) (w\<lparr>row_position := row_position w + 1, column_position := 0\<rparr>)"
    using R True n by (auto simp: shows_text_def)
  moreover have "row_position w = length ls - 1" using R True by (simp add: shows_text_def)
  then have "row_position w \<noteq> HEIGHT - 1" using True n(2) by linarith
  ultimately show ?thesis by (auto simp: new_line_def)
next
  case False
  have wf: "wf_screen (cells w)" and c: "cells w = screen_of color ls" "wcolor w = color" using R wf_screen_of by (auto simp: shows_text_def)
  obtain row where s: "scroll w = Inr (w\<lparr>cells := tl (cells w) @ [row]\<rparr>)" "length row = WIDTH" using scroll_eq [OF wf] by blast
  let ?w1 = "w\<lparr>cells := tl (cells w) @ [row]\<rparr>"
  have wf1: "wf_screen (cells ?w1)" using wf s(2) by (cases "cells w") (auto simp: wf_screen_def HEIGHT_def)
  have u: "(tl (cells w) @ [row])[HEIGHT - 1 := x] = tl (cells w) @ [x]" for x
    using wf_screenD(1) [OF wf] by (simp add: list_update_append)
  have "row_of color [] = replicate WIDTH \<lparr>ascii = 0x20, cell_color = color\<rparr>" by (simp add: row_of_def)
  then have cl: "rbind (scroll w) (clear_row (HEIGHT - 1)) = Inr (w\<lparr>cells := tl (cells w) @ [row_of color []]\<rparr>)"
    using s(1) clear_row_eq [OF wf1, of "HEIGHT - 1"] u c(2) by (simp add: HEIGHT_def)
  have "tl (cells w) @ [row_of color []] = screen_of color (ls @ [[]])"
    using False by (simp add: c(1) screen_of_def tl_drop drop_Suc [symmetric] map_tl [symmetric] Suc_diff_le [symmetric])
      (simp add: HEIGHT_def)
  moreover have "row_position w = HEIGHT - 1" using R False by (auto simp: shows_text_def min_def)
  ultimately have "shows_text color (ls @ [[]]) (w\<lparr>cells := tl (cells w) @ [row_of color []], column_position := 0\<rparr>)"
    using R False by (auto simp: shows_text_def min_def)
  then show ?thesis using cl \<open>row_position w = HEIGHT - 1\<close> by (auto simp: new_line_def)
qed

lemma put_shows:
  assumes R: "shows_text color ls w" and l: "length (last ls) < WIDTH"
  shows "\<exists>w'. write_cell (row_position w) (column_position w) \<lparr>ascii = b, cell_color = wcolor w\<rparr> w = Inr w'
    \<and> shows_text color (butlast ls @ [last ls @ [b]]) (w'\<lparr>column_position := column_position w' + 1\<rparr>)"
proof -
  obtain init l where ls: "ls = init @ [l]" using R by (auto simp: shows_text_def intro: that [of "butlast ls" "last ls"])
  define vis where "vis = map (row_of color) (drop (Suc (length init) - HEIGHT) init)"
  let ?rest = "replicate (HEIGHT - Suc (length init)) (row_of color [])"
  have lw: "length l < WIDTH" using l ls by simp
  have sc: "screen_of color (init @ [x]) = vis @ row_of color x # ?rest" for x
    by (cases "Suc (length init) - HEIGHT") (auto simp: screen_of_def HEIGHT_def vis_def)
  have row: "row_position w = length vis" using R ls by (auto simp: shows_text_def min_def HEIGHT_def vis_def)
  have "(row_of color l)[length l := \<lparr>ascii = b, cell_color = color\<rparr>] = row_of color (l @ [b])"
    using lw by (simp add: row_of_def list_update_append Suc_diff_Suc [symmetric])
  then have c: "(cells w)[row_position w := (cells w ! row_position w)[length l := \<lparr>ascii = b, cell_color = color\<rparr>]] = screen_of color (init @ [l @ [b]])"
    using R unfolding row by (simp add: shows_text_def ls sc)
  have "length (cells w ! row_position w) = WIDTH" "row_position w < length (cells w)"
    using R lw unfolding row by (simp_all add: shows_text_def ls sc)
  then show ?thesis
    using R c lw by (auto simp: write_cell_def shows_text_def ls)
qed

lemma write_byte_shows:
  assumes R: "shows_text color ls w"
  shows "\<exists>w'. write_byte b w = Inr (update_cursor w') \<and> shows_text color (lay ls b) w'"
proof (cases "b = 0x0A")
  case True
  then show ?thesis using new_line_shows [OF R] by (simp add: write_byte_def lay_def)
next
  case False
  have c: "column_position w = length (last ls)" "length (last ls) \<le> WIDTH" using R by (auto simp: shows_text_def)
  show ?thesis
  proof (cases "length (last ls) = WIDTH")
    case True
    obtain w1 where w1: "new_line w = Inr (update_cursor w1)" "shows_text color (ls @ [[]]) w1" using new_line_shows [OF R] by blast
    then show ?thesis using put_shows [of color "ls @ [[]]" "update_cursor w1" b] True False c by (auto simp: write_byte_def lay_def WIDTH_def)
  next
    case neq: False
    then show ?thesis using put_shows [OF R, of b] False c by (auto simp: write_byte_def lay_def)
  qed
qed

lemma write_string_shows:
  "shows_text color ls w \<Longrightarrow> \<exists>w'. write_string s w = Inr w' \<and> shows_text color (foldl lay ls (map shown s)) w'"
proof (induction s arbitrary: ls w)
  case (Cons b s)
  obtain w1 where "write_byte (shown b) w = Inr (update_cursor w1)" "shows_text color (lay ls (shown b)) w1"
    using write_byte_shows [OF Cons.prems] by blast
  then show ?case using Cons.IH [of "lay ls (shown b)" "update_cursor w1"] by simp
qed simp

lemma clear_screen_eq:
  assumes wf: "wf_screen (cells w)"
  shows "clear_screen w = Inr (w\<lparr>cells := replicate HEIGHT (row_of (wcolor w) [])\<rparr>)"
proof -
  let ?r = "replicate WIDTH \<lparr>ascii = 0x20, cell_color = wcolor w\<rparr>"
  define P where "P i s \<longleftrightarrow> s = w\<lparr>cells := replicate i ?r @ drop i (cells w)\<rparr>" for i s
  have l: "length (cells w) = HEIGHT" using wf_screenD [OF wf] by simp
  have "\<exists>s'. clear_row i s = Inr s' \<and> P (Suc i) s'" if i: "i < HEIGHT" "P i s" for i s
  proof -
    have "wf_screen (cells s)" using i wf set_drop_subset [of i "cells w"] by (auto simp: P_def wf_screen_def)
    then show ?thesis
      using clear_row_eq [of s i] i update_boundary [of i "cells w" "replicate i ?r" ?r] l by (simp add: P_def replicate_append_same)
  qed
  then obtain s' where "for_range 0 HEIGHT clear_row w = Inr s'" "P HEIGHT s'"
    using for_range_inv [of 0 HEIGHT P clear_row 0 w] by (auto simp: P_def)
  then show ?thesis using l by (simp add: clear_screen_def P_def row_of_def)
qed

section \<open>Positions\<close>

definition wf_writer :: "Writer \<Rightarrow> bool" where
  "wf_writer w \<longleftrightarrow> wf_screen (cells w) \<and> row_position w < HEIGHT \<and> column_position w \<le> WIDTH"

lemma new_line_wf:
  assumes "wf_writer w"
  shows "\<exists>w'. new_line w = Inr w' \<and> wf_writer w' \<and> column_position w' = 0"
proof (cases "row_position w = HEIGHT - 1")
  case True
  have wf: "wf_screen (cells w)" using assms by (simp add: wf_writer_def)
  obtain row where s: "scroll w = Inr (w\<lparr>cells := tl (cells w) @ [row]\<rparr>)" "length row = WIDTH" using scroll_eq [OF wf] by blast
  let ?w1 = "w\<lparr>cells := tl (cells w) @ [row]\<rparr>"
  have wf1: "wf_screen (cells ?w1)" using wf s(2) by (cases "cells w") (auto simp: wf_screen_def HEIGHT_def)
  show ?thesis using True s(1) clear_row_eq [OF wf1, of "HEIGHT - 1"] wf_screen_update [OF wf1] by (simp add: new_line_def wf_writer_def HEIGHT_def)
next
  case False
  then show ?thesis using assms by (auto simp: new_line_def wf_writer_def)
qed

lemma write_byte_wf:
  assumes "wf_writer w"
  shows "\<exists>w'. write_byte b w = Inr w' \<and> wf_writer w'"
proof (cases "b = 0x0A")
  case True
  then show ?thesis using new_line_wf [OF assms] by (auto simp: write_byte_def)
next
  case False
  obtain w1 where w1: "(if column_position w \<ge> WIDTH then new_line w else Ok w) = Inr w1" "wf_writer w1" "column_position w1 < WIDTH"
    using new_line_wf [OF assms] assms by (cases "column_position w \<ge> WIDTH") (auto simp: WIDTH_def)
  have "row_position w1 < length (cells w1)" "column_position w1 < length (cells w1 ! row_position w1)"
    using w1(2,3) wf_screenD [of "cells w1"] by (auto simp: wf_writer_def)
  then show ?thesis
    using w1 False wf_screen_update [of "cells w1"] wf_screenD(2) [of "cells w1" "row_position w1"]
    by (auto simp: write_byte_def write_cell_def wf_writer_def)
qed

lemma write_string_wf: "wf_writer w \<Longrightarrow> \<exists>w'. write_string s w = Inr w' \<and> wf_writer w'"
proof (induction s arbitrary: w)
  case (Cons b s)
  obtain w1 where "write_byte (shown b) w = Inr w1" "wf_writer w1" using write_byte_wf [OF Cons.prems] by blast
  then show ?case using Cons.IH by simp
qed simp

section \<open>The serial line\<close>

definition line_ready :: "nat \<Rightarrow> uart \<Rightarrow> bool" where
  "line_ready n u \<longleftrightarrow> is_uart u \<and> n \<le> length (lsr u) \<and> (\<forall>v \<in> set (lsr u). v AND 0x20 \<noteq> 0)"

lemma puts_ready:
  "line_ready (length s + n) u \<Longrightarrow> \<exists>u'. puts s u = Inr u' \<and> line_ready n u' \<and> sent u' = sent u @ map (OutB COM1) s"
proof -
  have "line_ready (length s + n) u \<Longrightarrow> \<exists>u'. puts_loop s u = Inr u' \<and> line_ready n u' \<and> sent u' = sent u @ map (OutB COM1) s"
  proof (induction s arbitrary: u)
    case (Cons c s)
    obtain v vs where v: "lsr u = v # vs" using Cons.prems by (cases "lsr u") (auto simp: line_ready_def)
    let ?u = "u\<lparr>lsr := vs, sent := sent u @ [OutB COM1 c]\<rparr>"
    have "putc c u = Inr ?u" "line_ready (length s + n) ?u" using Cons.prems v by (auto simp: putc_def line_ready_def outb_def)
    then show ?case using Cons.IH [of ?u] by auto
  qed simp
  then show "line_ready (length s + n) u \<Longrightarrow> ?thesis" by (simp add: puts_def line_ready_def)
qed

lemma write_fmt_shows:
  "line_ready (length (concat ps) + n) u \<Longrightarrow> shows_text color ls w \<Longrightarrow>
    \<exists>u' w'. write_fmt ps (u, w) = Inr (u', w') \<and> shows_text color (foldl lay ls (map shown (concat ps))) w' \<and> sent u' = sent u @ map (OutB COM1) (concat ps)"
proof (induction ps arbitrary: u w ls)
  case (Cons p ps)
  obtain u1 where u1: "puts p u = Inr u1" "line_ready (length (concat ps) + n) u1" "sent u1 = sent u @ map (OutB COM1) p"
    using puts_ready [of p "length (concat ps) + n" u] Cons.prems(1) by (auto simp: add.assoc)
  obtain w1 where w1: "write_string p w = Inr w1" "shows_text color (foldl lay ls (map shown p)) w1" using write_string_shows [OF Cons.prems(2)] by blast
  show ?case using Cons.IH [OF u1(2) w1(2)] u1 w1 by (auto simp: write_str_def)
qed simp

text \<open>A serial line that is absent, or ready for \<open>n\<close> bytes, and what it has sent of a text.\<close>

definition line_works :: "nat \<Rightarrow> uart \<Rightarrow> bool" where
  "line_works n u \<longleftrightarrow> \<not> is_uart u \<or> line_ready n u"

definition bytes_out :: "uart \<Rightarrow> u8 list \<Rightarrow> io list" where
  "bytes_out u s = (if is_uart u then map (OutB COM1) s else [])"

lemma puts_works:
  assumes "line_works (length s + n) u"
  shows "\<exists>u'. puts s u = Inr u' \<and> line_works n u' \<and> is_uart u' = is_uart u \<and> sent u' = sent u @ bytes_out u s"
proof (cases "is_uart u")
  case True
  then obtain u' where "puts s u = Inr u'" "line_ready n u'" "sent u' = sent u @ map (OutB COM1) s"
    using puts_ready [of s n u] assms by (auto simp: line_works_def)
  then show ?thesis using True by (auto simp: line_works_def bytes_out_def line_ready_def)
qed (simp add: puts_def line_works_def bytes_out_def)

lemma write_fmt_wf:
  "line_works (length (concat ps) + n) u \<Longrightarrow> wf_writer w \<Longrightarrow>
    \<exists>u' w'. write_fmt ps (u, w) = Inr (u', w') \<and> wf_writer w' \<and> line_works n u' \<and> is_uart u' = is_uart u \<and> sent u' = sent u @ bytes_out u (concat ps)"
proof (induction ps arbitrary: u w)
  case Nil
  then show ?case by (simp add: bytes_out_def)
next
  case (Cons p ps)
  obtain u1 where u1: "puts p u = Inr u1" "line_works (length (concat ps) + n) u1" "is_uart u1 = is_uart u" "sent u1 = sent u @ bytes_out u p"
    using puts_works [of p "length (concat ps) + n" u] Cons.prems(1) by (auto simp: add.assoc)
  obtain w1 where "write_string p w = Inr w1" "wf_writer w1" using write_string_wf [OF Cons.prems(2)] by blast
  then show ?case using Cons.IH [OF u1(2)] u1 by (auto simp: write_str_def bytes_out_def)
qed

lemma colored_wf:
  assumes "line_works (length (concat ps)) u" "wf_writer w"
  shows "\<exists>u' w'. write_fmt ps (u, change_color color w) = Inr (u', w') \<and> wf_writer (change_color WHITE w') \<and> sent u' = sent u @ bytes_out u (concat ps)"
proof -
  have "wf_writer (change_color color w)" "line_works (length (concat ps) + 0) u" using assms by (simp_all add: wf_writer_def change_color_def)
  then show ?thesis using write_fmt_wf by (fastforce simp: wf_writer_def change_color_def)
qed

section \<open>Properties\<close>

text \<open>C14. Printing implements a text terminal. After \<^verbatim>\<open>clear_screen\<close> on a fresh screen, printing any pieces of text shows the
  last 25 lines of the whole text, broken at line feeds and after 80 bytes, with the cursor after the last
  byte, and sends exactly its bytes over the serial line once the line reports itself ready. \<^verbatim>\<open>_print\<close> does this inside the scope of a
  guard of the lock of the writer.\<close>

theorem print_shows_text:
  assumes "wf_screen (cells w)" "row_position w = 0" "column_position w = 0" "line_ready (length (concat ps)) u"
  shows "\<exists>w1 u' w'. clear_screen w = Inr w1 \<and> write_fmt ps (u, w1) = Inr (u', w')
    \<and> cells w' = screen_of (wcolor w) (text_lines (concat ps))
    \<and> row_position w' = min (length (text_lines (concat ps))) HEIGHT - 1 \<and> column_position w' = length (last (text_lines (concat ps)))
    \<and> sent u' = sent u @ map (OutB COM1) (concat ps)
    \<and> vga_print me lk ps ((u, w1), s) = with_lock me lk (\<lambda>s1. Ok ((u', w'), s1)) s"
proof -
  let ?w1 = "w\<lparr>cells := replicate HEIGHT (row_of (wcolor w) [])\<rparr>"
  have "screen_of (wcolor w) [[]] = replicate HEIGHT (row_of (wcolor w) [])"
    by (simp add: screen_of_def HEIGHT_def replicate_Suc [symmetric] numeral_eq_Suc)
  then have "shows_text (wcolor w) [[]] ?w1" using assms(2,3) by (simp add: shows_text_def HEIGHT_def)
  moreover have "line_ready (length (concat ps) + 0) u" using assms(4) by simp
  ultimately obtain u' w' where "write_fmt ps (u, ?w1) = Inr (u', w')" "shows_text (wcolor w) (foldl lay [[]] (map shown (concat ps))) w'"
      "sent u' = sent u @ map (OutB COM1) (concat ps)"
    using write_fmt_shows by blast
  then show ?thesis using clear_screen_eq [OF assms(1)] by (auto simp: shows_text_def text_lines_def vga_print_def)
qed

definition demo_writer :: Writer where
  "demo_writer = \<lparr>column_position = 0, row_position = 0, wcolor = WHITE,
     cells = replicate HEIGHT (replicate WIDTH \<lparr>ascii = 0x41, cell_color = 0\<rparr>), crt = []\<rparr>"

theorem print_shows_text_witness:
  "\<exists>w1 u' w'. clear_screen demo_writer = Inr w1 \<and> write_fmt [[0x78, 0x0A], [0x79]] (\<lparr>is_uart = True, lsr = [0x20, 0x20, 0x20], sent = []\<rparr>, w1) = Inr (u', w')
     \<and> row_position w' = 1 \<and> column_position w' = 1 \<and> sent u' = [OutB COM1 0x78, OutB COM1 0x0A, OutB COM1 0x79]"
  using print_shows_text [of demo_writer "[[0x78, 0x0A], [0x79]]" "\<lparr>is_uart = True, lsr = [0x20, 0x20, 0x20], sent = []\<rparr>" 1 "0x80B00000" demo_pst]
  by (auto simp: demo_writer_def wf_screen_def line_ready_def text_lines_def lay_def shown_def HEIGHT_def WIDTH_def)

text \<open>C35. What printing in a colour does. When the serial line is absent or ready, from any screen of 25 rows of 80 cells with the row below 25
  and the column at most 80, printing any text returns without a bounds error as long as the lock of the writer is free or the local APIC
  is not yet set up, so that locks do nothing: the screen and the position are again within these bounds, the colour is white again, the
  bytes of the text have been sent over the line, if there is one, and the lock is free again. On a processor that holds the lock of the writer
  already, printing panics.\<close>

theorem print_keeps_writer:
  assumes "wf_writer w" "line_works (length (concat ps)) u"
  shows "(lapic s = None \<or> depth s me i n \<and> n < 97 \<and> \<not> locked (spin s lk) \<longrightarrow>
      (\<exists>u' w' s'. print_with_color me lk color ps ((u, w), s) = Inr ((u', w'), s') \<and> wf_writer w' \<and> wcolor w' = WHITE
        \<and> sent u' = sent u @ bytes_out u (concat ps) \<and> kst.more s' = kst.more s
        \<and> (if lapic s = None then s' = s else depth s' me i n \<and> \<not> locked (spin s' lk))))
    \<and> (depth s me i n \<and> held_by s lk i \<longrightarrow> print_with_color me lk color ps ((u, w), s) = Inl (Panic (''acquire: '' @ lname (spin s lk))))"
proof (intro conjI impI)
  obtain u' w' where b: "write_fmt ps (u, change_color color w) = Inr (u', w')" "wf_writer (change_color WHITE w')" "sent u' = sent u @ bytes_out u (concat ps)"
    using colored_wf [OF assms(2,1)] by blast
  let ?r = "(u', change_color WHITE w')"
  assume h: "lapic s = None \<or> depth s me i n \<and> n < 97 \<and> \<not> locked (spin s lk)"
  show "\<exists>u' w' s'. print_with_color me lk color ps ((u, w), s) = Inr ((u', w'), s') \<and> wf_writer w' \<and> wcolor w' = WHITE
        \<and> sent u' = sent u @ bytes_out u (concat ps) \<and> kst.more s' = kst.more s
        \<and> (if lapic s = None then s' = s else depth s' me i n \<and> \<not> locked (spin s' lk))"
  proof (cases "lapic s")
    case None
    then have "print_with_color me lk color ps ((u, w), s) = Inr (?r, s)"
      using b(1) by (simp add: print_with_color_def with_lock_def acquire_def release_def lapic_id_def)
    then show ?thesis using None b(2,3) by (auto simp: change_color_def)
  next
    case (Some l)
    then have d: "depth s me i n" "n < 99" "\<not> locked (spin s lk)" using h by auto
    note A = acquire_depth [OF d]
    have hb: "held_by (acquired me lk i s) lk i" using A(4) by (simp add: held_by_def)
    note R = release_depth [OF A(2) hb]
    have "print_with_color me lk color ps ((u, w), s) = Inr (?r, let_go me lk i (acquired me lk i s))"
      using A(1) R(1) b(1) by (simp add: print_with_color_def with_lock_def)
    then show ?thesis using Some b(2,3) R(2,4,5) A(5) by (auto simp: change_color_def)
  qed
next
  assume "depth s me i n \<and> held_by s lk i"
  then show "print_with_color me lk color ps ((u, w), s) = Inl (Panic (''acquire: '' @ lname (spin s lk)))"
    using acquire_held [of s me i n lk] by (simp add: print_with_color_def with_lock_def)
qed

theorem print_keeps_writer_witness:
  "\<exists>u' w' s'. print_with_color 1 0x80B00000 CYAN [[0x78]] ((\<lparr>is_uart = True, lsr = [0x20], sent = []\<rparr>, demo_writer\<lparr>row_position := 24, column_position := 80\<rparr>), demo_pst)
     = Inr ((u', w'), s') \<and> wcolor w' = WHITE \<and> sent u' = [OutB COM1 0x78] \<and> \<not> locked (spin s' 0x80B00000)"
proof -
  let ?w = "demo_writer\<lparr>row_position := 24, column_position := 80\<rparr>" and ?u = "\<lparr>is_uart = True, lsr = [0x20], sent = []\<rparr>"
  have "wf_writer ?w" "line_works (length (concat [[0x78 :: u8]])) ?u"
    by (auto simp: wf_writer_def wf_screen_def demo_writer_def HEIGHT_def WIDTH_def line_works_def line_ready_def)
  from print_keeps_writer [OF this, of demo_pst 1 1 0 "0x80B00000" CYAN] show ?thesis
    using demo_pst_ok(1,2) by (auto simp: bytes_out_def demo_pst_ok(2) depth_def cpu_at_def)
qed

end
