(* ===== verification/Ide.thy ===== *)
theory Ide
  imports Scheduling Apic
begin

text \<open>
  The disk driver \<^verbatim>\<open>kernel/src/fs/ide.rs\<close> with the flags and buffers of \<^verbatim>\<open>kernel/src/fs/bcache.rs\<close> it works
  on. The device is seen through its ports: what the driver writes is recorded in order, and the
  values that successive reads of the status port return are an input. Waiting for a device that
  never becomes ready is the fault \<open>Spin\<close>.
\<close>

section \<open>Flags and buffers\<close>

definition B_VALID :: u8 where "B_VALID = 0x2"
definition B_DIRTY :: u8 where "B_DIRTY = 0x4"

definition set_dirty :: "bool \<Rightarrow> u8 \<Rightarrow> u8" where
  "set_dirty d f = (if d then f OR B_DIRTY else f AND NOT B_DIRTY)"

definition is_dirty :: "u8 \<Rightarrow> bool" where
  "is_dirty f \<longleftrightarrow> f AND B_DIRTY \<noteq> 0"

definition set_valid :: "bool \<Rightarrow> u8 \<Rightarrow> u8" where
  "set_valid v f = (if v then f OR B_VALID else f AND NOT B_VALID)"

definition is_buf_valid :: "u8 \<Rightarrow> bool" where
  "is_buf_valid f \<longleftrightarrow> f AND B_VALID \<noteq> 0"

text \<open>A buffer is identified by its address; its data are moved by the device, and only their address \<open>bdata\<close> matters here.\<close>

record Buf =
  bdev :: u32
  block_no :: u32
  bflags :: u8
  bdata :: usize

definition Buf_zero :: "usize \<Rightarrow> Buf" where
  "Buf_zero a = \<lparr>bdev = 0, block_no = 0, bflags = 0, bdata = a\<rparr>"

section \<open>The device\<close>

definition IDE_BSY :: u8 where "IDE_BSY = 0x80"
definition IDE_DRDY :: u8 where "IDE_DRDY = 0x40"
definition IDE_DF :: u8 where "IDE_DF = 0x20"
definition IDE_ERR :: u8 where "IDE_ERR = 0x01"
definition IDE_CMD_READ :: u8 where "IDE_CMD_READ = 0x20"
definition IDE_CMD_WRITE :: u8 where "IDE_CMD_WRITE = 0x30"
definition IDE_CMD_RDMUL :: u8 where "IDE_CMD_RDMUL = 0xC4"
definition IDE_CMD_WRMUL :: u8 where "IDE_CMD_WRMUL = 0xC5"
definition SECTOR_SIZE :: nat where "SECTOR_SIZE = 512"
definition IDE_BLK_SIZE :: nat where "IDE_BLK_SIZE = 512"

text \<open>\<^verbatim>\<open>wait\<close> reads the status until the disk is ready.\<close>

fun ide_wait :: "bool \<Rightarrow> u8 list \<Rightarrow> (unit option \<times> u8 list) res" where
  "ide_wait check_err [] = Fail Spin"
| "ide_wait check_err (r # rs) =
     (if r AND (IDE_BSY OR IDE_DRDY) = IDE_DRDY
      then Ok (if check_err \<and> r AND (IDE_DF OR IDE_ERR) > 0 then None else Some (), rs)
      else ide_wait check_err rs)"

datatype Command = CmdRead | CmdWrite

record Request =
  cmd :: Command
  rdev :: u32
  rblock :: u32
  rdata :: usize
  rbuf :: usize

text \<open>
  The driver: the queue, the buffers by address (a request points into its buffer: the flags, the data
  and the wait channel are all given by the buffer's address), the status values still to come and
  the port accesses so far.
\<close>

record ide =
  que :: "Request list"
  running :: bool
  have_disk1 :: bool
  bufs :: "usize \<rightharpoonup> Buf"
  status :: "u8 list"
  trace :: "io list"

definition IdeQueue_new :: "ide \<Rightarrow> ide" where
  "IdeQueue_new d = d\<lparr>que := [], running := False\<rparr>"

definition start_trace :: "Request \<Rightarrow> io list" where
  "start_trace req =
     (let spb = IDE_BLK_SIZE div SECTOR_SIZE; sector = rblock req * of_nat spb;
          read_cmd = (if spb = 1 then IDE_CMD_READ else IDE_CMD_RDMUL);
          write_cmd = (if spb = 1 then IDE_CMD_WRITE else IDE_CMD_WRMUL) in
      [OutB 0x3F6 0, OutB 0x1F2 (of_nat spb), OutB 0x1F3 (ucast (sector AND 0xFF)),
       OutB 0x1F4 (ucast (drop_bit 8 sector AND 0xFF)), OutB 0x1F5 (ucast (drop_bit 16 sector AND 0xFF)),
       OutB 0x1F6 (0xE0 OR ucast (push_bit 4 (rdev req AND 1)) OR ucast (drop_bit 24 sector AND 0x0F))]
      @ (case cmd req of
           CmdRead \<Rightarrow> [OutB 0x1F0 read_cmd]
         | CmdWrite \<Rightarrow> outsl 0x1F0 (rdata req) (IDE_BLK_SIZE div 4) [OutB 0x1F7 write_cmd]))"

definition ide_start :: "ide \<Rightarrow> ide res" where
  "ide_start d =
     (case que d of [] \<Rightarrow> Fail (Panic ''called Option::unwrap() on a None value'')
      | req # _ \<Rightarrow>
          rbind (rassert (IDE_BLK_SIZE div SECTOR_SIZE \<le> 7) ''IdeQueue::start'') (\<lambda>_.
          rbind (ide_wait False (status d)) (\<lambda>(_, rs).
            Ok (d\<lparr>status := rs, trace := trace d @ start_trace req, running := True\<rparr>))))"

definition ide_append :: "Request \<Rightarrow> ide \<Rightarrow> ide res" where
  "ide_append req d = (let d1 = d\<lparr>que := que d @ [req]\<rparr> in if length (que d1) = 1 then ide_start d1 else Ok d1)"

text \<open>The flags of a buffer are changed in place.\<close>

definition update_flags :: "usize \<Rightarrow> (u8 \<Rightarrow> u8) \<Rightarrow> ide \<Rightarrow> ide res" where
  "update_flags b f d = (case bufs d b of None \<Rightarrow> Fail (Undefined ''use after free'')
     | Some x \<Rightarrow> Ok (d\<lparr>bufs := (bufs d)(b \<mapsto> x\<lparr>bflags := f (bflags x)\<rparr>)\<rparr>))"

text \<open>\<^verbatim>\<open>notify_ready\<close> up to its call of \<^verbatim>\<open>wakeup\<close>, whose channel is the buffer, and from there.\<close>

definition complete :: "ide \<Rightarrow> (usize \<times> ide) res" where
  "complete d =
     (case que d of [] \<Rightarrow> Fail (Panic ''called Option::unwrap() on a None value'')
      | req # rest \<Rightarrow>
          rbind (if cmd req = CmdRead
                 then rbind (ide_wait True (status d)) (\<lambda>(r, rs).
                        Ok (d\<lparr>status := rs, trace := (if r = None then trace d else insl 0x1F0 (rdata req) (IDE_BLK_SIZE div 4) (trace d))\<rparr>))
                 else Ok d) (\<lambda>d1.
          rbind (update_flags (rbuf req) (\<lambda>f. set_valid True (set_dirty False f)) (d1\<lparr>running := False, que := rest\<rparr>)) (\<lambda>d2.
            Ok (rbuf req, d2))))"

definition start_next :: "ide \<Rightarrow> ide res" where
  "start_next d = (if que d \<noteq> [] then ide_start d else Ok d)"

definition notify_ready :: "u8 \<Rightarrow> ide \<times> 'h pst \<Rightarrow> (ide \<times> 'h pst) res" where
  "notify_ready me = (\<lambda>(d, s). rbind (complete d) (\<lambda>(chan, d1).
     rbind (wakeup me chan s) (\<lambda>(_, s1). rbind (start_next d1) (\<lambda>d2. Ok (d2, s1)))))"

text \<open>The interrupt handler; \<open>lk\<close> is the lock of the queue.\<close>

definition ide_intr :: "u8 \<Rightarrow> usize \<Rightarrow> ide \<times> 'h pst \<Rightarrow> (ide \<times> 'h pst) res" where
  "ide_intr me lk = (\<lambda>(d, s). rbind (acquire me lk s) (\<lambda>s1.
     rbind (if que d \<noteq> [] then notify_ready me (d, s1) else Ok (d, s1)) (\<lambda>(d2, s2).
     rbind (release me lk s2) (\<lambda>s3. Ok (d2, s3)))))"

section \<open>Requests\<close>

text \<open>
  \<^verbatim>\<open>read_from_disk\<close> and \<^verbatim>\<open>write_to_disk\<close> up to the call of \<^verbatim>\<open>sleep\<close> with which they start to wait: the
  interrupt that changes the flags can only come later. Both enqueue the command \<^verbatim>\<open>Read\<close>.
\<close>

definition request_for :: "usize \<Rightarrow> Buf \<Rightarrow> Request" where
  "request_for b x = \<lparr>cmd = CmdRead, rdev = bdev x, rblock = block_no x, rdata = bdata x, rbuf = b\<rparr>"

definition disk_present :: "Buf \<Rightarrow> ide \<Rightarrow> unit res" where
  "disk_present x d = (if bdev x \<noteq> 0 then rassert (have_disk1 d) ''read_from_disk: ide disk 1 not present'' else Ok ())"

definition read_from_disk :: "u8 \<Rightarrow> usize \<Rightarrow> usize \<Rightarrow> Buf \<Rightarrow> ide \<times> 'h pst \<Rightarrow> (ide \<times> (bool \<times> procref \<times> usize) \<times> 'h pst) res" where
  "read_from_disk me lk b x = (\<lambda>(d, s).
     rbind (rassert (\<not> is_buf_valid (bflags x)) ''read_from_disk: nothing to do'') (\<lambda>_.
     rbind (disk_present x d) (\<lambda>_.
     rbind (acquire me lk s) (\<lambda>s1.
     rbind (ide_append (request_for b x) d) (\<lambda>d1.
     rbind (sleep_enter me b lk s1) (\<lambda>(w, s2). Ok (d1, w, s2)))))))"

definition write_to_disk :: "u8 \<Rightarrow> usize \<Rightarrow> usize \<Rightarrow> Buf \<Rightarrow> ide \<times> 'h pst \<Rightarrow> (ide \<times> (bool \<times> procref \<times> usize) \<times> 'h pst) res" where
  "write_to_disk me lk b x = (\<lambda>(d, s).
     rbind (rassert (is_dirty (bflags x)) ''read_from_disk: nothing to do'') (\<lambda>_.
     rbind (disk_present x d) (\<lambda>_.
     rbind (acquire me lk s) (\<lambda>s1.
     rbind (ide_append (request_for b x) d) (\<lambda>d1.
     rbind (sleep_enter me b lk s1) (\<lambda>(w, s2). Ok (d1, w, s2)))))))"

text \<open>\<^verbatim>\<open>init\<close> routes the interrupt to the last processor and looks for the second disk in at most 1000 reads.\<close>

fun probe_disk1 :: "nat \<Rightarrow> ide \<Rightarrow> ide res" where
  "probe_disk1 0 d = Ok d"
| "probe_disk1 (Suc n) d = (case status d of [] \<Rightarrow> Fail Spin
     | r # rs \<Rightarrow> if r \<noteq> 0 then Ok (d\<lparr>status := rs, have_disk1 := True\<rparr>) else probe_disk1 n (d\<lparr>status := rs\<rparr>))"

definition ide_init :: "'b kst_scheme \<Rightarrow> ide \<times> ioapic \<Rightarrow> (ide \<times> ioapic) res" where
  "ide_init s = (\<lambda>(d, io).
     rbind (checked_sub (of_nat (length (cpus s))) 1) (\<lambda>last_cpu.
     rbind (enable IRQ_IDE last_cpu io) (\<lambda>io1.
     rbind (ide_wait False (status d)) (\<lambda>(_, rs).
     rbind (probe_disk1 1000 (d\<lparr>status := rs, trace := outb 0x1F6 (0xE0 OR push_bit 4 1) (trace d)\<rparr>)) (\<lambda>d1.
       Ok (d1\<lparr>trace := outb 0x1F6 (0xE0 OR push_bit 4 0) (trace d1)\<rparr>, io1))))))"

section \<open>Lemmas\<close>

lemmas ide_consts = IDE_BSY_def IDE_DRDY_def IDE_DF_def IDE_ERR_def IDE_CMD_READ_def IDE_CMD_WRITE_def IDE_CMD_RDMUL_def
  IDE_CMD_WRMUL_def SECTOR_SIZE_def IDE_BLK_SIZE_def

lemma flags_after: "is_buf_valid (set_valid True f)" "\<not> is_dirty (set_valid True (set_dirty False f))"
proof -
  have e: "B_VALID = 2 ^ 1" "B_DIRTY = 2 ^ 2" by (simp_all add: B_VALID_def B_DIRTY_def)
  show "is_buf_valid (set_valid True f)"
    unfolding is_buf_valid_def set_valid_def e and_exp_eq_0_iff_not_bit by (simp add: bit_or_iff bit_exp_iff)
  show "\<not> is_dirty (set_valid True (set_dirty False f))"
    unfolding is_dirty_def set_valid_def set_dirty_def e and_exp_eq_0_iff_not_bit
    by (simp add: bit_or_iff bit_and_iff bit_not_iff bit_exp_iff)
qed

definition ready :: "u8 \<Rightarrow> bool" where
  "ready r \<longleftrightarrow> r AND (IDE_BSY OR IDE_DRDY) = IDE_DRDY"

lemma ide_wait_total: "(\<exists>q rs'. ide_wait c rs = Inr (q, rs')) \<longleftrightarrow> (\<exists>r \<in> set rs. ready r)"
  by (induction rs) (auto simp: ready_def)

lemma ide_wait_ready:
  assumes "rs \<noteq> []" "\<forall>r \<in> set rs. ready r"
  shows "\<exists>q. ide_wait c rs = Inr (q, tl rs)"
  using assms by (cases rs) (auto simp: ready_def)

lemma drive_reg:
  fixes dev sector :: u32
  defines "r \<equiv> (0xE0 OR ucast (push_bit 4 (dev AND 1)) OR ucast (drop_bit 24 sector AND 0x0F)) :: u8"
  shows "r AND 0x0F = ucast (drop_bit 24 sector AND 0x0F)" "bit r 4 \<longleftrightarrow> bit dev 0"
proof -
  have m: "bit (0x0F :: int) n \<longleftrightarrow> n < 4" for n
    using bit_mask_iff [of 4 n, where ?'a = int] by (simp add: mask_eq_exp_minus_1)
  have e: "bit (0xE0 :: int) n \<longleftrightarrow> 5 \<le> n \<and> n < 8" for n
    using bit_push_bit_iff [of 5 "7 :: int" n] bit_mask_iff [of 3 "n - 5", where ?'a = int]
    by (auto simp: mask_eq_exp_minus_1)
  have o: "bit (16 :: int) n \<longleftrightarrow> n = 4" for n
    using bit_push_bit_iff [of 4 "1 :: int" n] by (auto simp: bit_1_iff)
  show "r AND 0x0F = ucast (drop_bit 24 sector AND 0x0F)"
    by (rule bit_word_eqI) (auto simp: r_def bit_simps m e o)
  show "bit r 4 \<longleftrightarrow> bit dev 0"
    by (simp add: r_def bit_simps m e o)
qed

lemma start_trace_lba:
  "selected_lba (start_trace req) = unat (rblock req) mod 2 ^ 28" "bit (port_value 0x1F6 (start_trace req)) 4 \<longleftrightarrow> bit (rdev req) 0"
proof -
  have r: "port_value 0x1F3 (start_trace req) = ucast (drop_bit 0 (rblock req) AND 0xFF)"
    "port_value 0x1F4 (start_trace req) = ucast (drop_bit 8 (rblock req) AND 0xFF)"
    "port_value 0x1F5 (start_trace req) = ucast (drop_bit 16 (rblock req) AND 0xFF)"
    "port_value 0x1F6 (start_trace req) = 0xE0 OR ucast (push_bit 4 (rdev req AND 1)) OR ucast (drop_bit 24 (rblock req) AND 0x0F)"
    by (simp_all add: port_value_def start_trace_def outsl_def Let_def ide_consts split: Command.splits)
  let ?n = "unat (rblock req)"
  have "selected_lba (start_trace req) = ?n mod 256 + 256 * (?n div 2 ^ 8 mod 256) + 65536 * (?n div 2 ^ 16 mod 256) + 16777216 * (?n div 2 ^ 24 mod 16)"
    unfolding selected_lba_def r byte_of drive_reg(1) nibble_of by simp
  also have "\<dots> = ?n mod 2 ^ 28" by (rule lba_digits)
  finally show "selected_lba (start_trace req) = unat (rblock req) mod 2 ^ 28" .
  show "bit (port_value 0x1F6 (start_trace req)) 4 \<longleftrightarrow> bit (rdev req) 0" unfolding r by (rule drive_reg(2))
qed

section \<open>The life of the queue\<close>

text \<open>
  Runs of requests and interrupts: a request is appended to the queue, an interrupt is the handler with its lock, on the processor \<open>me\<close>.
\<close>

datatype ide_event = Submit Request | Interrupt

fun ide_run :: "u8 \<Rightarrow> usize \<Rightarrow> ide_event list \<Rightarrow> ide \<times> 'h pst \<Rightarrow> (ide \<times> 'h pst) res" where
  "ide_run me lk [] c = Ok c"
| "ide_run me lk (Submit req # es) (d, s) = rbind (ide_append req d) (\<lambda>d1. ide_run me lk es (d1, s))"
| "ide_run me lk (Interrupt # es) c = rbind (ide_intr me lk c) (ide_run me lk es)"

text \<open>
  The specification: the buffers served so far and those waiting, first in, first out; and what waking the sleepers of a channel does to
  the processes and the process table.
\<close>

fun fifo :: "ide_event list \<Rightarrow> usize list \<times> usize list \<Rightarrow> usize list \<times> usize list" where
  "fifo [] q = q"
| "fifo (Submit req # es) (w, q) = fifo es (w, q @ [rbuf req])"
| "fifo (Interrupt # es) (w, q) = fifo es (w @ take 1 q, drop 1 q)"

definition wake :: "usize \<Rightarrow> (procref \<rightharpoonup> Process) \<times> ProcessTable \<Rightarrow> (procref \<rightharpoonup> Process) \<times> ProcessTable" where
  "wake chan = (\<lambda>(m, t). (woken (sleepers chan t) m, t\<lparr>sleeping := (sleeping t)(chan := None), runnable := runnable t @ sleepers chan t\<rparr>))"

definition submitted :: "ide_event list \<Rightarrow> Request list" where
  "submitted es = concat (map (\<lambda>e. case e of Submit req \<Rightarrow> [req] | Interrupt \<Rightarrow> []) es)"

lemma submitted_simps [simp]:
  "submitted [] = []" "submitted (Submit req # es) = req # submitted es" "submitted (Interrupt # es) = submitted es"
  by (simp_all add: submitted_def)

text \<open>
  The invariant of the queue: the disk runs exactly while there are requests, every request points at
  a live buffer, and there are \<open>n\<close> more status values to come, all of which say that the disk is ready.
\<close>

definition ide_ok :: "nat \<Rightarrow> ide \<Rightarrow> bool" where
  "ide_ok n d \<longleftrightarrow> (running d \<longleftrightarrow> que d \<noteq> []) \<and> (\<forall>req \<in> set (que d). rbuf req \<in> dom (bufs d))
     \<and> n \<le> length (status d) \<and> (\<forall>r \<in> set (status d). ready r)"

definition clean_buf :: "ide \<Rightarrow> usize \<Rightarrow> bool" where
  "clean_buf d b \<longleftrightarrow> (\<exists>x. bufs d b = Some x \<and> is_buf_valid (bflags x) \<and> \<not> is_dirty (bflags x))"

lemma ready_status: "0 < n \<Longrightarrow> n \<le> length rs \<Longrightarrow> \<forall>r \<in> set rs. ready r
    \<Longrightarrow> \<exists>q rs'. ide_wait c rs = Inr (q, rs') \<and> n - 1 \<le> length rs' \<and> set rs' \<subseteq> set rs"
  by (cases rs) (auto simp: ready_def)

lemma ide_start_ok:
  assumes "que d \<noteq> []" "0 < n" "n \<le> length (status d)" "\<forall>r \<in> set (status d). ready r" "\<forall>req \<in> set (que d). rbuf req \<in> dom (bufs d)"
  shows "\<exists>d'. ide_start d = Inr d' \<and> ide_ok (n - 1) d' \<and> que d' = que d \<and> bufs d' = bufs d"
proof -
  obtain q rs' where w: "ide_wait False (status d) = Inr (q, rs')" "n - 1 \<le> length rs'" "set rs' \<subseteq> set (status d)"
    using ready_status [OF assms(2,3,4)] by blast
  obtain req rest where e: "que d = req # rest" using assms(1) by (cases "que d") auto
  have "ide_start d = Inr (d\<lparr>status := rs', trace := trace d @ start_trace req, running := True\<rparr>)"
    by (simp add: ide_start_def e w(1) rassert_def ide_consts)
  then show ?thesis using assms(4,5) w(2,3) e by (auto simp: ide_ok_def)
qed

lemma ide_append_ok:
  assumes "ide_ok (Suc n) d" "rbuf req \<in> dom (bufs d)"
  shows "\<exists>d'. ide_append req d = Inr d' \<and> ide_ok n d' \<and> que d' = que d @ [req] \<and> bufs d' = bufs d"
proof (cases "que d")
  case Nil
  then show ?thesis using ide_start_ok [of "d\<lparr>que := [req]\<rparr>" "Suc n"] assms by (auto simp: ide_append_def ide_ok_def)
next
  case Cons
  then show ?thesis using assms by (auto simp: ide_append_def ide_ok_def)
qed

lemma complete_ok:
  assumes ok: "ide_ok (Suc n) d" and q: "que d = req # rest"
  shows "\<exists>d'. complete d = Inr (rbuf req, d') \<and> que d' = rest \<and> \<not> running d' \<and> n \<le> length (status d')
    \<and> (\<forall>r \<in> set (status d'). ready r) \<and> dom (bufs d') = dom (bufs d) \<and> clean_buf d' (rbuf req)
    \<and> (\<forall>b. clean_buf d b \<longrightarrow> clean_buf d' b)"
proof -
  obtain x where x: "bufs d (rbuf req) = Some x" using ok q by (auto simp: ide_ok_def)
  obtain r rs' where w: "ide_wait True (status d) = Inr (r, rs')" "n \<le> length rs'" "set rs' \<subseteq> set (status d)"
    using ready_status [of "Suc n" "status d" True] ok by (auto simp: ide_ok_def)
  let ?m = "(bufs d)(rbuf req \<mapsto> x\<lparr>bflags := set_valid True (set_dirty False (bflags x))\<rparr>)"
  define d' where "d' = d\<lparr>status := (if cmd req = CmdRead then rs' else status d), running := False, que := rest, bufs := ?m,
    trace := (if cmd req = CmdRead \<and> r \<noteq> None then insl 0x1F0 (rdata req) (IDE_BLK_SIZE div 4) (trace d) else trace d)\<rparr>"
  have "complete d = Inr (rbuf req, d')"
    by (simp add: complete_def q w(1) update_flags_def x d'_def)
  then show ?thesis
    using ok w(2,3) x flags_after by (auto simp: d'_def ide_ok_def clean_buf_def)
qed

lemma start_next_ok:
  assumes "Suc n \<le> length (status d)" "\<forall>r \<in> set (status d). ready r" "\<not> running d" "\<forall>req \<in> set (que d). rbuf req \<in> dom (bufs d)"
  shows "\<exists>d'. start_next d = Inr d' \<and> ide_ok n d' \<and> que d' = que d \<and> bufs d' = bufs d"
  using assms ide_start_ok [of d "Suc n"] by (cases "que d = []") (auto simp: start_next_def ide_ok_def)

text \<open>
  The processor can wake whoever sleeps: it holds \<open>n\<close> locks, among them neither that of the process table nor that of a sleeping process, and
  the lock of the queue is free.
\<close>

definition can_wake :: "u8 \<Rightarrow> nat \<Rightarrow> nat \<Rightarrow> usize \<Rightarrow> 'h pst \<Rightarrow> bool" where
  "can_wake me i n lk s \<longleftrightarrow> depth s me i n \<and> \<not> locked (spin s lk) \<and> \<not> locked (spin s (pt_lock s)) \<and> lk \<noteq> pt_lock s
     \<and> (\<forall>chan. \<forall>p \<in> set (sleepers chan (ptable s)). \<not> locked (spin s p) \<and> procs s p \<noteq> None \<and> p \<noteq> pt_lock s \<and> p \<noteq> lk)"

text \<open>The handler, with the lock of the queue taken, the process woken and the next request started.\<close>

lemma sleepers_wake: "sleepers c (snd (wake chan (m, t))) = (if c = chan then [] else sleepers c t)"
  by (simp add: wake_def sleepers_def)

lemma notify_ready_ok:
  assumes ok: "ide_ok (Suc (Suc k)) d" "que d = req # rest" and d: "depth s me i n" "n < 97" "\<not> locked (spin s (pt_lock s))"
    and ps: "\<forall>p \<in> set (sleepers (rbuf req) (ptable s)). \<not> locked (spin s p) \<and> procs s p \<noteq> None" "pt_lock s \<notin> set (sleepers (rbuf req) (ptable s))"
  shows "\<exists>d' s'. notify_ready me (d, s) = Inr (d', s') \<and> (procs s', ptable s') = wake (rbuf req) (procs s, ptable s) \<and> pt_lock s' = pt_lock s
    \<and> depth s' me i n \<and> \<not> locked (spin s' (pt_lock s)) \<and> (\<forall>p \<in> set (sleepers (rbuf req) (ptable s)). \<not> locked (spin s' p))
    \<and> (\<forall>l. l \<noteq> pt_lock s \<and> l \<notin> set (sleepers (rbuf req) (ptable s)) \<longrightarrow> spin s' l = spin s l)
    \<and> ide_ok k d' \<and> que d' = rest \<and> dom (bufs d') = dom (bufs d) \<and> clean_buf d' (rbuf req) \<and> (\<forall>b. clean_buf d b \<longrightarrow> clean_buf d' b)"
proof -
  obtain d1 where c: "complete d = Inr (rbuf req, d1)" "que d1 = rest" "\<not> running d1" "Suc k \<le> length (status d1)"
      "\<forall>r \<in> set (status d1). ready r" "dom (bufs d1) = dom (bufs d)" "clean_buf d1 (rbuf req)" "\<forall>b. clean_buf d b \<longrightarrow> clean_buf d1 b"
    using complete_ok [OF ok] by blast
  have "\<forall>req \<in> set (que d1). rbuf req \<in> dom (bufs d1)" using ok c(2,6) by (auto simp: ide_ok_def)
  then obtain d2 where d2: "start_next d1 = Inr d2" "ide_ok k d2" "que d2 = rest" "bufs d2 = bufs d1"
    using start_next_ok [OF c(4,5,3)] c(2) by auto
  obtain s' where s': "wakeup me (rbuf req) s = Inr ((), s')" "procs s' = woken (sleepers (rbuf req) (ptable s)) (procs s)"
      "ptable s' = (ptable s)\<lparr>sleeping := (sleeping (ptable s))(rbuf req := None), runnable := runnable (ptable s) @ sleepers (rbuf req) (ptable s)\<rparr>"
      "\<not> locked (spin s' (pt_lock s))" "\<forall>l. l \<noteq> pt_lock s \<and> l \<notin> set (sleepers (rbuf req) (ptable s)) \<longrightarrow> spin s' l = spin s l"
      "pt_lock s' = pt_lock s" "depth s' me i n" "\<forall>p \<in> set (sleepers (rbuf req) (ptable s)). \<not> locked (spin s' p)"
    using wakeup_depth [OF d ps] by blast
  have "notify_ready me (d, s) = Inr (d2, s')" using c(1) s'(1) d2(1) by (simp add: notify_ready_def)
  then show ?thesis using s'(2-8) d2(2-4) c(6-8) by (intro exI [of _ d2] exI [of _ s']) (simp add: wake_def clean_buf_def)
qed

lemma ide_intr_ok:
  assumes cw: "can_wake me i n lk s" "n < 96" and ok: "ide_ok (Suc (Suc k)) d"
  shows "\<exists>d' s'. ide_intr me lk (d, s) = Inr (d', s') \<and> can_wake me i n lk s' \<and> (procs s', ptable s') = fold wake (map rbuf (take 1 (que d))) (procs s, ptable s)
    \<and> ide_ok k d' \<and> que d' = drop 1 (que d) \<and> dom (bufs d') = dom (bufs d) \<and> (\<forall>b. clean_buf d b \<or> b \<in> rbuf ` set (take 1 (que d)) \<longrightarrow> clean_buf d' b)"
proof -
  let ?s1 = "acquired me lk i s"
  have c: "depth s me i n" "\<not> locked (spin s lk)" "\<not> locked (spin s (pt_lock s))" "lk \<noteq> pt_lock s"
    and ps: "\<forall>p \<in> set (sleepers chan (ptable s)). \<not> locked (spin s p) \<and> procs s p \<noteq> None \<and> p \<noteq> pt_lock s \<and> p \<noteq> lk" for chan
    using cw(1) unfolding can_wake_def by blast+
  have A: "acquire me lk s = Inr ?s1" "depth ?s1 me i (Suc n)" "held_by ?s1 lk i" "\<And>l. l \<noteq> lk \<Longrightarrow> spin ?s1 l = spin s l" "kst.more ?s1 = kst.more s"
    using acquire_depth [OF c(1) _ c(2)] cw(2) by (simp_all add: held_by_def)
  note M = pst_more [OF A(5)]
  show ?thesis
  proof (cases "que d")
    case Nil
    note R = release_depth [OF A(2,3)]
    note N = pst_more [OF R(5)]
    have "ide_intr me lk (d, s) = Inr (d, let_go me lk i ?s1)" using A(1) R(1) Nil by (simp add: ide_intr_def)
    moreover have "can_wake me i n lk (let_go me lk i ?s1)" using R(2,4) A(4) M N c ps by (auto simp: can_wake_def)
    ultimately show ?thesis using ok Nil M N by (auto simp: ide_ok_def)
  next
    case (Cons req rest)
    let ?S = "set (sleepers (rbuf req) (ptable s))"
    have pre: "Suc n < 97" "\<not> locked (spin ?s1 (pt_lock ?s1))" "\<forall>p \<in> set (sleepers (rbuf req) (ptable ?s1)). \<not> locked (spin ?s1 p) \<and> procs ?s1 p \<noteq> None"
        "pt_lock ?s1 \<notin> set (sleepers (rbuf req) (ptable ?s1))"
      using cw(2) c(3,4) A(4) ps [of "rbuf req"] M by auto
    obtain d' s2 where n: "notify_ready me (d, ?s1) = Inr (d', s2)" "(procs s2, ptable s2) = wake (rbuf req) (procs s, ptable s)" "pt_lock s2 = pt_lock s"
        "depth s2 me i (Suc n)" "\<not> locked (spin s2 (pt_lock s))" "\<forall>p \<in> ?S. \<not> locked (spin s2 p)"
        "\<forall>l. l \<noteq> pt_lock s \<and> l \<notin> ?S \<longrightarrow> spin s2 l = spin ?s1 l"
        "ide_ok k d'" "que d' = rest" "dom (bufs d') = dom (bufs d)" "clean_buf d' (rbuf req)" "\<forall>b. clean_buf d b \<longrightarrow> clean_buf d' b"
      using notify_ready_ok [OF ok Cons A(2) pre] unfolding M by blast
    have "lk \<notin> ?S" using ps by blast
    then have "held_by s2 lk i" using n(7) A(3) c(4) by (simp add: held_by_def)
    note R = release_depth [OF n(4) this]
    note N = pst_more [OF R(5)]
    have "ide_intr me lk (d, s) = Inr (d', let_go me lk i s2)" using A(1) R(1) Cons n(1) by (simp add: ide_intr_def)
    moreover have "can_wake me i n lk (let_go me lk i s2)"
    proof -
      have free: "\<not> locked (spin s2 p)" if "p \<in> set (sleepers ch (ptable s))" for p ch
        using that n(6,7) ps [of ch] A(4) [of p] by (cases "p \<in> ?S") auto
      have "set (sleepers ch (ptable s2)) \<subseteq> set (sleepers ch (ptable s))" for ch
        using sleepers_wake [of ch "rbuf req" "procs s" "ptable s", folded n(2)] by simp
      moreover have "procs s2 p \<noteq> None" if "procs s p \<noteq> None" for p using n(2) that by (auto simp: wake_def woken_def)
      ultimately show ?thesis using R(2,4) N n(3,5) c(4) free ps unfolding can_wake_def by (auto; blast)
    qed
    ultimately show ?thesis using n(2,8-12) N Cons by (intro exI [of _ d'] exI [of _ "let_go me lk i s2"]) auto
  qed
qed

lemma fifo_order: "fst (fifo es (w, q)) @ snd (fifo es (w, q)) = w @ q @ map rbuf (submitted es)"
proof (induction es arbitrary: w q)
  case (Cons e es)
  show ?case by (cases e) (simp_all add: Cons.IH)
qed simp

lemma ide_run_ok:
  "ide_ok (2 * length es) d \<Longrightarrow> \<forall>req \<in> set (submitted es). rbuf req \<in> dom (bufs d) \<Longrightarrow> \<forall>b \<in> set w. clean_buf d b \<Longrightarrow> can_wake me i n lk s \<Longrightarrow> n < 96
    \<Longrightarrow> \<exists>d' s' woken. ide_run me lk es (d, s) = Inr (d', s') \<and> ide_ok 0 d' \<and> can_wake me i n lk s' \<and> (\<forall>b \<in> set (w @ woken). clean_buf d' b)
      \<and> fifo es (w, map rbuf (que d)) = (w @ woken, map rbuf (que d')) \<and> (procs s', ptable s') = fold wake woken (procs s, ptable s)"
proof (induction es arbitrary: w d s)
  case Nil
  then show ?case by auto
next
  case (Cons e es)
  show ?case
  proof (cases e)
    case (Submit req)
    obtain d1 where d1: "ide_append req d = Inr d1" "ide_ok (Suc (2 * length es)) d1" "que d1 = que d @ [req]" "bufs d1 = bufs d"
      using ide_append_ok [of "Suc (2 * length es)" d req] Cons.prems Submit by auto
    have "ide_ok (2 * length es) d1" using d1(2) by (auto simp: ide_ok_def)
    then show ?thesis using Cons.IH [of d1 w s] Cons.prems d1 Submit by (auto simp: clean_buf_def)
  next
    case Interrupt
    let ?f = "map rbuf (take 1 (que d))"
    have "ide_ok (Suc (Suc (2 * length es))) d" using Cons.prems(1) by simp
    from ide_intr_ok [OF Cons.prems(4,5) this] obtain d1 s1 where d1: "ide_intr me lk (d, s) = Inr (d1, s1)" "can_wake me i n lk s1"
        "(procs s1, ptable s1) = fold wake ?f (procs s, ptable s)" "ide_ok (2 * length es) d1" "que d1 = drop 1 (que d)" "dom (bufs d1) = dom (bufs d)"
        "\<forall>b. clean_buf d b \<or> b \<in> rbuf ` set (take 1 (que d)) \<longrightarrow> clean_buf d1 b"
      by blast
    have "\<forall>b \<in> set (w @ ?f). clean_buf d1 b" using d1(7) Cons.prems(3) by auto
    then obtain d' s' woken where r: "ide_run me lk es (d1, s1) = Inr (d', s')" "ide_ok 0 d'" "can_wake me i n lk s'" "\<forall>b \<in> set ((w @ ?f) @ woken). clean_buf d' b"
        "fifo es (w @ ?f, map rbuf (que d1)) = ((w @ ?f) @ woken, map rbuf (que d'))" "(procs s', ptable s') = fold wake woken (procs s1, ptable s1)"
      using Cons.IH [OF d1(4) _ _ d1(2) Cons.prems(5), of "w @ ?f"] d1(6) Cons.prems(2) Interrupt by auto
    show ?thesis
      by (intro exI [of _ d'] exI [of _ s'] exI [of _ "?f @ woken"]) (use r d1(1,3,5) Interrupt in \<open>auto simp: take_map drop_map\<close>)
  qed
qed

lemma request_trace:
  "OutB 0x1F7 v \<notin> set (start_trace (request_for b x))"
  by (simp add: start_trace_def outsl_def request_for_def Let_def ide_consts)

section \<open>Properties\<close>

text \<open>C29. The registers that \<^verbatim>\<open>IdeQueue::start\<close> programs select the drive and, up to the 28 bits of LBA, the sector of
  the request's block. But no request that the kernel makes, for reading or for writing, ever puts a command
  into the command register 0x1F7: a read puts it into the data register and a write is queued as a read.\<close>

theorem ide_request_selects_but_never_commands:
  "selected_lba (start_trace (request_for b x)) = unat (block_no x) mod 2 ^ 28
   \<and> (bit (port_value 0x1F6 (start_trace (request_for b x))) 4 \<longleftrightarrow> bit (bdev x) 0)
   \<and> (\<forall>v. OutB 0x1F7 v \<notin> set (start_trace (request_for b x)))"
  using start_trace_lba [of "request_for b x"] request_trace by (simp add: request_for_def)

text \<open>C12. The disk queue serves requests in order and wakes who waits for them. Take any sequence of requests and disk interrupts over
  live buffers, with a disk that reports ready, on a processor that holds neither the lock of the queue nor that of the process table nor those of
  sleeping processes (so not while it runs a process). Then no step fails, the requests are completed first in, first out, and the disk is
  started exactly while requests are pending; each completed buffer is valid and clean, and, in the order of completion, exactly
  the processes that sleep on the address of the buffer have been made runnable and moved to the end of the run queue.\<close>

theorem ide_queue_fifo:
  assumes "\<forall>req \<in> set (submitted es). rbuf req \<in> dom (bufs d)" "2 * length es \<le> length (status d)" "\<forall>r \<in> set (status d). ready r"
    and "can_wake me i n lk s" "n < 96"
  shows "\<exists>d' s' served. ide_run me lk es (IdeQueue_new d, s) = Inr (d', s') \<and> fifo es ([], []) = (served, map rbuf (que d'))
    \<and> served @ map rbuf (que d') = map rbuf (submitted es) \<and> (running d' \<longleftrightarrow> que d' \<noteq> []) \<and> (\<forall>b \<in> set served. clean_buf d' b)
    \<and> (procs s', ptable s') = fold wake served (procs s, ptable s) \<and> depth s' me i n"
proof -
  have "ide_ok (2 * length es) (IdeQueue_new d)" using assms(2,3) by (simp add: ide_ok_def IdeQueue_new_def)
  then obtain d' s' served where r: "ide_run me lk es (IdeQueue_new d, s) = Inr (d', s')" "ide_ok 0 d'" "can_wake me i n lk s'" "\<forall>b \<in> set ([] @ served). clean_buf d' b"
      "fifo es ([], map rbuf (que (IdeQueue_new d))) = ([] @ served, map rbuf (que d'))" "(procs s', ptable s') = fold wake served (procs s, ptable s)"
    using ide_run_ok [of es "IdeQueue_new d" "[]", OF _ _ _ assms(4,5)] assms(1) by (auto simp: IdeQueue_new_def)
  moreover have "served @ map rbuf (que d') = map rbuf (submitted es)" using fifo_order [of es "[]" "[]"] r(5) by (simp add: IdeQueue_new_def)
  ultimately show ?thesis by (intro exI [of _ d'] exI [of _ s'] exI [of _ served]) (simp add: ide_ok_def can_wake_def IdeQueue_new_def)
qed

definition demo_ide :: ide where
  "demo_ide = \<lparr>que = [], running = False, have_disk1 = True,
     bufs = [0x1000 \<mapsto> Buf_zero 0x1010, 0x2000 \<mapsto> (Buf_zero 0x2010)\<lparr>bdev := 1, block_no := 7\<rparr>],
     status = [0x50, 0x50, 0x50, 0x50, 0x50, 0x50], trace = []\<rparr>"

text \<open>A process sleeps on the first buffer.\<close>

definition demo_waits :: "nat pst" where
  "demo_waits = demo_pst\<lparr>ptable := (ptable demo_pst)\<lparr>sleeping := [0x1000 \<mapsto> [0x80300100]]\<rparr>\<rparr>"

lemma demo_waits_ok: "can_wake 1 1 0 0x80B00100 demo_waits"
proof -
  have "depth demo_waits 1 1 0" using demo_pst_ok(1) depth_same [of demo_pst demo_waits] by (simp add: demo_waits_def same_cpus_def)
  then show ?thesis by (auto simp: can_wake_def demo_waits_def sleepers_def demo_pst_ok split: if_splits)
qed

theorem ide_queue_fifo_witness:
  "\<exists>d' s'. ide_run 1 0x80B00100 [Submit (request_for 0x1000 (Buf_zero 0x1010)), Submit (request_for 0x2000 ((Buf_zero 0x2010)\<lparr>bdev := 1, block_no := 7\<rparr>)), Interrupt]
      (IdeQueue_new demo_ide, demo_waits) = Inr (d', s') \<and> map rbuf (que d') = [0x2000] \<and> running d' \<and> clean_buf d' 0x1000
      \<and> runnable (ptable s') = [0x80300000, 0x80300100] \<and> sleeping (ptable s') 0x1000 = None"
proof -
  let ?es = "[Submit (request_for 0x1000 (Buf_zero 0x1010)), Submit (request_for 0x2000 ((Buf_zero 0x2010)\<lparr>bdev := 1, block_no := 7\<rparr>)), Interrupt]"
  have h: "\<forall>req \<in> set (submitted ?es). rbuf req \<in> dom (bufs demo_ide)" "2 * length ?es \<le> length (status demo_ide)"
    "\<forall>r \<in> set (status demo_ide). ready r"
    by (simp_all add: demo_ide_def request_for_def ready_def ide_consts)
  have f: "fifo ?es ([], []) = ([0x1000], [0x2000])" by (simp add: request_for_def)
  obtain d' s' served where r: "ide_run 1 0x80B00100 ?es (IdeQueue_new demo_ide, demo_waits) = Inr (d', s')" "fifo ?es ([], []) = (served, map rbuf (que d'))"
      "running d' \<longleftrightarrow> que d' \<noteq> []" "\<forall>b \<in> set served. clean_buf d' b" "(procs s', ptable s') = fold wake served (procs demo_waits, ptable demo_waits)"
    using ide_queue_fifo [OF h demo_waits_ok] by auto
  have "served = [0x1000]" "map rbuf (que d') = [0x2000]" using r(2) unfolding f by simp_all
  moreover have "ptable s' = snd (wake 0x1000 (procs demo_waits, ptable demo_waits))" using r(5) calculation(1) by (metis fold_simps snd_conv)
  ultimately show ?thesis using r(1,3,4) by (auto simp: wake_def demo_waits_def sleepers_def demo_pst_ok)
qed

end
