(* ===== verification/Sleep_Locks.thy ===== *)
theory Sleep_Locks
  imports Scheduling
begin

text \<open>
  Sleep locks (module \<^verbatim>\<open>sleep\<close> of \<^verbatim>\<open>kernel/src/lock.rs\<close>). A sleep lock is a boolean behind a spin lock and a
  wait channel. The booleans are kept by the address of the lock, beside the kernel state. An operation
  that has to wait ends in \<open>Waits\<close>, with what \<^verbatim>\<open>sched\<close> passes to \<^verbatim>\<open>switch\<close>.
\<close>

section \<open>Operations\<close>

datatype 'a outcome = Done 'a | Waits "bool \<times> procref \<times> usize"

type_synonym 'h sst = "(usize \<Rightarrow> bool) \<times> 'h pst"

definition SleepLock_new :: "usize \<Rightarrow> 'h sst \<Rightarrow> 'h sst" where
  "SleepLock_new a = (\<lambda>(m, s). (m(a := False), s\<lparr>spin := (spin s)(a := SpinLock_new ''sleep lock'')\<rparr>))"

text \<open>
  The channel is \<^verbatim>\<open>&self\<close>, the address of the local variable that holds the reference to the lock, and
  not the address of the lock: \<open>chan\<close> is the stack slot of the call, which the compiled code chooses, and so an argument. The loop of \<^verbatim>\<open>acquire\<close> is entered with
  the spin lock held, after \<^verbatim>\<open>lock\<close> and again after \<^verbatim>\<open>sleep\<close> has returned.
\<close>

definition sl_loop :: "u8 \<Rightarrow> usize \<Rightarrow> usize \<Rightarrow> 'h sst \<Rightarrow> (unit outcome \<times> 'h sst) res" where
  "sl_loop me chan a = (\<lambda>(m, s).
     if m a then rbind (sleep_enter me chan a s) (\<lambda>(w, s1). Ok (Waits w, m, s1))
     else rbind (release me a s) (\<lambda>s1. Ok (Done (), m(a := True), s1)))"

definition sl_acquire :: "u8 \<Rightarrow> usize \<Rightarrow> usize \<Rightarrow> 'h sst \<Rightarrow> (unit outcome \<times> 'h sst) res" where
  "sl_acquire me chan a = (\<lambda>(m, s). rbind (acquire me a s) (\<lambda>s1. sl_loop me chan a (m, s1)))"

definition sl_resume :: "u8 \<Rightarrow> usize \<Rightarrow> usize \<Rightarrow> bool \<Rightarrow> procref \<Rightarrow> 'h sst \<Rightarrow> (unit outcome \<times> 'h sst) res" where
  "sl_resume me chan a ena p = (\<lambda>(m, s). rbind (sleep_leave me ena p a s) (\<lambda>s1. sl_loop me chan a (m, s1)))"

definition sl_release :: "u8 \<Rightarrow> usize \<Rightarrow> usize \<Rightarrow> 'h sst \<Rightarrow> 'h sst res" where
  "sl_release me chan a = (\<lambda>(m, s).
     rbind (acquire me a s) (\<lambda>s1.
     rbind (wakeup me chan s1) (\<lambda>(_, s2).
     rbind (release me a s2) (\<lambda>s3. Ok (m(a := False), s3)))))"

section \<open>Lemmas\<close>

text \<open>
  What stays while a processor that holds \<open>n\<close> locks takes and frees others: the depth, the spin
  locks other than those in \<open>L\<close>, which are free, and the state of the processes.
\<close>

definition quiet :: "u8 \<Rightarrow> nat \<Rightarrow> nat \<Rightarrow> usize set \<Rightarrow> 'h pst \<Rightarrow> 'h pst \<Rightarrow> bool" where
  "quiet me i n L s s' \<longleftrightarrow> depth s' me i n \<and> (\<forall>l. l \<notin> L \<longrightarrow> spin s' l = spin s l) \<and> (\<forall>l \<in> L. \<not> locked (spin s' l))
     \<and> procs s' = procs s \<and> ptable s' = ptable s \<and> pt_lock s' = pt_lock s \<and> current_proc (priv s' i) = current_proc (priv s i)
     \<and> kvm s' = kvm s"

lemma quiet_trans:
  "quiet me i n L s s' \<Longrightarrow> quiet me i n' L' s' s'' \<Longrightarrow> quiet me i n' (L \<union> L') s s''"
  unfolding quiet_def by (auto; metis)

lemma current_saved [simp]: "current_proc (saved me i s) = current_proc (priv s i)"
  by (simp add: saved_def)

lemma acquired_facts:
  assumes "depth s me i n" "n < 97" "\<not> locked (spin s a)"
  defines "t \<equiv> acquired me a i s"
  shows "acquire me a s = Inr t" "depth t me i (Suc n)" "held_by t a i" "l \<noteq> a \<Longrightarrow> spin t l = spin s l"
    "current_proc (priv t i) = current_proc (priv s i)" "kst.more t = kst.more s"
proof -
  have n: "n < 99" using assms(2) by simp
  note A = acquire_depth [OF assms(1) n assms(3)]
  show "acquire me a s = Inr t" "depth t me i (Suc n)" "held_by t a i" "l \<noteq> a \<Longrightarrow> spin t l = spin s l"
    "current_proc (priv t i) = current_proc (priv s i)" "kst.more t = kst.more s"
    using A by (simp_all add: t_def held_by_def)
qed

lemma sl_acquire_free:
  assumes "depth s me i n" "n < 97" "\<not> locked (spin s a)" "\<not> m a"
  shows "\<exists>s'. sl_acquire me chan a (m, s) = Inr (Done (), m(a := True), s') \<and> quiet me i n {a} s s'"
proof -
  note A = acquired_facts [OF assms(1-3)]
  note R = release_depth [OF A(2,3)]
  have "quiet me i n {a} s (let_go me a i (acquired me a i s))"
    using R(2,3,4) A(4,5) pst_more [OF trans [OF R(5) A(6)]] by (auto simp: quiet_def)
  then show ?thesis using A(1) R(1) assms(4) by (simp add: sl_acquire_def sl_loop_def)
qed

lemma sl_acquire_taken:
  assumes "runs me p s" "m a"
  shows "\<exists>f. sl_acquire me chan a (m, s) = Inl f"
proof (cases "acquire me a s")
  case (Inr s1)
  then have "runs me p s1" using assms(1) runs_frame [OF acquire_frame] by blast
  then show ?thesis using sleep_enter_runs [of me p s1 chan a] Inr assms(2) by (auto simp: sl_acquire_def sl_loop_def)
qed (simp add: sl_acquire_def)

lemma sl_acquire_runs:
  assumes "sl_acquire me chan a (m, s) = Inr (Done r, m', s')" "runs me p s"
  shows "\<not> m a" "runs me p s'"
proof -
  show "\<not> m a" using sl_acquire_taken [OF assms(2), of m a chan] assms(1) by auto
  then obtain s1 where "acquire me a s = Inr s1" "release me a s1 = Inr s'"
    using assms(1) by (auto simp: sl_acquire_def sl_loop_def elim!: rbind_OkE)
  then show "runs me p s'" using assms(2) runs_frame [OF acquire_frame] runs_frame [OF release_frame] by blast
qed

lemma sl_release_eq:
  assumes "depth s me i n" "n < 96" "\<not> locked (spin s a)" "\<not> locked (spin s (pt_lock s))" "a \<noteq> pt_lock s"
    and ps: "\<forall>p \<in> set (sleepers chan (ptable s)). \<not> locked (spin s p) \<and> procs s p \<noteq> None \<and> p \<noteq> a \<and> p \<noteq> pt_lock s"
  shows "\<exists>s'. sl_release me chan a (m, s) = Inr (m(a := False), s') \<and> depth s' me i n
    \<and> procs s' = woken (sleepers chan (ptable s)) (procs s) \<and> ptable s' = (ptable s)\<lparr>sleeping := (sleeping (ptable s))(chan := None),
        runnable := runnable (ptable s) @ sleepers chan (ptable s)\<rparr>
    \<and> pt_lock s' = pt_lock s \<and> \<not> locked (spin s' a) \<and> \<not> locked (spin s' (pt_lock s))
    \<and> (\<forall>l. l \<noteq> a \<and> l \<noteq> pt_lock s \<and> l \<notin> set (sleepers chan (ptable s)) \<longrightarrow> spin s' l = spin s l)"
proof -
  have n: "n < 97" "Suc n < 97" using assms(2) by simp_all
  note A = acquired_facts [OF assms(1) n(1) assms(3)]
  let ?t = "acquired me a i s"
  note M = pst_more [OF A(6)]
  have w: "\<not> locked (spin ?t (pt_lock ?t))" "\<forall>p \<in> set (sleepers chan (ptable ?t)). \<not> locked (spin ?t p) \<and> procs ?t p \<noteq> None"
      "pt_lock ?t \<notin> set (sleepers chan (ptable ?t))"
    using A(4) M assms(4,5) ps by auto
  from wakeup_depth [OF A(2) n(2) w] obtain u where u: "wakeup me chan ?t = Inr ((), u)"
      "procs u = woken (sleepers chan (ptable s)) (procs s)" "ptable u = (ptable s)\<lparr>sleeping := (sleeping (ptable s))(chan := None),
        runnable := runnable (ptable s) @ sleepers chan (ptable s)\<rparr>" "\<not> locked (spin u (pt_lock s))"
      "\<forall>l. l \<noteq> pt_lock s \<and> l \<notin> set (sleepers chan (ptable s)) \<longrightarrow> spin u l = spin ?t l" "pt_lock u = pt_lock s" "depth u me i (Suc n)"
    unfolding M by blast
  have "a \<notin> set (sleepers chan (ptable s))" using ps by blast
  then have h: "held_by u a i" using u(5) A(3) assms(5) by (simp add: held_by_def)
  note R = release_depth [OF u(7) h]
  note R5 = pst_more [OF R(5)]
  show ?thesis using A(1) u(1) R(1)
    by (intro exI [of _ "let_go me a i u"]) (use R(2,4) u(2-6) R5 A(4) assms(5) in \<open>auto simp: sl_release_def\<close>)
qed

lemma quietD:
  assumes "quiet me i n L s s'"
  shows "depth s' me i n" "l \<notin> L \<Longrightarrow> spin s' l = spin s l" "l \<in> L \<Longrightarrow> \<not> locked (spin s' l)" "procs s' = procs s" "ptable s' = ptable s"
    "pt_lock s' = pt_lock s" "current_proc (priv s' i) = current_proc (priv s i)" "kvm s' = kvm s"
  using assms by (auto simp: quiet_def)

lemma woken_Nil [simp]: "woken [] m = m"
  by (auto simp: woken_def)

section \<open>Properties\<close>

text \<open>An uncontended sleep lock works: a processor that holds no spin lock acquires a free sleep lock without
  waiting, and releasing it frees it again; the spin locks involved are free, and the nesting depth, the
  processes and, when nobody waits on the channel of the release, the process table are as before.\<close>

lemma sleep_lock_scope:
  assumes "depth s me i 0" "\<not> locked (spin s a)" "\<not> m a" "\<not> locked (spin s (pt_lock s))" "a \<noteq> pt_lock s" "sleeping (ptable s) chan' = None"
  shows "\<exists>s' s''. sl_acquire me chan a (m, s) = Inr (Done (), m(a := True), s') \<and> sl_release me chan' a (m(a := True), s') = Inr (m, s'')
    \<and> depth s' me i 0 \<and> depth s'' me i 0 \<and> procs s'' = procs s \<and> ptable s'' = ptable s \<and> \<not> locked (spin s'' a) \<and> \<not> locked (spin s'' (pt_lock s))"
proof -
  obtain s' where s': "sl_acquire me chan a (m, s) = Inr (Done (), m(a := True), s')" and q: "quiet me i 0 {a} s s'"
    using sl_acquire_free [where m = m and a = a, OF assms(1) _ assms(2,3)] by auto
  note Q = quietD [OF q]
  have e: "sleepers chan' (ptable s') = []" "(sleeping (ptable s))(chan' := None) = sleeping (ptable s)"
    using Q(5) assms(6) by (auto simp: sleepers_def)
  from sl_release_eq [OF Q(1), of a chan' "m(a := True)"] obtain s'' where
    s'': "sl_release me chan' a (m(a := True), s') = Inr (m(a := False), s'')" "depth s'' me i 0" "procs s'' = procs s"
      "ptable s'' = ptable s" "\<not> locked (spin s'' a)" "\<not> locked (spin s'' (pt_lock s))"
    using assms(4,5) Q(2-6) e by auto
  have "m(a := False) = m" using assms(3) by (simp add: fun_upd_idem)
  then show ?thesis using s' s'' Q(1) by auto
qed

text \<open>C28. What \<^verbatim>\<open>SleepLock::acquire\<close> does. A free sleep lock is taken at once, by a processor that holds any number of spin
  locks, as long as the spin lock inside is free: then the sleep lock is taken, that spin lock is free again and nothing else has
  changed. A sleep lock that is taken is never acquired a second time, but a process that tries does not wait for it either: whatever the
  state of the spin locks, and whichever stack slot is the channel, the call does not return on a processor that runs a process.\<close>

theorem sleep_lock_acquire:
  "(depth s me i n \<and> n < 97 \<and> \<not> locked (spin s a) \<and> \<not> m a \<longrightarrow>
      (\<exists>s'. sl_acquire me chan a (m, s) = Inr (Done (), m(a := True), s') \<and> quiet me i n {a} s s'))
    \<and> (runs me p s \<and> m a \<longrightarrow> (\<exists>f. sl_acquire me chan a (m, s) = Inl f))"
  using sl_acquire_free [where m = m and a = a] sl_acquire_taken [where m = m and a = a] by blast

theorem sleep_lock_acquire_witness:
  "(\<exists>s. sl_acquire 1 0x80600F00 0x80900000 (\<lambda>_. False, demo_pst) = Inr (Done (), (\<lambda>_. False)(0x80900000 := True), s))
    \<and> (\<exists>s f. scheduler_enter 1 0x80700000 demo_pst = Inr (Some (0x80300000, 0x80600F9C), s)
        \<and> sl_acquire 1 0x80600F00 0x80900000 (\<lambda>_. True, s) = Inl f)"
proof
  show "\<exists>s. sl_acquire 1 0x80600F00 0x80900000 (\<lambda>_. False, demo_pst) = Inr (Done (), (\<lambda>_. False)(0x80900000 := True), s)"
    using sleep_lock_acquire [of demo_pst 1 1 0 "0x80900000" "\<lambda>_. False" "0x80600F00"] demo_pst_ok by auto
  have k: "KERNBASE \<le> ppg_dir demo_proc" by (simp add: demo_pst_ok KERNBASE_def)
  obtain s' where s': "scheduler_enter 1 0x80700000 demo_pst = Inr (Some (0x80300000, 0x80600F9C), s')" "dispatched 1 1 0x80700000 0x80300000 demo_proc [] demo_pst s'"
    using scheduler_enter_dispatched [OF demo_pst_ok(1), of "0x80300000" "[]" demo_proc "0x80700000"] k
    by (auto simp: demo_pst_ok) (simp add: demo_proc_def)
  then show "\<exists>s f. scheduler_enter 1 0x80700000 demo_pst = Inr (Some (0x80300000, 0x80600F9C), s) \<and> sl_acquire 1 0x80600F00 0x80900000 (\<lambda>_. True, s) = Inl f"
    using sleep_lock_acquire [where me = 1 and p = "0x80300000" and s = s' and m = "\<lambda>_. True"] dispatched_runs [OF s'(2)] by blast
qed

end
