(* ===== verification/Keyed_Cache.thy ===== *)
theory Keyed_Cache
  imports Xv6_Prelude
begin

text \<open>
  The interface that the block cache and the inode cache share: a state that keeps at most one object
  for each key, and an operation that returns the object of a key and makes one when there is none.
  What a client relies on is the identity of objects: two references denote the same object exactly
  when they were asked for with the same key.
\<close>

text \<open>A client that asks for several objects in a row and keeps them all.\<close>

fun get_all :: "('k \<Rightarrow> 's \<Rightarrow> ('o \<times> 's) res) \<Rightarrow> 'k list \<Rightarrow> 's \<Rightarrow> ('o list \<times> 's) res" where
  "get_all get [] s = Ok ([], s)"
| "get_all get (k # ks) s = rbind (get k s) (\<lambda>(x, s1). rbind (get_all get ks s1) (\<lambda>(xs, s2). Ok (x # xs, s2)))"

locale keyed_cache =
  fixes invar :: "'s \<Rightarrow> bool"
    and lookup :: "'s \<Rightarrow> 'k \<Rightarrow> 'o option"
    and get :: "'k \<Rightarrow> 's \<Rightarrow> ('o \<times> 's) res"
  assumes get_invar: "invar s \<Longrightarrow> get k s = Inr (x, s') \<Longrightarrow> invar s'"
    and get_lookup: "invar s \<Longrightarrow> get k s = Inr (x, s') \<Longrightarrow> lookup s' = (lookup s)(k \<mapsto> x)"
    and get_cached: "invar s \<Longrightarrow> lookup s k = Some y \<Longrightarrow> get k s = Inr (x, s') \<Longrightarrow> x = y"
    and lookup_inj: "invar s \<Longrightarrow> lookup s k = Some x \<Longrightarrow> lookup s k' = Some x \<Longrightarrow> k = k'"
begin

lemma get_all_lookup:
  "invar s \<Longrightarrow> get_all get ks s = Inr (xs, s') \<Longrightarrow>
    invar s' \<and> length xs = length ks \<and> (\<forall>k y. lookup s k = Some y \<longrightarrow> lookup s' k = Some y) \<and> (\<forall>i < length ks. lookup s' (ks ! i) = Some (xs ! i))"
proof (induction ks arbitrary: s xs)
  case Nil
  then show ?case by auto
next
  case (Cons k ks)
  obtain x s1 ys where g: "get k s = Inr (x, s1)" "get_all get ks s1 = Inr (ys, s')" "xs = x # ys"
    using Cons.prems(2) by (auto simp: rbind_Ok_iff)
  have i: "invar s1" and l: "lookup s1 = (lookup s)(k \<mapsto> x)"
    using get_invar [OF Cons.prems(1) g(1)] get_lookup [OF Cons.prems(1) g(1)] by simp_all
  note IH = Cons.IH [OF i g(2)]
  have keep: "lookup s1 k' = Some y" if "lookup s k' = Some y" for k' y
    using that l get_cached [OF Cons.prems(1) _ g(1)] by (cases "k' = k") auto
  have "lookup s' ((k # ks) ! j) = Some (xs ! j)" if "j < length (k # ks)" for j
    using that IH l g(3) by (cases j) auto
  then show ?case using IH keep g(3) by auto
qed

lemma get_all_identity:
  assumes "invar s" "get_all get ks s = Inr (xs, s')" "i < length ks" "j < length ks"
  shows "xs ! i = xs ! j \<longleftrightarrow> ks ! i = ks ! j"
proof -
  note L = get_all_lookup [OF assms(1,2)]
  have "lookup s' (ks ! i) = Some (xs ! i)" "lookup s' (ks ! j) = Some (xs ! j)" "invar s'" using L assms(3,4) by auto
  then show ?thesis using lookup_inj [of s' "ks ! i" "xs ! i" "ks ! j"] by auto
qed

end

end
