(* ===== verification/Bcache.thy ===== *)
theory Bcache
  imports Ide Sleep_Locks Keyed_Cache "HOL-Library.Multiset"
begin

text \<open>
  The block cache \<^verbatim>\<open>kernel/src/fs/bcache.rs\<close>. The cache maps device and block number to a reference count
  and the address of a leaked box, which holds a sleep lock and the buffer; the buffer, its sleep lock
  and the spin lock inside are all identified by that address. Boxes come from and go back to the
  kernel heap, whose allocator is a parameter; an allocator that hands out memory that is still in use
  is a fault. Operations that wait end in \<open>Waits\<close>.
\<close>

section \<open>Operations\<close>

record 'h bst =
  cache :: "u32 \<times> u32 \<rightharpoonup> usize \<times> usize"
  bc_lock :: usize
  ide_lock :: usize
  mutexes :: "usize \<Rightarrow> bool"
  disk :: ide
  kern :: "'h pst"

definition Bcache_new :: "'h bst \<Rightarrow> 'h bst" where
  "Bcache_new t = t\<lparr>cache := Map.empty\<rparr>"

text \<open>Lifting of the lock operations to this state.\<close>

definition on_kern :: "('h pst \<Rightarrow> 'h pst res) \<Rightarrow> 'h bst \<Rightarrow> 'h bst res" where
  "on_kern f t = rbind (f (kern t)) (\<lambda>s. Ok (t\<lparr>kern := s\<rparr>))"

definition on_mutexes :: "('h sst \<Rightarrow> ('a \<times> 'h sst) res) \<Rightarrow> 'h bst \<Rightarrow> ('a \<times> 'h bst) res" where
  "on_mutexes f t = rbind (f (mutexes t, kern t)) (\<lambda>(r, m, s). Ok (r, t\<lparr>mutexes := m, kern := s\<rparr>))"

definition deref_buf :: "usize \<Rightarrow> 'h bst \<Rightarrow> Buf res" where
  "deref_buf a t = (case bufs (disk t) a of None \<Rightarrow> Fail (Undefined ''use after free'') | Some x \<Rightarrow> Ok x)"

text \<open>\<^verbatim>\<open>Box::new(SleepMutex::new("buf", buf))\<close>, and the drop of the box.\<close>

definition new_box :: "'h page_alloc \<Rightarrow> (usize \<Rightarrow> Buf) \<Rightarrow> 'h bst \<Rightarrow> (usize \<times> 'h bst) res" where
  "new_box al buf t = rbind (heap_alloc al (kvm (kern t))) (\<lambda>(a, v).
     if bufs (disk t) a \<noteq> None then Fail (Undefined ''allocated twice'')
     else case SleepLock_new a (mutexes t, (kern t)\<lparr>kvm := v\<rparr>) of (m, s) \<Rightarrow>
       Ok (a, t\<lparr>mutexes := m, kern := s, disk := (disk t)\<lparr>bufs := (bufs (disk t))(a \<mapsto> buf a)\<rparr>\<rparr>))"

definition drop_box :: "(usize \<Rightarrow> 'h \<Rightarrow> 'h) \<Rightarrow> usize \<Rightarrow> 'h bst \<Rightarrow> 'h bst" where
  "drop_box fr a t = t\<lparr>disk := (disk t)\<lparr>bufs := (bufs (disk t))(a := None)\<rparr>,
     kern := (kern t)\<lparr>kvm := (kvm (kern t))\<lparr>heap := fr a (heap (kvm (kern t)))\<rparr>\<rparr>\<rparr>"

definition cache_get :: "'h page_alloc \<Rightarrow> u32 \<times> u32 \<Rightarrow> 'h bst \<Rightarrow> (usize \<times> 'h bst) res" where
  "cache_get al key t = (case cache t key of
     Some (n, r) \<Rightarrow> rbind (checked_add n 1) (\<lambda>n'. Ok (r, t\<lparr>cache := (cache t)(key \<mapsto> (n', r))\<rparr>))
   | None \<Rightarrow> rbind (new_box al (\<lambda>a. (Buf_zero a)\<lparr>bdev := fst key, block_no := snd key\<rparr>) t) (\<lambda>(a, t1).
       Ok (a, t1\<lparr>cache := (cache t1)(key \<mapsto> (1, a))\<rparr>)))"

definition cache_put :: "(usize \<Rightarrow> 'h \<Rightarrow> 'h) \<Rightarrow> u32 \<times> u32 \<Rightarrow> 'h bst \<Rightarrow> 'h bst res" where
  "cache_put fr key t = (case cache t key of
     Some (n, r) \<Rightarrow> rbind (checked_sub n 1) (\<lambda>n'.
       if n' = 0 then Ok ((drop_box fr r t)\<lparr>cache := (cache t)(key := None)\<rparr>)
       else Ok (t\<lparr>cache := (cache t)(key \<mapsto> (n', r))\<rparr>))
   | None \<Rightarrow> Fail (Panic ''Bcache::put: no entry''))"

text \<open>
  \<^verbatim>\<open>read\<close>: up to the lock of the buffer, and with the lock. \<open>chan\<close> is the stack slot of the call of the sleep lock.
  Its result is the buffer behind the new \<^verbatim>\<open>BufLocked\<close>. The device cannot have made a buffer valid before
  \<^verbatim>\<open>read_from_disk\<close> waits, so that this always ends in a wait.
\<close>

definition fill_buf :: "u8 \<Rightarrow> usize \<Rightarrow> 'h bst \<Rightarrow> (usize outcome \<times> 'h bst) res" where
  "fill_buf me a t = rbind (deref_buf a t) (\<lambda>x.
     if \<not> is_buf_valid (bflags x)
     then rbind (read_from_disk me (ide_lock t) a x (disk t, kern t)) (\<lambda>(d, w, s). Ok (Waits w, t\<lparr>disk := d, kern := s\<rparr>))
     else Ok (Done a, t))"

definition bcache_read :: "u8 \<Rightarrow> 'h page_alloc \<Rightarrow> usize \<Rightarrow> u32 \<Rightarrow> u32 \<Rightarrow> 'h bst \<Rightarrow> (usize outcome \<times> 'h bst) res" where
  "bcache_read me al chan dev blk t =
     rbind (on_kern (acquire me (bc_lock t)) t) (\<lambda>t1.
     rbind (cache_get al (dev, blk) t1) (\<lambda>(a, t2).
     rbind (on_kern (release me (bc_lock t2)) t2) (\<lambda>t3.
     rbind (deref_buf a t3) (\<lambda>_.
     rbind (on_mutexes (sl_acquire me chan a) t3) (\<lambda>(r, t4).
       case r of Waits w \<Rightarrow> Ok (Waits w, t4) | Done _ \<Rightarrow> fill_buf me a t4)))))"

definition buf_write :: "u8 \<Rightarrow> usize \<Rightarrow> 'h bst \<Rightarrow> (unit outcome \<times> 'h bst) res" where
  "buf_write me a t = rbind (deref_buf a t) (\<lambda>x.
     if is_dirty (bflags x)
     then rbind (write_to_disk me (ide_lock t) a x (disk t, kern t)) (\<lambda>(d, w, s). Ok (Waits w, t\<lparr>disk := d, kern := s\<rparr>))
     else Ok (Done (), t))"

text \<open>
  Dropping a \<^verbatim>\<open>BufLocked\<close>: first its own \<^verbatim>\<open>drop\<close>, which reads the key through the guard and puts the buffer
  back, and then the drop of its field, the guard, which releases the sleep lock.
\<close>

definition BufLocked_drop :: "u8 \<Rightarrow> (usize \<Rightarrow> 'h \<Rightarrow> 'h) \<Rightarrow> usize \<Rightarrow> 'h bst \<Rightarrow> 'h bst res" where
  "BufLocked_drop me fr a t =
     rbind (on_kern (acquire me (bc_lock t)) t) (\<lambda>t1.
     rbind (deref_buf a t1) (\<lambda>x.
     rbind (cache_put fr (bdev x, block_no x) t1) (\<lambda>t2. on_kern (release me (bc_lock t2)) t2)))"

definition drop_guard :: "u8 \<Rightarrow> usize \<Rightarrow> usize \<Rightarrow> 'h bst \<Rightarrow> 'h bst res" where
  "drop_guard me chan a t = rbind (deref_buf a t) (\<lambda>_.
     rbind (on_mutexes (\<lambda>c. rbind (sl_release me chan a c) (\<lambda>c1. Ok ((), c1))) t) (\<lambda>(_, t1). Ok t1))"

definition drop_buf :: "u8 \<Rightarrow> (usize \<Rightarrow> 'h \<Rightarrow> 'h) \<Rightarrow> usize \<Rightarrow> usize \<Rightarrow> 'h bst \<Rightarrow> 'h bst res" where
  "drop_buf me fr chan a t = rbind (BufLocked_drop me fr a t) (drop_guard me chan a)"

section \<open>Identity of buffers\<close>

definition keys_ok :: "'h bst \<Rightarrow> bool" where
  "keys_ok t \<longleftrightarrow> (\<forall>k n a. cache t k = Some (n, a) \<longrightarrow> (\<exists>x. bufs (disk t) a = Some x \<and> (bdev x, block_no x) = k))"

lemma keys_okD:
  "keys_ok t \<Longrightarrow> cache t k = Some (n, a) \<Longrightarrow> \<exists>x. bufs (disk t) a = Some x \<and> bdev x = fst k \<and> block_no x = snd k"
  by (cases k) (auto simp: keys_ok_def)

abbreviation buf_of :: "'h bst \<Rightarrow> u32 \<times> u32 \<Rightarrow> usize option" where
  "buf_of t k \<equiv> map_option snd (cache t k)"

lemma new_box_Ok:
  assumes "new_box al buf t = Inr (a, t')"
  shows "bufs (disk t) a = None" "bufs (disk t') = (bufs (disk t))(a \<mapsto> buf a)" "cache t' = cache t"
  using assms by (auto simp: new_box_def rbind_Ok_iff SleepLock_new_def split: if_splits)

lemma cache_get_cases:
  assumes "cache_get al key t = Inr (a, t')"
  obtains (hit) n where "cache t key = Some (n, a)" "n \<noteq> -1" "t' = t\<lparr>cache := (cache t)(key \<mapsto> (n + 1, a))\<rparr>"
  | (miss) t1 where "cache t key = None" "new_box al (\<lambda>a. (Buf_zero a)\<lparr>bdev := fst key, block_no := snd key\<rparr>) t = Inr (a, t1)"
      "t' = t1\<lparr>cache := (cache t)(key \<mapsto> (1, a))\<rparr>"
proof (cases "cache t key")
  case None
  then obtain t1 where t1: "new_box al (\<lambda>a. (Buf_zero a)\<lparr>bdev := fst key, block_no := snd key\<rparr>) t = Inr (a, t1)"
      "t' = t1\<lparr>cache := (cache t1)(key \<mapsto> (1, a))\<rparr>"
    using assms by (auto simp: cache_get_def rbind_Ok_iff)
  show ?thesis by (rule miss [OF None t1(1)]) (use t1 new_box_Ok(3) [OF t1(1)] in simp)
next
  case (Some c)
  have "n \<noteq> -1" if "checked_add n 1 = Inr m" for n m :: usize
    using that by (auto simp: checked_add_def unsigned_minus_1_eq_mask mask_eq_exp_minus_1 split: if_splits)
  moreover obtain n r where "c = (n, r)" by (cases c)
  ultimately show ?thesis using assms hit Some by (auto simp: cache_get_def rbind_Ok_iff dest: checked_add_OkD)
qed

lemma keys_ok_get:
  assumes "keys_ok t" "cache_get al key t = Inr (a, t')"
  shows "keys_ok t'"
  using assms(2)
proof (cases rule: cache_get_cases)
  case hit
  then show ?thesis using assms(1) by (auto simp: keys_ok_def)
next
  case (miss t1)
  note N = new_box_Ok [OF miss(2)]
  show ?thesis
    unfolding keys_ok_def
  proof (intro allI impI)
    fix k n b
    assume "cache t' k = Some (n, b)"
    then show "\<exists>x. bufs (disk t') b = Some x \<and> (bdev x, block_no x) = k"
      using keys_okD [OF assms(1), of k n b] miss(3) N by (cases "k = key"; cases k) auto
  qed
qed

lemma buf_of_get:
  "cache_get al key t = Inr (a, t') \<Longrightarrow> buf_of t' = (buf_of t)(key \<mapsto> a)"
  by (erule cache_get_cases) (auto simp: fun_eq_iff)

interpretation bc: keyed_cache keys_ok buf_of "cache_get al" for al :: "'h page_alloc"
proof
  fix t t' :: "'h bst" and k k' a b
  assume ok: "keys_ok t"
  show "keys_ok t'" if "cache_get al k t = Inr (a, t')" using keys_ok_get [OF ok that] .
  show "buf_of t' = (buf_of t)(k \<mapsto> a)" if "cache_get al k t = Inr (a, t')" using buf_of_get [OF that] .
  show "a = b" if "buf_of t k = Some b" "cache_get al k t = Inr (a, t')"
    using that(2,1) by (cases rule: cache_get_cases) auto
  show "k = k'" if "buf_of t k = Some a" "buf_of t k' = Some a"
    using that by (auto dest!: keys_okD [OF ok] intro!: prod_eqI)
qed

section \<open>Reference counts\<close>

text \<open>
  The abstract cache is the multiset of the keys for which a \<^verbatim>\<open>BufLocked\<close> is alive. \<open>cache_ok\<close> relates it to
  the cache: exactly the keys in use have an entry, its count is their multiplicity, and the box is live
  and holds the buffer of that key.
\<close>

fun entry_ok :: "(u32 \<times> u32) multiset \<Rightarrow> u32 \<times> u32 \<Rightarrow> (usize \<times> usize) option \<Rightarrow> bool" where
  "entry_ok H k None \<longleftrightarrow> k \<notin># H"
| "entry_ok H k (Some (n, a)) \<longleftrightarrow> k \<in># H \<and> unat n = count H k"

definition cache_ok :: "(u32 \<times> u32) multiset \<Rightarrow> 'h bst \<Rightarrow> bool" where
  "cache_ok H t \<longleftrightarrow> keys_ok t \<and> (\<forall>k. entry_ok H k (cache t k))"

lemma entry_ok_other [simp]:
  "k' \<noteq> k \<Longrightarrow> entry_ok (add_mset k H) k' e = entry_ok H k' e" "k' \<noteq> k \<Longrightarrow> entry_ok (H - {#k#}) k' e = entry_ok H k' e"
  by (cases e; auto simp: in_diff_count count_greater_zero_iff [symmetric] simp del: count_greater_zero_iff)+

lemma cache_okD: "cache_ok H t \<Longrightarrow> keys_ok t" "cache_ok H t \<Longrightarrow> entry_ok H k (cache t k)"
  by (simp_all add: cache_ok_def del: split_paired_All)

lemma cache_ok_update:
  assumes "cache_ok H t" "cache t' = (cache t)(k := e)" "keys_ok t'" "entry_ok H' k e" "H' = add_mset k H \<or> H' = H - {#k#}"
  shows "cache_ok H' t'"
  unfolding cache_ok_def
proof (intro conjI allI)
  show "keys_ok t'" by (rule assms(3))
  show "entry_ok H' k' (cache t' k')" for k'
    using assms(2,4,5) cache_okD(2) [OF assms(1), of k'] by (cases "k' = k") auto
qed

datatype cache_op = Get "u32 \<times> u32" | Put "u32 \<times> u32"

fun cache_run :: "'h page_alloc \<Rightarrow> (usize \<Rightarrow> 'h \<Rightarrow> 'h) \<Rightarrow> cache_op list \<Rightarrow> 'h bst \<Rightarrow> 'h bst res" where
  "cache_run al fr [] t = Ok t"
| "cache_run al fr (Get k # ops) t = rbind (cache_get al k t) (\<lambda>(_, t1). cache_run al fr ops t1)"
| "cache_run al fr (Put k # ops) t = rbind (cache_put fr k t) (cache_run al fr ops)"

fun holders :: "cache_op list \<Rightarrow> (u32 \<times> u32) multiset \<Rightarrow> (u32 \<times> u32) multiset option" where
  "holders [] H = Some H"
| "holders (Get k # ops) H = holders ops (add_mset k H)"
| "holders (Put k # ops) H = (if k \<in># H then holders ops (H - {#k#}) else None)"

text \<open>
  What is asked of the allocator: as long as fewer than \<open>cap\<close> boxes are live it returns an address that
  is not in use. \<open>live\<close> are the addresses in use.
\<close>

definition box_alloc_ok :: "'h page_alloc \<Rightarrow> (usize \<Rightarrow> 'h \<Rightarrow> 'h) \<Rightarrow> ('h \<Rightarrow> usize set) \<Rightarrow> nat \<Rightarrow> bool" where
  "box_alloc_ok al fr live cap \<longleftrightarrow> (\<forall>h. finite (live h) \<and> card (live h) < cap \<longrightarrow> (\<exists>a h'. al h = Some (a, h') \<and> a \<notin> live h \<and> live h' = insert a (live h)))
     \<and> (\<forall>a h. live (fr a h) = live h - {a})"

definition boxes_live :: "('h \<Rightarrow> usize set) \<Rightarrow> 'h bst \<Rightarrow> bool" where
  "boxes_live live t \<longleftrightarrow> finite (live (heap (kvm (kern t)))) \<and> dom (bufs (disk t)) \<subseteq> live (heap (kvm (kern t)))"

abbreviation n_live :: "('h \<Rightarrow> usize set) \<Rightarrow> 'h bst \<Rightarrow> nat" where
  "n_live live t \<equiv> card (live (heap (kvm (kern t))))"

lemma new_box_ok:
  assumes al: "box_alloc_ok al fr live cap" and l: "boxes_live live t" "n_live live t < cap"
  shows "\<exists>a t'. new_box al buf t = Inr (a, t') \<and> boxes_live live t' \<and> n_live live t' = Suc (n_live live t)"
proof -
  obtain a h' where a: "al (heap (kvm (kern t))) = Some (a, h')" "a \<notin> live (heap (kvm (kern t)))" "live h' = insert a (live (heap (kvm (kern t))))"
    using al l unfolding box_alloc_ok_def boxes_live_def by meson
  then have "bufs (disk t) a = None" using l(1) by (auto simp: boxes_live_def)
  then show ?thesis
    using a l(1) by (auto simp: new_box_def heap_alloc_def SleepLock_new_def boxes_live_def)
qed

lemma cache_get_ok:
  assumes al: "box_alloc_ok al fr live cap" and l: "boxes_live live t" "n_live live t < cap" and ok: "cache_ok H t" "size H < 2 ^ 32 - 1"
  shows "\<exists>a t'. cache_get al k t = Inr (a, t') \<and> cache_ok (add_mset k H) t' \<and> boxes_live live t' \<and> n_live live t' \<le> Suc (n_live live t)"
proof (cases "cache t k")
  case None
  let ?buf = "\<lambda>a. (Buf_zero a)\<lparr>bdev := fst k, block_no := snd k\<rparr>"
  obtain a t1 where b: "new_box al ?buf t = Inr (a, t1)" "boxes_live live t1" "n_live live t1 = Suc (n_live live t)"
    using new_box_ok [OF al l] by blast
  let ?t = "t1\<lparr>cache := (cache t1)(k \<mapsto> (1, a))\<rparr>"
  have g: "cache_get al k t = Inr (a, ?t)" using None b(1) by (simp add: cache_get_def)
  have "keys_ok ?t" using keys_ok_get [OF _ g] ok(1) by (simp add: cache_ok_def)
  moreover have "k \<notin># H" using cache_okD(2) [OF ok(1), of k] None by simp
  then have "entry_ok (add_mset k H) k (Some (1, a))" by (simp add: not_in_iff)
  ultimately have "cache_ok (add_mset k H) ?t"
    using cache_ok_update [OF ok(1), of ?t k "Some (1, a)"] new_box_Ok(3) [OF b(1)] by simp
  then show ?thesis using g b(2,3) by (auto simp: boxes_live_def)
next
  case (Some c)
  obtain n a where c: "c = (n, a)" by (cases c)
  have n: "unat n = count H k" using cache_okD(2) [OF ok(1), of k] Some c by simp
  have "count H k \<le> size H" by (rule count_le_size)
  then have "unat n < 2 ^ 32 - 1" using n ok(2) by linarith
  then have u: "checked_add n 1 = Inr (n + 1)" "unat (n + 1) = unat n + 1"
    by (auto simp: checked_add_def unat_word_ariths)
  let ?t = "t\<lparr>cache := (cache t)(k \<mapsto> (n + 1, a))\<rparr>"
  have g: "cache_get al k t = Inr (a, ?t)" using Some c u(1) by (simp add: cache_get_def)
  have "keys_ok ?t" using keys_ok_get [OF _ g] ok(1) by (simp add: cache_ok_def)
  then have "cache_ok (add_mset k H) ?t"
    using cache_ok_update [OF ok(1), of ?t k "Some (n + 1, a)"] n u(2) by simp
  then show ?thesis using g l(1) by (auto simp: boxes_live_def)
qed

lemma cache_put_ok:
  assumes al: "box_alloc_ok al fr live cap" and l: "boxes_live live t" and ok: "cache_ok H t"
  shows "if k \<in># H then \<exists>t'. cache_put fr k t = Inr t' \<and> cache_ok (H - {#k#}) t' \<and> boxes_live live t' \<and> n_live live t' \<le> n_live live t
    else cache_put fr k t = Inl (Panic ''Bcache::put: no entry'')"
proof (cases "cache t k")
  case None
  then show ?thesis using cache_okD(2) [OF ok, of k] by (simp add: cache_put_def)
next
  case (Some c)
  obtain n a where c: "c = (n, a)" by (cases c)
  have n: "unat n = count H k" "k \<in># H" using cache_okD(2) [OF ok, of k] Some c by simp_all
  then have "0 < unat n" by simp
  then have u: "checked_sub n 1 = Inr (n - 1)" "unat (n - 1) = count H k - 1"
    using n by (auto simp: checked_sub_def unat_sub word_le_nat_alt)
  have keep: "b \<noteq> a" if "cache t k' = Some (m, b)" "k' \<noteq> k" for k' m b
    using that Some c keys_okD [OF cache_okD(1) [OF ok], of k' m b] keys_okD [OF cache_okD(1) [OF ok], of k n a] by (auto simp: prod_eq_iff)
  show ?thesis
  proof (cases "n - 1 = 0")
    case True
    let ?t = "(drop_box fr a t)\<lparr>cache := (cache t)(k := None)\<rparr>"
    have "entry_ok (H - {#k#}) k None" using u(2) True n by (simp add: not_in_iff)
    moreover have "keys_ok ?t"
      using keep keys_okD [OF cache_okD(1) [OF ok]] by (auto simp: keys_ok_def drop_box_def)
    ultimately have "cache_ok (H - {#k#}) ?t"
      using cache_ok_update [OF ok, of ?t k None] by (simp add: drop_box_def)
    moreover have "boxes_live live ?t" "n_live live ?t \<le> n_live live t"
      using l al by (auto simp: boxes_live_def drop_box_def box_alloc_ok_def intro: card_mono)
    ultimately show ?thesis using Some c u(1) True n(2) by (auto simp: cache_put_def)
  next
    case False
    let ?t = "t\<lparr>cache := (cache t)(k \<mapsto> (n - 1, a))\<rparr>"
    have "count H k - 1 \<noteq> 0" using False u(2) by (metis unat_eq_zero)
    then have "entry_ok (H - {#k#}) k (Some (n - 1, a))" using u(2) by (simp add: in_diff_count)
    moreover have "keys_ok ?t" using cache_okD(1) [OF ok] Some c by (auto simp: keys_ok_def)
    ultimately have "cache_ok (H - {#k#}) ?t"
      using cache_ok_update [OF ok, of ?t k "Some (n - 1, a)"] by simp
    then show ?thesis using Some c u(1) False n(2) l by (auto simp: cache_put_def boxes_live_def)
  qed
qed

lemma cache_run_ok:
  assumes al: "box_alloc_ok al fr live cap"
  shows "boxes_live live t \<Longrightarrow> n_live live t + length ops \<le> cap \<Longrightarrow> cache_ok H t \<Longrightarrow> size H + length ops < 2 ^ 32 \<Longrightarrow>
    holders ops H = Some H' \<Longrightarrow> \<exists>t'. cache_run al fr ops t = Inr t' \<and> cache_ok H' t' \<and> boxes_live live t'"
proof (induction ops arbitrary: t H)
  case Nil
  then show ?case by simp
next
  case (Cons op ops)
  show ?case
  proof (cases op)
    case (Get k)
    have "n_live live t < cap" "size H < 2 ^ 32 - 1" using Cons.prems(2,4) by simp_all
    then obtain a t' where t': "cache_get al k t = Inr (a, t')" "cache_ok (add_mset k H) t'" "boxes_live live t'" "n_live live t' \<le> Suc (n_live live t)"
      using cache_get_ok [OF al Cons.prems(1) _ Cons.prems(3)] by blast
    show ?thesis using Cons.IH [OF t'(3) _ t'(2)] Cons.prems(2,4,5) t'(1,4) Get by simp
  next
    case (Put k)
    then have k: "k \<in># H" using Cons.prems(5) by (auto split: if_splits)
    then obtain t' where t': "cache_put fr k t = Inr t'" "cache_ok (H - {#k#}) t'" "boxes_live live t'" "n_live live t' \<le> n_live live t"
      using cache_put_ok [OF al Cons.prems(1,3), of k] by auto
    show ?thesis using Cons.IH [OF t'(3) _ t'(2)] Cons.prems(2,4,5) t'(1,4) Put k size_Diff_singleton [OF k] by simp
  qed
qed

section \<open>Reading and dropping\<close>

lemma on_kern_Ok: "f (kern t) = Inr s \<Longrightarrow> on_kern f t = Inr (t\<lparr>kern := s\<rparr>)"
  by (simp add: on_kern_def)

text \<open>\<^verbatim>\<open>drop\<close> of a \<^verbatim>\<open>BufLocked\<close> under the lock of the cache.\<close>

lemma BufLocked_drop_eq:
  assumes d: "depth (kern t) me i n" "n < 97" and free: "\<not> locked (spin (kern t) (bc_lock t))"
    and x: "bufs (disk t) a = Some x" "cache t (bdev x, block_no x) = Some (c, a)" "0 < c"
  shows "\<exists>s. BufLocked_drop me fr a t = Inr (if c = 1 then (drop_box fr a t)\<lparr>cache := (cache t)((bdev x, block_no x) := None), kern := s\<rparr>
      else t\<lparr>cache := (cache t)((bdev x, block_no x) \<mapsto> (c - 1, a)), kern := s\<rparr>) \<and> quiet me i n {bc_lock t} (kern t\<lparr>kvm := kvm s\<rparr>) s"
proof -
  note A = acquired_facts [OF d free]
  let ?s1 = "acquired me (bc_lock t) i (kern t)"
  let ?t1 = "t\<lparr>kern := ?s1\<rparr>"
  have u: "checked_sub c 1 = Inr (c - 1)" "c - 1 = 0 \<longleftrightarrow> c = 1"
    using x(3) by (simp_all add: checked_sub_def) (metis word_gt_0 word_less_1 le_less_linear)
  define t2 where "t2 = (if c = 1 then (drop_box fr a ?t1)\<lparr>cache := (cache t)((bdev x, block_no x) := None)\<rparr>
    else ?t1\<lparr>cache := (cache t)((bdev x, block_no x) \<mapsto> (c - 1, a))\<rparr>)"
  have p: "cache_put fr (bdev x, block_no x) ?t1 = Inr t2" "bc_lock t2 = bc_lock t"
    using x(2) u by (simp_all add: cache_put_def t2_def drop_box_def)
  obtain v where v: "kern t2 = ?s1\<lparr>kvm := v\<rparr>"
    by (cases "c = 1") (auto simp: t2_def drop_box_def intro: that [of "kvm ?s1"])
  have s2: "depth (kern t2) me i (Suc n)" "held_by (kern t2) (bc_lock t) i"
    using A(2,3) depth_same [of ?s1 "kern t2"] v by (simp_all add: same_cpus_def held_by_def)
  note R = release_depth [OF s2]
  have "quiet me i n {bc_lock t} (kern t\<lparr>kvm := kvm (let_go me (bc_lock t) i (kern t2))\<rparr>) (let_go me (bc_lock t) i (kern t2))"
    using R(2,3,4) A(4,5) pst_more [OF R(5)] pst_more [OF A(6)] by (auto simp: quiet_def v)
  moreover have "BufLocked_drop me fr a t = Inr (t2\<lparr>kern := let_go me (bc_lock t) i (kern t2)\<rparr>)"
    using A(1) x(1) p R(1) by (simp add: BufLocked_drop_def on_kern_def deref_buf_def)
  ultimately show ?thesis by (intro exI [of _ "let_go me (bc_lock t) i (kern t2)"]) (auto simp: t2_def drop_box_def)
qed

text \<open>The first part of \<^verbatim>\<open>read\<close>: the lock of the cache around \<^verbatim>\<open>get\<close>, and the lock of the buffer.\<close>

lemma get_scope:
  assumes d: "depth (kern t) me i n" "n < 97" and free: "\<not> locked (spin (kern t) (bc_lock t))"
    and g: "cache_get al k (t\<lparr>kern := acquired me (bc_lock t) i (kern t)\<rparr>) = Inr (a, t2)" "bc_lock t2 = bc_lock t"
      "kern t2 = (acquired me (bc_lock t) i (kern t))\<lparr>kvm := v, spin := sp\<rparr>" "sp (bc_lock t) = spin (acquired me (bc_lock t) i (kern t)) (bc_lock t)"
  shows "\<exists>s3. on_kern (release me (bc_lock t2)) t2 = Inr (t2\<lparr>kern := s3\<rparr>) \<and> quiet me i n {bc_lock t} (kern t\<lparr>kvm := v, spin := sp\<rparr>) s3"
proof -
  note A = acquired_facts [OF d free]
  have s2: "depth (kern t2) me i (Suc n)" "held_by (kern t2) (bc_lock t) i"
    using A(2,3) depth_same [of "acquired me (bc_lock t) i (kern t)" "kern t2"] g(3,4) by (simp_all add: same_cpus_def held_by_def)
  note R = release_depth [OF s2]
  have "quiet me i n {bc_lock t} (kern t\<lparr>kvm := v, spin := sp\<rparr>) (let_go me (bc_lock t) i (kern t2))"
    using R(2,3,4) A(5) pst_more [OF R(5)] pst_more [OF A(6)] by (auto simp: quiet_def g(3))
  then show ?thesis using R(1) g(2) by (auto simp: on_kern_def)
qed

lemma bcache_read_hit:
  assumes d: "depth (kern t) me i n" "n < 97" and free: "\<not> locked (spin (kern t) (bc_lock t))" "\<not> locked (spin (kern t) a)" "\<not> mutexes t a"
    and c: "cache t (dev, blk) = Some (c, a)" "c \<noteq> -1" and x: "bufs (disk t) a = Some x" "is_buf_valid (bflags x)"
  shows "\<exists>s. bcache_read me al chan dev blk t = Inr (Done a, t\<lparr>cache := (cache t)((dev, blk) \<mapsto> (c + 1, a)), mutexes := (mutexes t)(a := True), kern := s\<rparr>)
    \<and> quiet me i n {bc_lock t, a} (kern t) s"
proof -
  note A = acquired_facts [OF d free(1)]
  let ?s1 = "acquired me (bc_lock t) i (kern t)"
  let ?t2 = "t\<lparr>cache := (cache t)((dev, blk) \<mapsto> (c + 1, a)), kern := ?s1\<rparr>"
  have u: "checked_add c 1 = Inr (c + 1)"
    using c(2) unat_less32 [of c] by (auto simp: checked_add_def unsigned_minus_1_eq_mask mask_eq_exp_minus_1 word_unat_eq_iff)
  have g: "cache_get al (dev, blk) (t\<lparr>kern := ?s1\<rparr>) = Inr (a, ?t2)" using c(1) u by (simp add: cache_get_def)
  have e: "kern ?t2 = ?s1\<lparr>kvm := kvm ?s1, spin := spin ?s1\<rparr>" by simp
  from get_scope [OF d free(1) g _ e] obtain s3 where s3: "on_kern (release me (bc_lock ?t2)) ?t2 = Inr (?t2\<lparr>kern := s3\<rparr>)"
      "quiet me i n {bc_lock t} (kern t\<lparr>kvm := kvm ?s1, spin := spin ?s1\<rparr>) s3" by auto
  have q3: "quiet me i n {bc_lock t} (kern t) s3" using s3(2) A(4) pst_more(4) [OF A(6)] by (auto simp: quiet_def)
  have f: "\<not> locked (spin s3 a)" using quietD(2,3) [OF q3, of a] free by (cases "a = bc_lock t") auto
  obtain s4 where s4: "sl_acquire me chan a (mutexes t, s3) = Inr (Done (), (mutexes t)(a := True), s4)" "quiet me i n {a} s3 s4"
    using sl_acquire_free [where m = "mutexes t", OF quietD(1) [OF q3] d(2) f free(3)] by blast
  have "bcache_read me al chan dev blk t = Inr (Done a, ?t2\<lparr>mutexes := (mutexes t)(a := True), kern := s4\<rparr>)"
    using A(1) g s3(1) x s4(1) by (simp add: bcache_read_def on_kern_def [of "acquire _ _"] on_mutexes_def deref_buf_def fill_buf_def)
  moreover have "quiet me i n {bc_lock t, a} (kern t) s4" using quiet_trans [OF q3 s4(2)] by (simp add: insert_commute)
  ultimately show ?thesis by (intro exI [of _ s4]) simp
qed

text \<open>On a processor that runs a process, a request to the disk never gets past \<^verbatim>\<open>sleep\<close>.\<close>

lemma read_from_disk_runs:
  assumes "runs me p s"
  shows "\<exists>f. read_from_disk me lk b x (d, s) = Inl f"
proof (cases "read_from_disk me lk b x (d, s)")
  case (Inr r)
  then obtain s1 r' where s1: "acquire me lk s = Inr s1" "sleep_enter me b lk s1 = Inr r'"
    unfolding read_from_disk_def by (auto elim!: rbind_OkE)
  then have "runs me p s1" using assms runs_frame [OF acquire_frame] by blast
  then show ?thesis using sleep_enter_runs [of me p s1 b lk] s1(2) by auto
qed simp

lemma fill_buf_runs:
  assumes "runs me p (kern t)" "fill_buf me a t = Inr r"
  shows "\<exists>x. bufs (disk t) a = Some x \<and> is_buf_valid (bflags x)"
proof -
  obtain x where x: "bufs (disk t) a = Some x" using assms(2) by (cases "bufs (disk t) a") (auto simp: fill_buf_def deref_buf_def)
  moreover have "is_buf_valid (bflags x)"
    using assms(2) x read_from_disk_runs [OF assms(1), of "ide_lock t" a x "disk t"] by (auto simp: fill_buf_def deref_buf_def split: if_splits)
  ultimately show ?thesis by blast
qed

text \<open>What a \<^verbatim>\<open>get\<close> leaves: the entry it found, or a new buffer that is not valid.\<close>

lemma cache_get_entry:
  assumes "cache_get al key t = Inr (a, t')"
  shows "(\<exists>c. cache t key = Some (c, a)) \<and> bufs (disk t') = bufs (disk t) \<and> mutexes t' = mutexes t
    \<or> cache t key = None \<and> (\<exists>x. bufs (disk t') a = Some x \<and> \<not> is_buf_valid (bflags x))"
    and "runs me p (kern t') \<longleftrightarrow> runs me p (kern t)"
  using assms by (auto simp: cache_get_def new_box_def SleepLock_new_def Buf_zero_def is_buf_valid_def heap_alloc_def runs_def cpu_at_def cpus_def
    elim!: rbind_OkE split: option.splits if_splits)

lemma bcache_read_runs:
  assumes p: "runs me p (kern t)" and r: "bcache_read me al chan dev blk t = Inr r"
  shows "\<exists>c a x. cache t (dev, blk) = Some (c, a) \<and> bufs (disk t) a = Some x \<and> is_buf_valid (bflags x) \<and> \<not> mutexes t a"
proof -
  obtain s1 a t2 s3 o' m s4 where 1: "acquire me (bc_lock t) (kern t) = Inr s1" "cache_get al (dev, blk) (t\<lparr>kern := s1\<rparr>) = Inr (a, t2)"
      "release me (bc_lock t2) (kern t2) = Inr s3" "sl_acquire me chan a (mutexes t2, s3) = Inr (o', m, s4)"
      and 2: "(case o' of Waits w \<Rightarrow> Ok (Waits w, t2\<lparr>kern := s3, mutexes := m, kern := s4\<rparr>) | Done _ \<Rightarrow> fill_buf me a (t2\<lparr>kern := s3, mutexes := m, kern := s4\<rparr>)) = Inr r"
    using r unfolding bcache_read_def on_kern_def on_mutexes_def by (auto elim!: rbind_OkE)
  note E = cache_get_entry [OF 1(2)]
  have "runs me p s3" using p runs_frame [OF acquire_frame [OF 1(1)]] E(2) [of me p] runs_frame [OF release_frame [OF 1(3)]] by simp
  moreover obtain u where u: "o' = Done u"
    using 1(4) sl_acquire_taken [OF calculation, of "mutexes t2" a chan] by (auto simp: sl_acquire_def sl_loop_def elim!: rbind_OkE split: if_splits)
  ultimately have w: "\<not> mutexes t2 a" "runs me p s4" using sl_acquire_runs [OF 1(4) [unfolded u]] by blast+
  obtain x where "bufs (disk t2) a = Some x" "is_buf_valid (bflags x)" using fill_buf_runs [OF _ 2 [unfolded u outcome.case]] w(2) by auto
  then show ?thesis using E(1) w(1) by auto
qed

section \<open>Example\<close>

text \<open>An example: a processor that runs a process, and an allocator with four boxes.\<close>

definition demo_boxes :: "usize list page_alloc" where
  "demo_boxes h = (case find (\<lambda>a. a \<notin> set h) [0x80A00000, 0x80A01000, 0x80A02000, 0x80A03000] of None \<Rightarrow> None | Some a \<Rightarrow> Some (a, a # h))"

definition demo_bst :: "usize list bst" where
  "demo_bst = \<lparr>cache = Map.empty, bc_lock = 0x80B00000, ide_lock = 0x80B00100, mutexes = (\<lambda>_. False), disk = demo_ide,
     kern = \<lparr>lapic = Some 0xFEE00000, n_cpu = 1, cpu_table = [CpuShared_zero\<lparr>cpu_private := (cpu_private CpuShared_zero)\<lparr>current_proc := Some 0x80300000\<rparr>\<rparr>],
       eflags = (\<lambda>_. 0x202), spin = (\<lambda>l. SpinLock_new ''lock''), procs = [0x80300000 \<mapsto> demo_proc\<lparr>pstate := Running\<rparr>], ptable = ProcessTable_new,
       pt_lock = 0x80200000, kvm = \<lparr>dir_addr = 0, pg_dir = [], tables = Map.empty, pages = Map.empty, heap = [0x1000, 0x2000]\<rparr>,
       dirs = Map.empty, kmem = (\<lambda>_. 0), cr3 = (\<lambda>_. 0), task_reg = (\<lambda>_. 0)\<rparr>\<rparr>"

lemma find_fresh:
  assumes "distinct xs" "card (set h) < length xs"
  shows "\<exists>a. find (\<lambda>a. a \<notin> set h) xs = Some a \<and> a \<notin> set h"
proof -
  have "\<not> set xs \<subseteq> set h" using assms card_mono [OF finite_set [of h], of "set xs"] by (auto simp: distinct_card)
  then have "find (\<lambda>a. a \<notin> set h) xs \<noteq> None" by (auto simp: find_None_iff)
  then show ?thesis by (auto simp: find_Some_iff)
qed

lemma demo_boxes_ok: "box_alloc_ok demo_boxes removeAll set 4"
proof -
  have "\<exists>a h'. demo_boxes h = Some (a, h') \<and> a \<notin> set h \<and> set h' = insert a (set h)" if "card (set h) < 4" for h
    using find_fresh [of "[0x80A00000, 0x80A01000, 0x80A02000, 0x80A03000]" h] that by (auto simp only: demo_boxes_def) auto
  then show ?thesis by (auto simp: box_alloc_ok_def)
qed

lemma demo_bst_ok:
  "depth (kern demo_bst) 0 0 0" "\<not> locked (spin (kern demo_bst) l)" "pt_lock (kern demo_bst) = 0x80200000" "bc_lock demo_bst = 0x80B00000"
  "ide_lock demo_bst = 0x80B00100" "cache demo_bst = Map.empty" "procs (kern demo_bst) 0x80300000 = Some (demo_proc\<lparr>pstate := Running\<rparr>)"
  "current_proc (priv (kern demo_bst) 0) = Some 0x80300000" "disk demo_bst = demo_ide" "heap (kvm (kern demo_bst)) = [0x1000, 0x2000]"
  "\<not> mutexes demo_bst l" "boxes_live set demo_bst" "n_live set demo_bst = 2" "bufs demo_ide 0x80A00000 = None" "have_disk1 demo_ide" "ide_ok 1 demo_ide"
  by (simp_all add: demo_bst_def depth_def cpu_at_def cpus_def CpuShared_zero_def SpinLock_new_def boxes_live_def demo_ide_def ide_ok_def ready_def ide_consts)

section \<open>Properties\<close>

text \<open>C13. The block cache counts references exactly. After any sequence of \<^verbatim>\<open>get\<close> and \<^verbatim>\<open>put\<close> that puts back no more than
  it got, from an empty cache and with enough memory, every step has succeeded, exactly the blocks still in
  use have an entry, its count is the number of holders, and its box is live and holds that block's buffer;
  one more \<^verbatim>\<open>put\<close> of a block that is not in use panics.\<close>

theorem bcache_refcounts:
  assumes "box_alloc_ok al fr live cap" "boxes_live live t" "n_live live t + length ops \<le> cap" "length ops < 2 ^ 32" "holders ops {#} = Some H"
  shows "\<exists>t'. cache_run al fr ops (Bcache_new t) = Inr t' \<and> dom (cache t') = set_mset H
    \<and> (\<forall>k n a. cache t' k = Some (n, a) \<longrightarrow> unat n = count H k \<and> (\<exists>x. bufs (disk t') a = Some x \<and> (bdev x, block_no x) = k))
    \<and> (\<forall>k. k \<notin># H \<longrightarrow> cache_put fr k t' = Inl (Panic ''Bcache::put: no entry''))"
proof -
  have "cache_ok {#} (Bcache_new t)" "boxes_live live (Bcache_new t)" using assms(2) by (auto simp: cache_ok_def keys_ok_def Bcache_new_def boxes_live_def)
  then obtain t' where t': "cache_run al fr ops (Bcache_new t) = Inr t'" "cache_ok H t'" "boxes_live live t'"
    using cache_run_ok [OF assms(1), of "Bcache_new t" ops "{#}" H] assms(3-5) by (auto simp: Bcache_new_def)
  have e: "entry_ok H k (cache t' k)" "keys_ok t'" for k using cache_okD [OF t'(2)] by simp_all
  have "k \<in> dom (cache t') \<longleftrightarrow> k \<in># H" for k using e(1) [of k] by (cases "cache t' k") auto
  moreover have "unat n = count H k" if "cache t' k = Some (n, a)" for k n a using e(1) [of k] that by simp
  moreover have "cache_put fr k t' = Inl (Panic ''Bcache::put: no entry'')" if "k \<notin># H" for k
    using cache_put_ok [OF assms(1) t'(3,2), of k] that by simp
  ultimately show ?thesis using t'(1) e(2) by (auto simp: keys_ok_def)
qed

theorem bcache_refcounts_witness:
  "\<exists>t'. cache_run demo_boxes removeAll [Get (1, 7), Put (1, 7)] (Bcache_new demo_bst) = Inr t'
     \<and> dom (cache t') = {} \<and> cache_put removeAll (1, 7) t' = Inl (Panic ''Bcache::put: no entry'')"
  using bcache_refcounts [OF demo_boxes_ok demo_bst_ok(12), of "[Get (1, 7), Put (1, 7)]" "{#}"] by (auto simp: demo_bst_ok)

text \<open>C30. Dropping the only reference to a cached block is undefined behaviour: the \<^verbatim>\<open>drop\<close> of \<^verbatim>\<open>BufLocked\<close> frees the box,
  and then the drop of the guard inside releases the sleep lock in the freed memory.\<close>

theorem last_buf_drop_use_after_free:
  assumes "depth (kern t) me i n" "n < 97" "\<not> locked (spin (kern t) (bc_lock t))"
    and "bufs (disk t) a = Some x" "cache t (bdev x, block_no x) = Some (1, a)"
  shows "drop_buf me fr chan a t = Inl (Undefined ''use after free'')"
proof -
  obtain s where "BufLocked_drop me fr a t = Inr ((drop_box fr a t)\<lparr>cache := (cache t)((bdev x, block_no x) := None), kern := s\<rparr>)"
    using BufLocked_drop_eq [OF assms(1-5)] by auto
  then show ?thesis by (simp add: drop_buf_def drop_guard_def deref_buf_def drop_box_def)
qed

theorem last_buf_drop_use_after_free_witness:
  "drop_buf 0 removeAll 0x80600F00 0x2000 (demo_bst\<lparr>cache := [(1, 7) \<mapsto> (1, 0x2000)]\<rparr>) = Inl (Undefined ''use after free'')"
  by (rule last_buf_drop_use_after_free [where i = 0 and n = 0 and x = "(Buf_zero 0x2010)\<lparr>bdev := 1, block_no := 7\<rparr>"])
    (simp_all add: demo_bst_ok demo_ide_def)

text \<open>C31. Which blocks \<^verbatim>\<open>read\<close> can deliver. A block that is in the cache, valid and not locked is returned without
  waiting, on a processor that holds any number of other spin locks: the new reference is counted, the buffer is locked, and nothing else
  changes. Any other block, so every block that is read for the first time, is never delivered to a running process: whatever the state of
  the locks, the disk and the memory, the call ends in a fault.\<close>

theorem bcache_read_outcome:
  "(depth (kern t) me i n \<and> n < 97 \<and> \<not> locked (spin (kern t) (bc_lock t)) \<and> \<not> locked (spin (kern t) a)
      \<and> cache t (dev, blk) = Some (c, a) \<and> c \<noteq> -1 \<and> bufs (disk t) a = Some x \<and> is_buf_valid (bflags x) \<and> \<not> mutexes t a \<longrightarrow>
      (\<exists>s. bcache_read me al chan dev blk t = Inr (Done a, t\<lparr>cache := (cache t)((dev, blk) \<mapsto> (c + 1, a)), mutexes := (mutexes t)(a := True), kern := s\<rparr>)
        \<and> depth s me i n \<and> procs s = procs (kern t) \<and> ptable s = ptable (kern t)))
    \<and> (runs me p (kern t) \<and> (\<nexists>c a x. cache t (dev, blk) = Some (c, a) \<and> bufs (disk t) a = Some x \<and> is_buf_valid (bflags x) \<and> \<not> mutexes t a) \<longrightarrow>
      (\<exists>f. bcache_read me al chan dev blk t = Inl f))"
proof (intro conjI impI)
  assume "depth (kern t) me i n \<and> n < 97 \<and> \<not> locked (spin (kern t) (bc_lock t)) \<and> \<not> locked (spin (kern t) a)
      \<and> cache t (dev, blk) = Some (c, a) \<and> c \<noteq> -1 \<and> bufs (disk t) a = Some x \<and> is_buf_valid (bflags x) \<and> \<not> mutexes t a"
  then obtain s where "bcache_read me al chan dev blk t = Inr (Done a, t\<lparr>cache := (cache t)((dev, blk) \<mapsto> (c + 1, a)), mutexes := (mutexes t)(a := True), kern := s\<rparr>)"
      "quiet me i n {bc_lock t, a} (kern t) s"
    using bcache_read_hit by fastforce
  then show "\<exists>s. bcache_read me al chan dev blk t = Inr (Done a, t\<lparr>cache := (cache t)((dev, blk) \<mapsto> (c + 1, a)), mutexes := (mutexes t)(a := True), kern := s\<rparr>)
        \<and> depth s me i n \<and> procs s = procs (kern t) \<and> ptable s = ptable (kern t)"
    using quietD(1,4,5) by blast
next
  assume "runs me p (kern t) \<and> (\<nexists>c a x. cache t (dev, blk) = Some (c, a) \<and> bufs (disk t) a = Some x \<and> is_buf_valid (bflags x) \<and> \<not> mutexes t a)"
  then show "\<exists>f. bcache_read me al chan dev blk t = Inl f" using bcache_read_runs by (cases "bcache_read me al chan dev blk t") blast+
qed

text \<open>The example with block 7 of the first disk in the cache.\<close>

definition demo_cached :: "usize list bst" where
  "demo_cached = demo_bst\<lparr>cache := [(0, 7) \<mapsto> (1, 0x1000)], disk := demo_ide\<lparr>bufs := [0x1000 \<mapsto> (Buf_zero 0x1000)\<lparr>block_no := 7, bflags := B_VALID\<rparr>]\<rparr>\<rparr>"

theorem bcache_read_outcome_witness:
  "(\<exists>s. bcache_read 0 demo_boxes 0x80600F00 0 7 demo_cached = Inr (Done 0x1000, demo_cached\<lparr>cache := [(0, 7) \<mapsto> (2, 0x1000)], mutexes := (\<lambda>_. False)(0x1000 := True), kern := s\<rparr>))
    \<and> (\<exists>f. bcache_read 0 demo_boxes 0x80600F00 0 8 demo_cached = Inl f)"
proof
  have k: "kern demo_cached = kern demo_bst" "bc_lock demo_cached = bc_lock demo_bst" "cache demo_cached = [(0, 7) \<mapsto> (1, 0x1000)]" "mutexes demo_cached = (\<lambda>_. False)"
    "bufs (disk demo_cached) 0x1000 = Some ((Buf_zero 0x1000)\<lparr>block_no := 7, bflags := B_VALID\<rparr>)"
    by (simp_all add: demo_cached_def demo_bst_def)
  have v: "is_buf_valid (bflags ((Buf_zero 0x1000)\<lparr>block_no := 7, bflags := B_VALID\<rparr>))" by (simp add: is_buf_valid_def B_VALID_def)
  show "\<exists>s. bcache_read 0 demo_boxes 0x80600F00 0 7 demo_cached = Inr (Done 0x1000, demo_cached\<lparr>cache := [(0, 7) \<mapsto> (2, 0x1000)], mutexes := (\<lambda>_. False)(0x1000 := True), kern := s\<rparr>)"
    using bcache_read_outcome [of demo_cached 0 0 0 "0x1000" 0 7 1 "(Buf_zero 0x1000)\<lparr>block_no := 7, bflags := B_VALID\<rparr>" demo_boxes "0x80600F00"] demo_bst_ok(1,2) v
    by (auto simp: k)
  have "runs 0 0x80300000 (kern demo_bst)" using demo_bst_ok(1,7,8) by (auto simp: runs_def depth_def)
  then show "\<exists>f. bcache_read 0 demo_boxes 0x80600F00 0 8 demo_cached = Inl f"
    using bcache_read_outcome [where t = demo_cached and me = 0 and dev = 0 and blk = 8 and p = "0x80300000" and al = demo_boxes and chan = "0x80600F00"] by (simp add: k)
qed

end
