(* ===== verification/Paths.thy ===== *)
theory Paths
  imports Xv6_Prelude
begin

text \<open>
  Path names: \<^verbatim>\<open>split_first\<close> of \<^verbatim>\<open>kernel/src/fs/inode.rs\<close>, whose loops walk over byte slices, and the list of
  names that the loop of \<^verbatim>\<open>name_x\<close> takes from a path, against a definition by cutting the path at its
  slashes.
\<close>

section \<open>Operations\<close>

abbreviation slash :: u8 where
  "slash \<equiv> 0x2F"

fun skip_leading_slash :: "u8 list \<Rightarrow> u8 list" where
  "skip_leading_slash [] = []"
| "skip_leading_slash (c # cs) = (if c = slash then skip_leading_slash cs else c # cs)"

text \<open>The loop that looks for the end of the first element counts its bytes.\<close>

fun scan_elem :: "u8 list \<Rightarrow> nat \<Rightarrow> u8 list \<times> nat" where
  "scan_elem [] len = ([], len)"
| "scan_elem (c # cs) len = (if c \<noteq> slash then scan_elem cs (len + 1) else (c # cs, len))"

definition split_first :: "u8 list \<Rightarrow> (u8 list \<times> u8 list) option" where
  "split_first path = (let s = skip_leading_slash path in
     if s = [] then None
     else case scan_elem s 0 of (path', len) \<Rightarrow> Some (take len s, skip_leading_slash path'))"

section \<open>Reference\<close>

text \<open>The pieces between slashes, and those that are not empty.\<close>

fun pieces :: "u8 list \<Rightarrow> u8 list list" where
  "pieces [] = [[]]"
| "pieces (c # cs) = (if c = slash then [] # pieces cs else (c # hd (pieces cs)) # tl (pieces cs))"

definition components :: "u8 list \<Rightarrow> u8 list list" where
  "components path = filter (\<lambda>p. p \<noteq> []) (pieces path)"

section \<open>Lemmas\<close>

lemma skip_leading_slash_eq: "skip_leading_slash p = dropWhile (\<lambda>c. c = slash) p"
  by (induction p) auto

lemma scan_elem_eq: "scan_elem p n = (dropWhile (\<lambda>c. c \<noteq> slash) p, n + length (takeWhile (\<lambda>c. c \<noteq> slash) p))"
  by (induction p n rule: scan_elem.induct) auto

lemma split_first_eq:
  "split_first path = (let s = dropWhile (\<lambda>c. c = slash) path in
     if s = [] then None else Some (takeWhile (\<lambda>c. c \<noteq> slash) s, dropWhile (\<lambda>c. c = slash) (dropWhile (\<lambda>c. c \<noteq> slash) s)))"
  by (simp add: split_first_def skip_leading_slash_eq scan_elem_eq Let_def takeWhile_eq_take [symmetric])

lemma split_first_shorter: "split_first path = Some (name, rest) \<Longrightarrow> length rest < length path"
proof -
  assume a: "split_first path = Some (name, rest)"
  let ?s = "dropWhile (\<lambda>c. c = slash) path"
  have s: "?s \<noteq> []" "rest = dropWhile (\<lambda>c. c = slash) (dropWhile (\<lambda>c. c \<noteq> slash) ?s)"
    using a by (auto simp: split_first_eq Let_def split: if_splits)
  obtain c cs where c: "?s = c # cs" using s(1) by (cases ?s) auto
  then have "c \<noteq> slash" using hd_dropWhile [of "\<lambda>c. c = slash" path] by auto
  then have "rest = dropWhile (\<lambda>c. c = slash) (dropWhile (\<lambda>c. c \<noteq> slash) cs)" using s(2) c by simp
  then have "length rest \<le> length cs"
    by (metis (no_types, lifting) le_trans length_dropWhile_le)
  moreover have "length (c # cs) \<le> length path" using c length_dropWhile_le [of "\<lambda>c. c = slash" path] by (simp only:)
  ultimately show ?thesis by simp
qed

text \<open>The names that the loop \<^verbatim>\<open>while let Some((name, path_)) = split_first(path)\<close> goes through.\<close>

function path_names :: "u8 list \<Rightarrow> u8 list list" where
  "path_names path = (case split_first path of None \<Rightarrow> [] | Some (name, rest) \<Rightarrow> name # path_names rest)"
  by auto
termination
  by (relation "measure length") (auto dest: split_first_shorter)

declare path_names.simps [simp del]

lemma pieces_not_Nil [simp]: "pieces p \<noteq> []"
  by (cases p) auto

lemma components_skip: "components (dropWhile (\<lambda>c. c = slash) p) = components p"
  by (induction p) (auto simp: components_def)

lemma pieces_cut:
  "pieces p = takeWhile (\<lambda>c. c \<noteq> slash) p # (case dropWhile (\<lambda>c. c \<noteq> slash) p of [] \<Rightarrow> [] | _ # cs \<Rightarrow> pieces cs)"
  by (induction p) (auto split: list.splits)

lemma components_step:
  assumes "p \<noteq> []" "hd p \<noteq> slash"
  shows "components p = takeWhile (\<lambda>c. c \<noteq> slash) p # components (dropWhile (\<lambda>c. c = slash) (dropWhile (\<lambda>c. c \<noteq> slash) p))"
proof -
  let ?d = "dropWhile (\<lambda>c. c \<noteq> slash) p"
  have "takeWhile (\<lambda>c. c \<noteq> slash) p \<noteq> []" using assms by (cases p) auto
  moreover have "components (dropWhile (\<lambda>c. c = slash) ?d) = filter (\<lambda>p. p \<noteq> []) (case ?d of [] \<Rightarrow> [] | _ # cs \<Rightarrow> pieces cs)"
  proof (cases ?d)
    case Nil
    then show ?thesis by (simp add: components_def del: dropWhile_eq_Nil_conv)
  next
    case (Cons c cs)
    then have "c = slash" using hd_dropWhile [of "\<lambda>c. c \<noteq> slash" p] by auto
    then show ?thesis using Cons components_skip [of cs] by (simp add: components_def)
  qed
  ultimately show ?thesis by (subst components_def, subst pieces_cut) simp
qed

lemma path_names_components: "path_names path = components path"
proof (induction path rule: path_names.induct)
  case (1 path)
  let ?s = "dropWhile (\<lambda>c. c = slash) path"
  show ?case
  proof (cases "?s = []")
    case True
    then show ?thesis using components_skip [of path] by (simp add: path_names.simps [of path] split_first_eq components_def del: dropWhile_eq_Nil_conv)
  next
    case False
    let ?rest = "dropWhile (\<lambda>c. c = slash) (dropWhile (\<lambda>c. c \<noteq> slash) ?s)"
    have e: "split_first path = Some (takeWhile (\<lambda>c. c \<noteq> slash) ?s, ?rest)" using False by (simp add: split_first_eq Let_def)
    have "hd ?s \<noteq> slash" using False hd_dropWhile [of "\<lambda>c. c = slash" path] by auto
    then have "components ?s = takeWhile (\<lambda>c. c \<noteq> slash) ?s # components ?rest" using components_step False by blast
    then show ?thesis using 1 [OF e refl] e components_skip [of path] by (simp add: path_names.simps [of path])
  qed
qed

lemma components_ok: "name \<in> set (components path) \<Longrightarrow> name \<noteq> [] \<and> slash \<notin> set name"
proof -
  have "\<forall>n \<in> set (pieces path). slash \<notin> set n"
    by (induction path) (auto dest: list.set_sel(2) [rotated] simp: hd_in_set)
  then show "name \<in> set (components path) \<Longrightarrow> name \<noteq> [] \<and> slash \<notin> set name" by (auto simp: components_def)
qed

text \<open>C32. The loop over \<^verbatim>\<open>split_first\<close> ends for every path, and the names it takes are exactly the non-empty pieces of
  the path between its slashes, in order: none is empty or contains a slash, and what remains after a
  name never begins with a slash.\<close>

theorem split_first_components:
  "path_names path = components path \<and> (\<forall>name \<in> set (path_names path). name \<noteq> [] \<and> slash \<notin> set name)
   \<and> (\<forall>name rest. split_first path = Some (name, rest) \<longrightarrow> length rest < length path \<and> (rest = [] \<or> hd rest \<noteq> slash))"
proof (intro conjI allI impI ballI)
  show "path_names path = components path" by (rule path_names_components)
  show "name \<noteq> []" "slash \<notin> set name" if "name \<in> set (path_names path)" for name
    using that components_ok [of name path] by (auto simp: path_names_components)
  show "length rest < length path" if "split_first path = Some (name, rest)" for name rest
    using split_first_shorter [OF that] .
  show "rest = [] \<or> hd rest \<noteq> slash" if "split_first path = Some (name, rest)" for name rest
    using that hd_dropWhile [of "\<lambda>c. c = slash" "dropWhile (\<lambda>c. c \<noteq> slash) (dropWhile (\<lambda>c. c = slash) path)"]
    by (auto simp: split_first_eq Let_def split: if_splits)
qed

theorem split_first_components_witness:
  "path_names [0x2F, 0x2F, 0x61, 0x2F, 0x2F, 0x62, 0x62] = [[0x61], [0x62, 0x62]]
   \<and> split_first [0x2F, 0x2F, 0x61, 0x2F, 0x2F, 0x62, 0x62] = Some ([0x61], [0x62, 0x62])"
  using split_first_components [of "[0x2F, 0x2F, 0x61, 0x2F, 0x2F, 0x62, 0x62]"]
  by (simp add: components_def split_first_def)

end
