(* ===== verification/Inode.thy ===== *)
theory Inode
  imports Bcache Paths
begin

text \<open>
  In-memory inodes: \<^verbatim>\<open>kernel/src/fs/inode.rs\<close> with the device table and directory entries of
  \<^verbatim>\<open>kernel/src/fs/mod.rs\<close>. An \<^verbatim>\<open>Arc<Inode>\<close> is the address of an allocation with a strong count; the cache keeps
  weak pointers, which keep the allocation but not the inode alive. The body of an inode is behind a
  sleep lock, identified by the same address.
\<close>

section \<open>Data\<close>

definition ROOT_DEV :: u32 where "ROOT_DEV = 1"
definition ROOT_INO :: u32 where "ROOT_INO = 1"
definition N_DIRECT :: nat where "N_DIRECT = 12"
definition N_DEV :: nat where "N_DEV = 10"
definition DIR_SIZE :: nat where "DIR_SIZE = 14"

datatype FileType = Invalid | Directory | File | Device

record InodeBody =
  ivalid :: bool
  itype :: FileType
  major :: u16
  minor :: u16
  nlink :: u16
  isize :: usize
  addrs :: "u32 list"

record Inode =
  idev :: u32
  inum :: u32
  ibody :: InodeBody

definition InodeBody_zero :: InodeBody where
  "InodeBody_zero = \<lparr>ivalid = False, itype = Invalid, major = 0, minor = 0, nlink = 0, isize = 0, addrs = replicate (N_DIRECT + 1) 0\<rparr>"

definition Inode_zero :: Inode where
  "Inode_zero = \<lparr>idev = 0, inum = 0, ibody = InodeBody_zero\<rparr>"

text \<open>
  A device has optional functions that fill or take a buffer and return the number of bytes or
  \<^verbatim>\<open>Error::InvalidArg\<close>.
\<close>

record Dev =
  dev_read :: "(u8 list \<Rightarrow> (u8 list \<times> (string + usize)) res) option"
  dev_write :: "(u8 list \<Rightarrow> (string + usize) res) option"

definition DEV_zero :: "Dev list" where
  "DEV_zero = replicate N_DEV \<lparr>dev_read = None, dev_write = None\<rparr>"

definition init_dev :: "u32 \<Rightarrow> Dev \<Rightarrow> Dev list \<Rightarrow> Dev list res" where
  "init_dev n d devs = (if unat n < length devs then Ok (devs[unat n := d]) else Fail (Panic ''index out of bounds''))"

definition CONSOLE :: u32 where "CONSOLE = 1"

section \<open>Reading\<close>

definition InodeBody_read :: "Dev list \<Rightarrow> InodeBody \<Rightarrow> u8 list \<Rightarrow> usize \<Rightarrow> (u8 list \<times> (string + usize)) res" where
  "InodeBody_read devs b dst off =
     (if itype b = Device
      then rbind (rassert (unat (major b) < N_DEV) ''assertion failed'') (\<lambda>_.
           rbind (rindex devs (unat (major b))) (\<lambda>d.
           rbind (rexpect (dev_read d) ''read function undefined'') (\<lambda>f. f dst)))
      else let n = of_nat (length dst) in
        if off > isize b \<or> off + n < off then Ok (dst, Inl ''offset'') else Fail Todo)"

definition InodeBody_write :: "InodeBody \<Rightarrow> u8 list \<Rightarrow> usize \<Rightarrow> (string + usize) res" where
  "InodeBody_write b src off = Fail Todo"

text \<open>
  A directory entry in memory has 16 bytes, a 16-bit inode number and a name of 14 bytes. The loop of
  \<^verbatim>\<open>dir_lookup\<close> reads one entry after the other into the same buffer; \<open>rd\<close> is the read function of the
  directory.
\<close>

definition de_inum :: "u8 list \<Rightarrow> u16" where
  "de_inum e = ucast (e ! 0) OR push_bit 8 (ucast (e ! 1))"

definition de_name :: "u8 list \<Rightarrow> u8 list" where
  "de_name e = take DIR_SIZE (drop 2 e)"

function dir_scan :: "(u8 list \<Rightarrow> usize \<Rightarrow> (u8 list \<times> (string + usize)) res) \<Rightarrow> usize \<Rightarrow> u8 list \<Rightarrow> u8 list \<Rightarrow> usize \<Rightarrow>
    (u16 \<times> usize) option res" where
  "dir_scan rd sz name buf off =
     (if off < sz
      then rbind (rd buf off) (\<lambda>(de, r). case r of
          Inl _ \<Rightarrow> Fail (Panic ''called Result::unwrap() on an Err value'')
        | Inr n \<Rightarrow> if n \<noteq> 16 then Fail (Panic ''dir_loolup: read'')
            else if de_inum de \<noteq> 0 \<and> name = de_name de then Ok (Some (de_inum de, off))
            else rbind (checked_add off 16) (dir_scan rd sz name de))
      else Ok None)"
  by auto
termination
proof (relation "measure (\<lambda>(rd, sz, name, buf, off). 2 ^ 32 - unat off)", goal_cases)
  case 1
  then show ?case by simp
next
  case (2 rd sz name buf off x a b n m)
  then show ?case using unat_less32 [of off] by (auto dest!: checked_add_OkD)
qed

declare dir_scan.simps [simp del]

section \<open>The inode cache\<close>

record 'h ist =
  icache :: "u32 \<times> u32 \<rightharpoonup> usize"
  ic_lock :: usize
  inodes :: "usize \<rightharpoonup> usize \<times> Inode"
  devs :: "Dev list"
  bc :: "'h bst"

definition Icache_new :: "'h ist \<Rightarrow> 'h ist" where
  "Icache_new t = t\<lparr>icache := Map.empty\<rparr>"

definition in_bc :: "('h bst \<Rightarrow> ('a \<times> 'h bst) res) \<Rightarrow> 'h ist \<Rightarrow> ('a \<times> 'h ist) res" where
  "in_bc f t = rbind (f (bc t)) (\<lambda>(r, b). Ok (r, t\<lparr>bc := b\<rparr>))"

abbreviation in_kern :: "('h pst \<Rightarrow> 'h pst res) \<Rightarrow> 'h ist \<Rightarrow> 'h ist res" where
  "in_kern f t \<equiv> rbind (on_kern f (bc t)) (\<lambda>b. Ok (t\<lparr>bc := b\<rparr>))"

definition deref_inode :: "usize \<Rightarrow> 'h ist \<Rightarrow> (usize \<times> Inode) res" where
  "deref_inode a t = (case inodes t a of None \<Rightarrow> Fail (Undefined ''no inode here'') | Some x \<Rightarrow> Ok x)"

text \<open>\<^verbatim>\<open>Weak::upgrade\<close> and \<^verbatim>\<open>Arc::clone\<close>: counts above \<open>isize::MAX\<close> abort.\<close>

definition upgrade :: "usize \<Rightarrow> 'h ist \<Rightarrow> (usize option \<times> 'h ist) res" where
  "upgrade a t = rbind (deref_inode a t) (\<lambda>(n, x).
     if n = 0 then Ok (None, t)
     else if n > 0x7FFFFFFF then Fail (Panic ''Arc counter overflow'')
     else Ok (Some a, t\<lparr>inodes := (inodes t)(a \<mapsto> (n + 1, x))\<rparr>))"

definition arc_clone :: "usize \<Rightarrow> 'h ist \<Rightarrow> 'h ist res" where
  "arc_clone a t = rbind (deref_inode a t) (\<lambda>(n, x).
     if n > 0x7FFFFFFF then Fail (Panic ''Arc counter overflow'') else Ok (t\<lparr>inodes := (inodes t)(a \<mapsto> (n + 1, x))\<rparr>))"

text \<open>\<^verbatim>\<open>Arc::new\<close> of an inode, and the drop of the weak pointer that the new one replaces, which frees the allocation.\<close>

definition arc_new :: "'h page_alloc \<Rightarrow> Inode \<Rightarrow> 'h ist \<Rightarrow> (usize \<times> 'h ist) res" where
  "arc_new al x t = (let b = bc t in
     rbind (heap_alloc al (kvm (kern b))) (\<lambda>(a, v).
     if inodes t a \<noteq> None then Fail (Undefined ''allocated twice'')
     else case SleepLock_new a (mutexes b, (kern b)\<lparr>kvm := v\<rparr>) of (m, s) \<Rightarrow>
       Ok (a, t\<lparr>inodes := (inodes t)(a \<mapsto> (1, x)), bc := b\<lparr>mutexes := m, kern := s\<rparr>\<rparr>)))"

definition drop_weak :: "(usize \<Rightarrow> 'h \<Rightarrow> 'h) \<Rightarrow> usize option \<Rightarrow> 'h ist \<Rightarrow> 'h ist" where
  "drop_weak fr w t = (case w of None \<Rightarrow> t
     | Some a \<Rightarrow> t\<lparr>inodes := (inodes t)(a := None), bc := (bc t)\<lparr>kern := (kern (bc t))\<lparr>kvm := (kvm (kern (bc t)))\<lparr>heap := fr a (heap (kvm (kern (bc t))))\<rparr>\<rparr>\<rparr>\<rparr>)"

definition icache_get :: "'h page_alloc \<Rightarrow> (usize \<Rightarrow> 'h \<Rightarrow> 'h) \<Rightarrow> u32 \<times> u32 \<Rightarrow> 'h ist \<Rightarrow> (usize \<times> 'h ist) res" where
  "icache_get al fr key t =
     rbind (case icache t key of None \<Rightarrow> Ok (None, t) | Some w \<Rightarrow> upgrade w t) (\<lambda>(r, t1). case r of
       Some a \<Rightarrow> Ok (a, t1)
     | None \<Rightarrow> rbind (arc_new al (Inode_zero\<lparr>idev := fst key, inum := snd key\<rparr>) t1) (\<lambda>(a, t2).
         Ok (a, drop_weak fr (icache t2 key) (t2\<lparr>icache := (icache t2)(key \<mapsto> a)\<rparr>))))"

definition locked_get :: "u8 \<Rightarrow> 'h page_alloc \<Rightarrow> (usize \<Rightarrow> 'h \<Rightarrow> 'h) \<Rightarrow> u32 \<times> u32 \<Rightarrow> 'h ist \<Rightarrow> (usize \<times> 'h ist) res" where
  "locked_get me al fr key t =
     rbind (in_kern (acquire me (ic_lock t)) t) (\<lambda>t1.
     rbind (icache_get al fr key t1) (\<lambda>(a, t2).
     rbind (in_kern (release me (ic_lock t2)) t2) (\<lambda>t3. Ok (a, t3))))"

text \<open>The lock of the body of an inode, its release, and the drop of an \<^verbatim>\<open>Arc<Inode>\<close> with \<^verbatim>\<open>Inode::drop\<close>.\<close>

abbreviation body_lock :: "u8 \<Rightarrow> usize \<Rightarrow> usize \<Rightarrow> 'h ist \<Rightarrow> (unit outcome \<times> 'h ist) res" where
  "body_lock me chan a \<equiv> in_bc (on_mutexes (sl_acquire me chan a))"

abbreviation body_unlock :: "u8 \<Rightarrow> usize \<Rightarrow> usize \<Rightarrow> 'h ist \<Rightarrow> (unit \<times> 'h ist) res" where
  "body_unlock me chan a \<equiv> in_bc (on_mutexes (\<lambda>c. rbind (sl_release me chan a c) (\<lambda>c1. Ok ((), c1))))"

definition Inode_drop :: "u8 \<Rightarrow> usize \<Rightarrow> usize \<Rightarrow> 'h ist \<Rightarrow> (unit outcome \<times> 'h ist) res" where
  "Inode_drop me chan a t = rbind (body_lock me chan a t) (\<lambda>(r, t1). case r of
     Waits w \<Rightarrow> Ok (Waits w, t1)
   | Done _ \<Rightarrow> rbind (deref_inode a t1) (\<lambda>(n, x).
       if ivalid (ibody x) \<and> nlink (ibody x) = 0 then Fail Todo
       else rbind (body_unlock me chan a t1) (\<lambda>(_, t2). Ok (Done (), t2))))"

definition arc_drop :: "u8 \<Rightarrow> usize \<Rightarrow> usize \<Rightarrow> 'h ist \<Rightarrow> (unit outcome \<times> 'h ist) res" where
  "arc_drop me chan a t = rbind (deref_inode a t) (\<lambda>(n, x).
     let t1 = t\<lparr>inodes := (inodes t)(a \<mapsto> (n - 1, x))\<rparr> in
     if n = 1 then Inode_drop me chan a t1 else Ok (Done (), t1))"

text \<open>
  \<^verbatim>\<open>Inode::trunc\<close>. Whatever block it has to free, \<^verbatim>\<open>free_disk_block\<close> is not written yet, and neither is the update
  of the inode at its end.
\<close>

definition free_disk_block :: "u32 \<Rightarrow> u32 \<Rightarrow> unit res" where
  "free_disk_block dev blk = Fail Todo"

fun free_direct :: "u32 \<Rightarrow> u32 list \<Rightarrow> u32 list res" where
  "free_direct dev [] = Ok []"
| "free_direct dev (a # as) = rbind (if a \<noteq> 0 then free_disk_block dev a else Ok ()) (\<lambda>_.
     rbind (free_direct dev as) (\<lambda>bs. Ok (0 # bs)))"

definition trunc :: "u8 \<Rightarrow> 'h page_alloc \<Rightarrow> usize \<Rightarrow> (usize \<Rightarrow> u32 list) \<Rightarrow> usize \<Rightarrow> 'h ist \<Rightarrow> (unit outcome \<times> 'h ist) res" where
  "trunc me al chan slots_at a t = rbind (body_lock me chan a t) (\<lambda>(r, t1). case r of
     Waits w \<Rightarrow> Ok (Waits w, t1)
   | Done _ \<Rightarrow> rbind (deref_inode a t1) (\<lambda>(n, x).
       rbind (free_direct (idev x) (take N_DIRECT (addrs (ibody x)))) (\<lambda>_.
       let indirect = addrs (ibody x) ! N_DIRECT in
       if indirect \<noteq> 0
       then rbind (in_bc (bcache_read me al chan (idev x) indirect) t1) (\<lambda>(r2, t2). case r2 of
           Waits w \<Rightarrow> Ok (Waits w, t2)
         | Done b \<Rightarrow> rbind (free_direct (idev x) (slots_at b)) (\<lambda>_. rbind (free_disk_block (idev x) indirect) (\<lambda>_. Fail Todo)))
       else Fail Todo)))"

section \<open>Path lookup\<close>

definition dir_lookup :: "u8 \<Rightarrow> 'h page_alloc \<Rightarrow> (usize \<Rightarrow> 'h \<Rightarrow> 'h) \<Rightarrow> u32 \<Rightarrow> InodeBody \<Rightarrow> u8 list \<Rightarrow> 'h ist \<Rightarrow>
    ((usize \<times> usize) option \<times> 'h ist) res" where
  "dir_lookup me al fr dev dir name t =
     (if itype dir \<noteq> Directory then Fail (Panic ''not directory'')
      else rbind (dir_scan (InodeBody_read (devs t) dir) (isize dir) name (replicate 16 0) 0) (\<lambda>r. case r of
          None \<Rightarrow> Ok (None, t)
        | Some (ino, off) \<Rightarrow> rbind (locked_get me al fr (dev, ucast ino) t) (\<lambda>(a, t1). Ok (Some (a, off), t1))))"

text \<open>
  The loop of \<^verbatim>\<open>name_x\<close>. Leaving it early drops the guard of the body and then the reference to the inode.
\<close>

definition unlock_drop :: "u8 \<Rightarrow> usize \<Rightarrow> usize \<Rightarrow> 'a \<Rightarrow> 'h ist \<Rightarrow> ('a outcome \<times> 'h ist) res" where
  "unlock_drop me chan ip r t = rbind (body_unlock me chan ip t) (\<lambda>(_, t1).
     rbind (arc_drop me chan ip t1) (\<lambda>(d, t2). case d of Waits w \<Rightarrow> Ok (Waits w, t2) | Done _ \<Rightarrow> Ok (Done r, t2)))"

function name_loop :: "u8 \<Rightarrow> 'h page_alloc \<Rightarrow> (usize \<Rightarrow> 'h \<Rightarrow> 'h) \<Rightarrow> usize \<Rightarrow> bool \<Rightarrow> usize \<Rightarrow> u8 list \<Rightarrow> 'h ist \<Rightarrow>
    (usize option outcome \<times> 'h ist) res" where
  "name_loop me al fr chan iparent ip path t = (case split_first path of
     None \<Rightarrow> if iparent then rbind (arc_drop me chan ip t) (\<lambda>(d, t1). case d of Waits w \<Rightarrow> Ok (Waits w, t1) | Done _ \<Rightarrow> Ok (Done None, t1))
       else Ok (Done (Some ip), t)
   | Some (name, rest) \<Rightarrow>
       rbind (body_lock me chan ip t) (\<lambda>(r, t1). case r of
         Waits w \<Rightarrow> Ok (Waits w, t1)
       | Done _ \<Rightarrow> rbind (deref_inode ip t1) (\<lambda>(n, x).
           if itype (ibody x) \<noteq> Directory then unlock_drop me chan ip None t1
           else if iparent \<and> rest = [] then rbind (body_unlock me chan ip t1) (\<lambda>(_, t2). Ok (Done (Some ip), t2))
           else rbind (dir_lookup me al fr (idev x) (ibody x) name t1) (\<lambda>(q, t2). case q of
               None \<Rightarrow> unlock_drop me chan ip None t2
             | Some (nxt, _) \<Rightarrow> rbind (unlock_drop me chan ip () t2) (\<lambda>(d, t3). case d of
                 Waits w \<Rightarrow> Ok (Waits w, t3)
               | Done _ \<Rightarrow> name_loop me al fr chan iparent nxt rest t3)))))"
  by auto
termination
  by (relation "measure (\<lambda>(me, al, fr, chan, iparent, ip, path, t). length path)") (auto dest: split_first_shorter)

declare name_loop.simps [simp del]

definition cwd_of :: "u8 \<Rightarrow> 'h pst \<Rightarrow> (usize \<times> 'h pst) res" where
  "cwd_of me s = rbind (my_proc me s) (\<lambda>(p, s1).
     with_lock me p (\<lambda>s2. rbind (deref_proc p s2) (\<lambda>q.
       rbind (rexpect (cwd q) ''called Option::unwrap() on a None value'') (\<lambda>a. Ok (a, s2)))) s1)"

definition name_x :: "u8 \<Rightarrow> 'h page_alloc \<Rightarrow> (usize \<Rightarrow> 'h \<Rightarrow> 'h) \<Rightarrow> usize \<Rightarrow> u8 list \<Rightarrow> bool \<Rightarrow> 'h ist \<Rightarrow> (usize option outcome \<times> 'h ist) res" where
  "name_x me al fr chan path iparent t =
     rbind (if path = [slash] then locked_get me al fr (ROOT_DEV, ROOT_INO) t
            else rbind (cwd_of me (kern (bc t))) (\<lambda>(a, s).
              rbind (arc_clone a (t\<lparr>bc := (bc t)\<lparr>kern := s\<rparr>\<rparr>)) (\<lambda>t1. Ok (a, t1))))
       (\<lambda>(ip, t1). name_loop me al fr chan iparent ip path t1)"

definition from_name :: "u8 \<Rightarrow> 'h page_alloc \<Rightarrow> (usize \<Rightarrow> 'h \<Rightarrow> 'h) \<Rightarrow> usize \<Rightarrow> u8 list \<Rightarrow> 'h ist \<Rightarrow> (usize option outcome \<times> 'h ist) res" where
  "from_name me al fr chan path t = name_x me al fr chan path False t"

section \<open>Identity of inodes\<close>

definition inodes_ok :: "'h ist \<Rightarrow> bool" where
  "inodes_ok t \<longleftrightarrow> (\<forall>k a. icache t k = Some a \<longrightarrow> (\<exists>n x. inodes t a = Some (n, x) \<and> idev x = fst k \<and> inum x = snd k))"

text \<open>The live inode of a key.\<close>

definition inode_of :: "'h ist \<Rightarrow> u32 \<times> u32 \<Rightarrow> usize option" where
  "inode_of t k = (case icache t k of None \<Rightarrow> None | Some a \<Rightarrow>
     (case inodes t a of None \<Rightarrow> None | Some (n, x) \<Rightarrow> if n = 0 then None else Some a))"

lemma inode_of_bc [simp]: "inode_of (t\<lparr>bc := b\<rparr>) = inode_of t"
  by (rule ext) (simp add: inode_of_def split: option.split)

lemma inodes_okD: "inodes_ok t \<Longrightarrow> icache t k = Some a \<Longrightarrow> \<exists>n x. inodes t a = Some (n, x) \<and> idev x = fst k \<and> inum x = snd k"
  by (simp add: inodes_ok_def del: split_paired_All)

lemma inodes_ok_inj: "inodes_ok t \<Longrightarrow> icache t k = Some a \<Longrightarrow> icache t k' = Some a \<Longrightarrow> k = k'"
  using inodes_okD [of t k a] inodes_okD [of t k' a] by (auto intro: prod_eqI)

lemma arc_new_Ok:
  assumes "arc_new al x t = Inr (a, t')"
  shows "inodes t a = None" "inodes t' = (inodes t)(a \<mapsto> (1, x))" "icache t' = icache t"
  using assms by (cases "inodes t a"; auto simp: arc_new_def Let_def rbind_Ok_iff SleepLock_new_def split: if_splits)+

lemma drop_weak_sel [simp]:
  "icache (drop_weak fr w t) = icache t" "inodes (drop_weak fr w t) = (case w of None \<Rightarrow> inodes t | Some a \<Rightarrow> (inodes t)(a := None))"
  by (auto simp: drop_weak_def split: option.splits)

lemma icache_get_cases:
  assumes "inodes_ok t" "icache_get al fr key t = Inr (a, t')"
  obtains (hit) n x where "icache t key = Some a" "inodes t a = Some (n, x)" "n \<noteq> 0" "n \<le> 0x7FFFFFFF"
      "t' = t\<lparr>inodes := (inodes t)(a \<mapsto> (n + 1, x))\<rparr>"
  | (miss) t1 where "inode_of t key = None" "inodes t a = None" "arc_new al (Inode_zero\<lparr>idev := fst key, inum := snd key\<rparr>) t = Inr (a, t1)"
      "t' = drop_weak fr (icache t key) (t1\<lparr>icache := (icache t)(key \<mapsto> a)\<rparr>)"
proof (cases "inode_of t key")
  case None
  have u: "(case icache t key of None \<Rightarrow> Ok (None, t) | Some w \<Rightarrow> upgrade w t) = Inr (None, t)"
  proof (cases "icache t key")
    case (Some w)
    obtain n x where "inodes t w = Some (n, x)" using inodes_okD [OF assms(1) Some] by auto
    then show ?thesis using None Some by (auto simp: inode_of_def upgrade_def deref_inode_def split: if_splits)
  qed simp
  then obtain t1 where t1: "arc_new al (Inode_zero\<lparr>idev := fst key, inum := snd key\<rparr>) t = Inr (a, t1)"
      "t' = drop_weak fr (icache t1 key) (t1\<lparr>icache := (icache t1)(key \<mapsto> a)\<rparr>)"
    using assms(2) by (auto simp: icache_get_def rbind_Ok_iff)
  show ?thesis by (rule miss [OF None arc_new_Ok(1) [OF t1(1)] t1(1)]) (simp add: t1(2) arc_new_Ok(3) [OF t1(1)])
next
  case (Some w)
  then obtain n x where w: "icache t key = Some w" "inodes t w = Some (n, x)" "n \<noteq> 0"
    by (auto simp: inode_of_def split: option.splits if_splits prod.splits)
  then have "a = w \<and> n \<le> 0x7FFFFFFF \<and> t' = t\<lparr>inodes := (inodes t)(w \<mapsto> (n + 1, x))\<rparr>"
    using assms(2) by (auto simp: icache_get_def upgrade_def deref_inode_def rbind_Ok_iff split: if_splits)
  then show ?thesis using hit w by blast
qed

lemma inode_of_cong:
  "icache t' k = icache t k \<Longrightarrow> \<forall>b. icache t k = Some b \<longrightarrow> inodes t' b = inodes t b \<Longrightarrow> inode_of t' k = inode_of t k"
  by (auto simp: inode_of_def split: option.splits)

text \<open>What a \<^verbatim>\<open>get\<close> changes: the entry of its key, and no other inode that the cache knows.\<close>

lemma inodes_ok_change:
  assumes ok: "inodes_ok t" and c: "icache t' = (icache t)(key \<mapsto> a)" "inodes t' a = Some (n, x)" "n \<noteq> 0" "idev x = fst key" "inum x = snd key"
    and other: "\<forall>k b. icache t k = Some b \<and> k \<noteq> key \<longrightarrow> inodes t' b = inodes t b"
  shows "inodes_ok t'" "inode_of t' = (inode_of t)(key \<mapsto> a)"
proof -
  have o: "inodes t' b = inodes t b" if "icache t k = Some b" "k \<noteq> key" for k b
    using other that by (simp del: split_paired_All)
  show "inodes_ok t'"
    unfolding inodes_ok_def
  proof (intro allI impI)
    fix k b
    assume "icache t' k = Some b"
    then show "\<exists>n x. inodes t' b = Some (n, x) \<and> idev x = fst k \<and> inum x = snd k"
      using c inodes_okD [OF ok, of k b] o [of k b] by (cases "k = key") auto
  qed
  show "inode_of t' = (inode_of t)(key \<mapsto> a)"
  proof
    show "inode_of t' k = ((inode_of t)(key \<mapsto> a)) k" for k
      using c o [of k] inode_of_cong [of t' k t] by (cases "k = key") (auto simp: inode_of_def)
  qed
qed

lemma inodes_ok_get:
  assumes ok: "inodes_ok t" and g: "icache_get al fr key t = Inr (a, t')"
  shows "inodes_ok t' \<and> inode_of t' = (inode_of t)(key \<mapsto> a)"
  using ok g
proof (cases rule: icache_get_cases)
  case (hit n x)
  have "icache t key = Some a" "n + 1 \<noteq> 0" using hit(1,4) by (auto simp: word_le_nat_alt unat_word_ariths dest: arg_cong [of _ _ unat])
  then have "icache t' = (icache t)(key \<mapsto> a)" "inodes t' a = Some (n + 1, x)" using hit(5) by auto
  moreover have "idev x = fst key" "inum x = snd key" using inodes_okD [OF ok hit(1)] hit(2) by auto
  moreover have "inodes t' b = inodes t b" if "icache t k = Some b" "k \<noteq> key" for k b
    using that inodes_ok_inj [OF ok that(1), of key] hit(1,5) by auto
  ultimately show ?thesis using inodes_ok_change [OF ok] \<open>n + 1 \<noteq> 0\<close> by blast
next
  case (miss t1)
  note N = arc_new_Ok [OF miss(3)]
  have w: "w \<noteq> a" if "icache t k = Some w" for k w using inodes_okD [OF ok that] N(1) by auto
  have "inodes t' a = Some (1, Inode_zero\<lparr>idev := fst key, inum := snd key\<rparr>)" "icache t' = (icache t)(key \<mapsto> a)"
    using miss(4) N(2) w [of key] by (auto split: option.splits)
  moreover have "\<forall>k b. icache t k = Some b \<and> k \<noteq> key \<longrightarrow> inodes t' b = inodes t b"
  proof (intro allI impI, elim conjE)
    fix k b
    assume that: "icache t k = Some b" "k \<noteq> key"
    show "inodes t' b = inodes t b"
      using miss(4) N(2) w [OF that(1)] that inodes_ok_inj [OF ok that(1), of key] by (auto split: option.splits)
  qed
  ultimately show ?thesis using inodes_ok_change [OF ok, of t' key a 1 "Inode_zero\<lparr>idev := fst key, inum := snd key\<rparr>"] by (simp del: split_paired_All)
qed

interpretation ic: keyed_cache inodes_ok inode_of "icache_get al fr" for al :: "'h page_alloc" and fr
proof
  fix t t' :: "'h ist" and k k' a b
  assume ok: "inodes_ok t"
  show "inodes_ok t'" "inode_of t' = (inode_of t)(k \<mapsto> a)" if "icache_get al fr k t = Inr (a, t')"
    using inodes_ok_get [OF ok that] by simp_all
  show "a = b" if "inode_of t k = Some b" "icache_get al fr k t = Inr (a, t')"
    using ok that(2) by (cases rule: icache_get_cases) (use that(1) in \<open>auto simp: inode_of_def split: option.splits if_splits\<close>)
  show "k = k'" if "inode_of t k = Some a" "inode_of t k' = Some a"
    using that inodes_ok_inj [OF ok, of k a k'] by (auto simp: inode_of_def split: option.splits if_splits)
qed

text \<open>Success of \<^verbatim>\<open>get\<close>: while there is memory and no inode has more than \<open>m\<close> references.\<close>

definition inodes_live :: "('h \<Rightarrow> usize set) \<Rightarrow> nat \<Rightarrow> 'h ist \<Rightarrow> bool" where
  "inodes_live live m t \<longleftrightarrow> finite (live (heap (kvm (kern (bc t))))) \<and> dom (inodes t) \<subseteq> live (heap (kvm (kern (bc t))))
     \<and> (\<forall>a n x. inodes t a = Some (n, x) \<longrightarrow> unat n \<le> m)"

lemma arc_new_ok:
  assumes al: "box_alloc_ok al fr live cap" and l: "inodes_live live m t" "n_live live (bc t) < cap"
  shows "\<exists>a t'. arc_new al x t = Inr (a, t') \<and> live (heap (kvm (kern (bc t')))) = insert a (live (heap (kvm (kern (bc t)))))"
proof -
  obtain a h' where a: "al (heap (kvm (kern (bc t)))) = Some (a, h')" "a \<notin> live (heap (kvm (kern (bc t))))"
      "live h' = insert a (live (heap (kvm (kern (bc t)))))"
    using al l unfolding box_alloc_ok_def inodes_live_def by meson
  then have "inodes t a = None" using l(1) by (auto simp: inodes_live_def)
  then show ?thesis using a by (auto simp: arc_new_def heap_alloc_def SleepLock_new_def Let_def)
qed

lemma icache_get_ok:
  assumes al: "box_alloc_ok al fr live cap" and l: "inodes_live live m t" "n_live live (bc t) < cap" "m < 0x7FFFFFFF" and ok: "inodes_ok t"
  shows "\<exists>a t'. icache_get al fr key t = Inr (a, t') \<and> inodes_live live (Suc m) t' \<and> n_live live (bc t') \<le> Suc (n_live live (bc t))"
proof (cases "inode_of t key")
  case (Some a)
  then obtain n x where a: "icache t key = Some a" "inodes t a = Some (n, x)" "n \<noteq> 0"
    by (auto simp: inode_of_def split: option.splits if_splits prod.splits)
  have n: "unat n \<le> m" using l(1) a(2) by (auto simp: inodes_live_def)
  then have "n \<le> 0x7FFFFFFF" "unat (n + 1) = unat n + 1" using l(3) by (auto simp: word_le_nat_alt unat_word_ariths)
  then show ?thesis
    using a l n by (auto simp: icache_get_def upgrade_def deref_inode_def inodes_live_def le_SucI)
next
  case None
  let ?x = "Inode_zero\<lparr>idev := fst key, inum := snd key\<rparr>"
  have u: "(case icache t key of None \<Rightarrow> Ok (None, t) | Some w \<Rightarrow> upgrade w t) = Inr (None, t)"
    using None inodes_okD [OF ok, of key] by (auto simp: inode_of_def upgrade_def deref_inode_def split: option.splits if_splits)
  obtain a t1 where t1: "arc_new al ?x t = Inr (a, t1)" "live (heap (kvm (kern (bc t1)))) = insert a (live (heap (kvm (kern (bc t)))))"
    using arc_new_ok [OF al l(1,2)] by blast
  note N = arc_new_Ok [OF t1(1)]
  let ?t = "drop_weak fr (icache t1 key) (t1\<lparr>icache := (icache t1)(key \<mapsto> a)\<rparr>)"
  have g: "icache_get al fr key t = Inr (a, ?t)" using u t1(1) by (simp add: icache_get_def)
  have w: "w \<noteq> a" if "icache t key = Some w" for w using inodes_okD [OF ok that] N(1) by auto
  have fr: "live (fr b h) = live h - {b}" for b h using al by (auto simp: box_alloc_ok_def)
  have lv: "live (heap (kvm (kern (bc ?t)))) = insert a (live (heap (kvm (kern (bc t))))) - set_option (icache t key)"
    using t1(2) N(3) fr by (auto simp: drop_weak_def split: option.splits)
  have "unat n \<le> Suc m" if "inodes t b = Some (n, x)" for b n x
    using l(1) that unfolding inodes_live_def by (metis le_SucI)
  then have "inodes_live live (Suc m) ?t"
    using l(1) N w unfolding inodes_live_def lv by (auto split: option.splits if_splits)
  moreover have "n_live live (bc ?t) \<le> Suc (n_live live (bc t))"
  proof -
    have f: "finite (live (heap (kvm (kern (bc t)))))" using l(1) by (simp add: inodes_live_def)
    have "n_live live (bc ?t) \<le> card (insert a (live (heap (kvm (kern (bc t))))))"
      unfolding lv using f by (intro card_mono) auto
    also have "\<dots> \<le> Suc (n_live live (bc t))" using f by (simp add: card_insert_if)
    finally show ?thesis .
  qed
  ultimately show ?thesis using g by blast
qed

lemma get_all_ok:
  assumes al: "box_alloc_ok al fr live cap"
  shows "inodes_ok t \<Longrightarrow> inodes_live live m t \<Longrightarrow> n_live live (bc t) + length ks \<le> cap \<Longrightarrow> m + length ks \<le> 0x7FFFFFFF \<Longrightarrow>
    \<exists>as t'. get_all (icache_get al fr) ks t = Inr (as, t')"
proof (induction ks arbitrary: t m)
  case (Cons k ks)
  have "n_live live (bc t) < cap" "m < 0x7FFFFFFF" using Cons.prems(3,4) by simp_all
  then obtain a t1 where t1: "icache_get al fr k t = Inr (a, t1)" "inodes_live live (Suc m) t1" "n_live live (bc t1) \<le> Suc (n_live live (bc t))"
    using icache_get_ok [OF al Cons.prems(2) _ _ Cons.prems(1)] by blast
  have "inodes_ok t1" using inodes_ok_get [OF Cons.prems(1) t1(1)] by simp
  then obtain as t2 where "get_all (icache_get al fr) ks t1 = Inr (as, t2)" using Cons.IH [OF _ t1(2)] Cons.prems(3,4) t1(3) by auto
  then show ?case using t1(1) by simp
qed simp

text \<open>C33. Inodes have one identity in memory. Starting from an empty cache with enough memory, any sequence of \<^verbatim>\<open>get\<close>
  succeeds, and two of the references it returns are the same inode exactly when they were asked for with
  the same device and inode number.\<close>

theorem inode_identity:
  assumes "box_alloc_ok al fr live cap" "finite (live (heap (kvm (kern (bc t)))))" "inodes t = Map.empty"
    and "n_live live (bc t) + length ks \<le> cap" "length ks \<le> 0x7FFFFFFF"
  shows "\<exists>as t'. get_all (icache_get al fr) ks (Icache_new t) = Inr (as, t') \<and> length as = length ks
    \<and> (\<forall>i < length ks. \<forall>j < length ks. as ! i = as ! j \<longleftrightarrow> ks ! i = ks ! j)"
proof -
  have ok: "inodes_ok (Icache_new t)" "inodes_live live 0 (Icache_new t)"
    using assms(2,3) by (auto simp: inodes_ok_def inodes_live_def Icache_new_def)
  obtain as t' where g: "get_all (icache_get al fr) ks (Icache_new t) = Inr (as, t')"
    using get_all_ok [OF assms(1) ok, of ks] assms(4,5) by (auto simp: Icache_new_def)
  show ?thesis using g ic.get_all_lookup [OF ok(1) g] ic.get_all_identity [OF ok(1) g] by blast
qed

definition demo_ist :: "usize list ist" where
  "demo_ist = \<lparr>icache = Map.empty, ic_lock = 0x80B00200, inodes = Map.empty, devs = DEV_zero, bc = demo_bst\<rparr>"

theorem inode_identity_witness:
  "\<exists>a b t'. get_all (icache_get demo_boxes removeAll) [(1, 1), (1, 1)] (Icache_new demo_ist) = Inr ([a, b], t') \<and> a = b"
proof -
  have h: "finite (set (heap (kvm (kern (bc demo_ist)))))" "inodes demo_ist = Map.empty" "n_live set (bc demo_ist) + length [(1, 1), (1, 1) :: u32 \<times> u32] \<le> 4"
    by (simp_all add: demo_ist_def demo_bst_ok)
  obtain as t' where "get_all (icache_get demo_boxes removeAll) [(1, 1), (1, 1)] (Icache_new demo_ist) = Inr (as, t')" "length as = 2" "as ! 0 = as ! 1"
    using inode_identity [OF demo_boxes_ok h] by fastforce
  moreover obtain a b where "as = [a, b]" using calculation(2) by (cases as; cases "tl as") auto
  ultimately show ?thesis by auto
qed

section \<open>Finding the working directory and the root\<close>

lemma my_proc_quiet:
  assumes "depth s me i n" "current_proc (priv s i) = Some p"
  shows "my_proc me s = Inr (p, remembered me i s)" "quiet me i n {} s (remembered me i s)"
proof -
  show "my_proc me s = Inr (p, remembered me i s)" by (rule my_proc_depth [OF assms])
  have "depth (remembered me i s) me i n"
    using depth_set_priv [OF assms(1), of "saved me i s"] depthD(2) [OF assms(1)] by (simp add: remembered_def saved_def)
  moreover have "priv (remembered me i s) i = saved me i s" using depthD(1) [OF assms(1)] by (simp add: remembered_def priv_set_priv)
  ultimately show "quiet me i n {} s (remembered me i s)"
    by (simp add: quiet_def) (simp add: remembered_def set_priv_def)
qed

lemma cwd_of_quiet:
  assumes d: "depth s me i n" "n < 97" and p: "current_proc (priv s i) = Some p" "procs s p = Some q" "\<not> locked (spin s p)"
  shows "cwd q = Some a \<Longrightarrow> \<exists>s'. cwd_of me s = Inr (a, s') \<and> quiet me i n {p} s s'"
proof -
  assume a: "cwd q = Some a"
  note M = my_proc_quiet [OF d(1) p(1)]
  let ?r = "remembered me i s"
  note Q = quietD [OF M(2)]
  have f: "\<not> locked (spin ?r p)" using Q(2) p(3) by simp
  note A = acquired_facts [OF Q(1) d(2) f]
  note R = release_depth [OF A(2,3)]
  have "procs (acquired me p i ?r) p = Some q" using pst_more(1) [OF A(6)] Q(4) p(2) by simp
  then have "cwd_of me s = Inr (a, let_go me p i (acquired me p i ?r))"
    using M(1) A(1) R(1) a by (simp add: cwd_of_def with_lock_def deref_proc_def)
  moreover have "quiet me i n {p} ?r (let_go me p i (acquired me p i ?r))"
    using R(2,3,4) A(4,5) pst_more [OF trans [OF R(5) A(6)]] by (auto simp: quiet_def)
  ultimately show ?thesis using quiet_trans [OF M(2)] by fastforce
qed

lemma names_root: "split_first [slash] = None"
  by (simp add: split_first_def)

text \<open>A \<^verbatim>\<open>get\<close> changes the kernel state only in the heap and in the spin lock of a new inode.\<close>

lemma icache_get_kern:
  assumes al: "box_alloc_ok al fr live cap" and l: "inodes_live live m t" "n_live live (bc t) < cap" and ok: "inodes_ok t"
    and g: "icache_get al fr key t = Inr (a, t')"
  shows "\<exists>v sp. kern (bc t') = (kern (bc t))\<lparr>kvm := v, spin := sp\<rparr> \<and> (\<forall>x \<in> live (heap (kvm (kern (bc t)))). sp x = spin (kern (bc t)) x)
    \<and> ic_lock t' = ic_lock t"
  using ok g
proof (cases rule: icache_get_cases)
  case hit
  then show ?thesis by (intro exI [of _ "kvm (kern (bc t))"] exI [of _ "spin (kern (bc t))"]) simp
next
  case (miss t1)
  obtain b h' where b: "al (heap (kvm (kern (bc t)))) = Some (b, h')" "b \<notin> live (heap (kvm (kern (bc t))))"
    using al l unfolding box_alloc_ok_def inodes_live_def by meson
  have "kern (bc t1) = (kern (bc t))\<lparr>kvm := (kvm (kern (bc t)))\<lparr>heap := h'\<rparr>, spin := (spin (kern (bc t)))(b := SpinLock_new ''sleep lock'')\<rparr>" "ic_lock t1 = ic_lock t"
    using miss(3) b(1) by (auto simp: arc_new_def heap_alloc_def SleepLock_new_def Let_def split: if_splits)
  then have "kern (bc t') = (kern (bc t))\<lparr>kvm := kvm (kern (bc t')), spin := (spin (kern (bc t)))(b := SpinLock_new ''sleep lock'')\<rparr>" "ic_lock t' = ic_lock t"
    using miss(4) by (auto simp: drop_weak_def split: option.splits)
  then show ?thesis using b(2)
    by (intro exI [of _ "kvm (kern (bc t'))"] exI [of _ "(spin (kern (bc t)))(b := SpinLock_new ''sleep lock'')"]) auto
qed

text \<open>The lock of the inode cache around \<^verbatim>\<open>get\<close>.\<close>

lemma locked_get_ok:
  assumes d: "depth (kern (bc t)) me i n" "n < 97" and free: "\<not> locked (spin (kern (bc t)) (ic_lock t))"
    and al: "box_alloc_ok al fr live cap" and l: "inodes_live live m t" "n_live live (bc t) < cap" "m < 0x7FFFFFFF" and ok: "inodes_ok t"
    and ne: "ic_lock t \<in> live (heap (kvm (kern (bc t))))"
  shows "\<exists>a t'. locked_get me al fr key t = Inr (a, t') \<and> inode_of t' = (inode_of t)(key \<mapsto> a) \<and> depth (kern (bc t')) me i n
    \<and> \<not> locked (spin (kern (bc t')) (ic_lock t))"
proof -
  note A = acquired_facts [OF d free]
  let ?s = "acquired me (ic_lock t) i (kern (bc t))"
  let ?t = "t\<lparr>bc := (bc t)\<lparr>kern := ?s\<rparr>\<rparr>"
  have k: "kvm ?s = kvm (kern (bc t))" using pst_more [OF A(6)] by simp
  have lt: "inodes_live live m ?t" "n_live live (bc ?t) < cap" "inodes_ok ?t" using l ok k by (auto simp: inodes_live_def inodes_ok_def)
  obtain a t2 where t2: "icache_get al fr key ?t = Inr (a, t2)" using icache_get_ok [OF al lt(1,2) l(3) lt(3)] by blast
  from icache_get_kern [OF al lt t2] obtain v sp where
    s2: "kern (bc t2) = ?s\<lparr>kvm := v, spin := sp\<rparr>" "sp (ic_lock t) = spin ?s (ic_lock t)" "ic_lock t2 = ic_lock t"
    using ne k by auto
  have h: "depth (kern (bc t2)) me i (Suc n)" "held_by (kern (bc t2)) (ic_lock t) i"
    using A(2,3) depth_same [of ?s "kern (bc t2)"] s2 by (simp_all add: same_cpus_def held_by_def)
  note R = release_depth [OF h]
  have "locked_get me al fr key t = Inr (a, t2\<lparr>bc := (bc t2)\<lparr>kern := let_go me (ic_lock t) i (kern (bc t2))\<rparr>\<rparr>)"
    using A(1) t2 R(1) s2(3) by (simp add: locked_get_def on_kern_def)
  moreover have "inode_of t2 = (inode_of ?t)(key \<mapsto> a)" using inodes_ok_get [OF lt(3) t2] by simp
  ultimately show ?thesis using R(2,4) by simp
qed

text \<open>The first step of a walk from the working directory.\<close>

definition walk_step :: "u8 \<Rightarrow> 'h page_alloc \<Rightarrow> (usize \<Rightarrow> 'h \<Rightarrow> 'h) \<Rightarrow> usize \<Rightarrow> bool \<Rightarrow> usize \<Rightarrow> Inode \<Rightarrow> u8 list \<Rightarrow> u8 list \<Rightarrow> 'h ist \<Rightarrow>
    (usize option outcome \<times> 'h ist) res" where
  "walk_step me al fr chan iparent ip x name rest t1 =
    (if itype (ibody x) \<noteq> Directory then unlock_drop me chan ip None t1
     else if iparent \<and> rest = [] then rbind (body_unlock me chan ip t1) (\<lambda>(_, t2). Ok (Done (Some ip), t2))
     else rbind (dir_lookup me al fr (idev x) (ibody x) name t1) (\<lambda>(q, t2). case q of
         None \<Rightarrow> unlock_drop me chan ip None t2
       | Some (nxt, _) \<Rightarrow> rbind (unlock_drop me chan ip () t2) (\<lambda>(d, t3). case d of
           Waits w \<Rightarrow> Ok (Waits w, t3)
         | Done _ \<Rightarrow> name_loop me al fr chan iparent nxt rest t3)))"

definition walk_state :: "usize \<Rightarrow> usize \<Rightarrow> Inode \<Rightarrow> 'h pst \<Rightarrow> 'h ist \<Rightarrow> 'h ist" where
  "walk_state a n x s t = t\<lparr>inodes := (inodes t)(a \<mapsto> (n, x)), bc := (bc t)\<lparr>mutexes := (mutexes (bc t))(a := True), kern := s\<rparr>\<rparr>"

lemma walk_start:
  assumes d: "depth (kern (bc t)) me i k" "k < 97" and p: "current_proc (priv (kern (bc t)) i) = Some p" "procs (kern (bc t)) p = Some q" "cwd q = Some a"
    and free: "\<not> locked (spin (kern (bc t)) p)" "\<not> locked (spin (kern (bc t)) a)" "\<not> mutexes (bc t) a"
    and x: "inodes t a = Some (n, x)" "n \<le> 0x7FFFFFFF" and path: "path \<noteq> [slash]" "split_first path = Some (name, rest)"
  shows "\<exists>s. name_x me al fr chan path iparent t = walk_step me al fr chan iparent a x name rest (walk_state a (n + 1) x s t)
    \<and> quiet me i k {p, a} (kern (bc t)) s"
proof -
  obtain s1 where s1: "cwd_of me (kern (bc t)) = Inr (a, s1)" "quiet me i k {p} (kern (bc t)) s1"
    using cwd_of_quiet [OF d p(1,2) free(1) p(3)] by auto
  note Q = quietD [OF s1(2)]
  have f: "\<not> locked (spin s1 a)" using Q(2,3) [of a] free(2) by (cases "a = p") auto
  obtain s2 where s2: "sl_acquire me chan a (mutexes (bc t), s1) = Inr (Done (), (mutexes (bc t))(a := True), s2)" "quiet me i k {a} s1 s2"
    using sl_acquire_free [where m = "mutexes (bc t)" and a = a, OF Q(1) d(2)] f free(3) by auto
  have "quiet me i k {p, a} (kern (bc t)) s2" using quiet_trans [OF s1(2) s2(2)] by (simp add: insert_commute)
  moreover have "\<not> 0x7FFFFFFF < n" using x(2) by simp
  ultimately show ?thesis
    using s1(1) s2(1) x(1) path
    by (intro exI [of _ s2]) (simp add: name_x_def arc_clone_def deref_inode_def name_loop.simps [of _ _ _ _ _ _ path] in_bc_def on_mutexes_def
      walk_step_def walk_state_def)
qed

text \<open>Reading a directory that is not empty reaches \<^verbatim>\<open>todo!()\<close>.\<close>

lemma dir_lookup_eq:
  assumes "itype dir = Directory"
  shows "dir_lookup me al fr dev dir name t = (if isize dir = 0 then Ok (None, t) else Fail Todo)"
proof (cases "isize dir = 0")
  case True
  then show ?thesis using assms by (simp add: dir_lookup_def dir_scan.simps)
next
  case False
  then have "0 < isize dir" by (simp add: word_gt_0)
  moreover have "\<not> (16 :: usize) < 0" by simp
  ultimately show ?thesis using assms False by (simp add: dir_lookup_def dir_scan.simps [of _ _ _ _ 0] InodeBody_read_def Let_def)
qed

lemma unlock_drop_ok:
  assumes d: "depth (kern (bc t)) me i k" "k < 96" "\<not> locked (spin (kern (bc t)) a)" "\<not> locked (spin (kern (bc t)) (pt_lock (kern (bc t))))" "a \<noteq> pt_lock (kern (bc t))"
    and chan: "sleeping (ptable (kern (bc t))) chan = None" and x: "inodes t a = Some (n + 1, x)" "n \<noteq> 0"
  shows "\<exists>t'. unlock_drop me chan a r t = Inr (Done r, t') \<and> inodes t' = (inodes t)(a \<mapsto> (n, x)) \<and> icache t' = icache t \<and> \<not> mutexes (bc t') a"
proof -
  have e: "sleepers chan (ptable (kern (bc t))) = []" using chan by (simp add: sleepers_def)
  from sl_release_eq [OF d, of chan "mutexes (bc t)"] obtain s where
    "sl_release me chan a (mutexes (bc t), kern (bc t)) = Inr ((mutexes (bc t))(a := False), s)" using e by auto
  then show ?thesis using x by (simp add: unlock_drop_def in_bc_def on_mutexes_def arc_drop_def deref_inode_def Let_def)
qed

text \<open>A process whose own lock is still held, as it is right after the switch to it, cannot ask for its working directory.\<close>

lemma cwd_of_held:
  assumes "depth s me i k" "current_proc (priv s i) = Some p" "held_by s p i"
  shows "cwd_of me s = Inl (Panic (''acquire: '' @ lname (spin s p)))"
proof -
  note M = my_proc_quiet [OF assms(1,2)]
  note Q = quietD [OF M(2)]
  have "held_by (remembered me i s) p i" "spin (remembered me i s) p = spin s p" using Q(2) [of p] assms(3) by (simp_all add: held_by_def)
  then show ?thesis using M(1) acquire_held [OF Q(1)] by (simp add: cwd_of_def with_lock_def)
qed

text \<open>Paths without a name, and paths with at least one.\<close>

lemma from_name_root:
  assumes "depth (kern (bc t)) me i k" "k < 97" "\<not> locked (spin (kern (bc t)) (ic_lock t))" "box_alloc_ok al fr live cap" "inodes_live live m t"
    "n_live live (bc t) < cap" "m < 0x7FFFFFFF" "inodes_ok t" "ic_lock t \<in> live (heap (kvm (kern (bc t))))"
  shows "\<exists>r t'. from_name me al fr chan [slash] t = Inr (Done (Some r), t') \<and> inode_of t' = (inode_of t)((ROOT_DEV, ROOT_INO) \<mapsto> r) \<and> depth (kern (bc t')) me i k"
proof -
  obtain r t' where "locked_get me al fr (ROOT_DEV, ROOT_INO) t = Inr (r, t')" "inode_of t' = (inode_of t)((ROOT_DEV, ROOT_INO) \<mapsto> r)" "depth (kern (bc t')) me i k"
    using locked_get_ok [where key = "(ROOT_DEV, ROOT_INO)", OF assms] by blast
  then show ?thesis by (auto simp: from_name_def name_x_def name_loop.simps [of _ _ _ _ _ _ "[slash]"] names_root)
qed

lemma path_names_Nil: "path_names path = [] \<longleftrightarrow> split_first path = None"
  by (cases "split_first path") (auto simp: path_names.simps [of path])

lemma from_name_cwd:
  assumes d: "depth (kern (bc t)) me i k" "k < 97" and p: "current_proc (priv (kern (bc t)) i) = Some p" "procs (kern (bc t)) p = Some q" "cwd q = Some a"
    and free: "\<not> locked (spin (kern (bc t)) p)" and x: "inodes t a = Some (n, x)" "n \<le> 0x7FFFFFFF" and path: "path \<noteq> [slash]" "path_names path = []"
  shows "\<exists>t'. from_name me al fr chan path t = Inr (Done (Some a), t') \<and> inodes t' = (inodes t)(a \<mapsto> (n + 1, x))"
proof -
  obtain s1 where "cwd_of me (kern (bc t)) = Inr (a, s1)" using cwd_of_quiet [OF d p(1,2) free p(3)] by auto
  then show ?thesis
    using x path by (auto simp: from_name_def name_x_def name_loop.simps [of _ _ _ _ _ _ path] arc_clone_def deref_inode_def path_names_Nil not_less [symmetric])
qed

lemma from_name_walk:
  assumes d: "depth (kern (bc t)) me i k" "k < 96" and p: "current_proc (priv (kern (bc t)) i) = Some p" "procs (kern (bc t)) p = Some q" "cwd q = Some a"
    and free: "\<not> locked (spin (kern (bc t)) p)" "\<not> locked (spin (kern (bc t)) a)" "\<not> mutexes (bc t) a"
    and x: "inodes t a = Some (n, x)" "n \<le> 0x7FFFFFFF" and names: "path_names path \<noteq> []"
  shows "itype (ibody x) = Directory \<Longrightarrow> isize (ibody x) \<noteq> 0 \<Longrightarrow> from_name me al fr chan path t = Inl Todo"
    and "\<not> (itype (ibody x) = Directory \<and> isize (ibody x) \<noteq> 0) \<Longrightarrow> n \<noteq> 0 \<Longrightarrow> \<not> locked (spin (kern (bc t)) (pt_lock (kern (bc t)))) \<Longrightarrow>
      a \<noteq> pt_lock (kern (bc t)) \<Longrightarrow> p \<noteq> pt_lock (kern (bc t)) \<Longrightarrow> sleeping (ptable (kern (bc t))) chan = None \<Longrightarrow>
      \<exists>t'. from_name me al fr chan path t = Inr (Done None, t') \<and> inodes t' = inodes t \<and> \<not> mutexes (bc t') a"
proof -
  obtain name rest where sp: "split_first path = Some (name, rest)" using names by (cases "split_first path") (auto simp: path_names_Nil)
  then have ns: "path \<noteq> [slash]" using names_root by auto
  have k: "k < 97" using d(2) by simp
  from walk_start [OF d(1) k p free x ns sp, of al fr chan False] obtain s where
    w: "from_name me al fr chan path t = walk_step me al fr chan False a x name rest (walk_state a (n + 1) x s t)" and q: "quiet me i k {p, a} (kern (bc t)) s"
    unfolding from_name_def by blast
  let ?t1 = "walk_state a (n + 1) x s t"
  note L = dir_lookup_eq [of "ibody x" me al fr "idev x" name ?t1]
  note Q = quietD [OF q]
  have e: "kern (bc ?t1) = s" "inodes ?t1 = (inodes t)(a \<mapsto> (n + 1, x))" by (simp_all add: walk_state_def)
  show "from_name me al fr chan path t = Inl Todo" if "itype (ibody x) = Directory" "isize (ibody x) \<noteq> 0"
    using w L that by (simp add: walk_step_def)
  show "\<exists>t'. from_name me al fr chan path t = Inr (Done None, t') \<and> inodes t' = inodes t \<and> \<not> mutexes (bc t') a"
    if h: "\<not> (itype (ibody x) = Directory \<and> isize (ibody x) \<noteq> 0)" "n \<noteq> 0" "\<not> locked (spin (kern (bc t)) (pt_lock (kern (bc t))))"
      "a \<noteq> pt_lock (kern (bc t))" "p \<noteq> pt_lock (kern (bc t))" "sleeping (ptable (kern (bc t))) chan = None"
  proof -
    have "\<exists>t'. unlock_drop me chan a (None :: usize option) ?t1 = Inr (Done None, t') \<and> inodes t' = (inodes ?t1)(a \<mapsto> (n, x)) \<and> icache t' = icache ?t1 \<and> \<not> mutexes (bc t') a"
      by (rule unlock_drop_ok [where i = i and k = k]) (use Q(1,3,5,6) Q(2) [of "pt_lock (kern (bc t))"] h d(2) e in auto)
    moreover have "(inodes ?t1)(a \<mapsto> (n, x)) = inodes t" using x(1) e(2) by auto
    ultimately show ?thesis using w L h(1) by (auto simp: walk_step_def)
  qed
qed

text \<open>C34. What \<^verbatim>\<open>from_name\<close> finds. (1) The path "/" gives the root inode, without asking for a process and with any locks held but that of
  the inode cache; this is the only path the kernel looks up. (2) Every other path, also one that begins with a slash, starts at the working
  directory of the current process, and without a name in it, as "" and "//", it is the working directory, with one more reference. (3) With a name in it, the
  lookup reaches code that is not written yet if the working directory has entries; (4) otherwise, if the lock of the process table is free
  and nobody sleeps on the channel, the result is \<^verbatim>\<open>None\<close> and no reference is left behind. (5) All of (2) to (4) need the lock of the process to be
  free: while the processor still holds it from switching to the process, each of these paths panics.\<close>

theorem from_name_outcome:
  assumes "depth (kern (bc t)) me i k" "k < 96"
  shows "(\<not> locked (spin (kern (bc t)) (ic_lock t)) \<and> box_alloc_ok al fr live cap \<and> inodes_live live m t \<and> n_live live (bc t) < cap \<and> m < 0x7FFFFFFF
        \<and> inodes_ok t \<and> ic_lock t \<in> live (heap (kvm (kern (bc t)))) \<longrightarrow>
      (\<exists>r t'. from_name me al fr chan [slash] t = Inr (Done (Some r), t') \<and> inode_of t' = (inode_of t)((ROOT_DEV, ROOT_INO) \<mapsto> r) \<and> depth (kern (bc t')) me i k))
    \<and> (current_proc (priv (kern (bc t)) i) = Some p \<and> procs (kern (bc t)) p = Some q \<and> cwd q = Some a \<and> inodes t a = Some (n, x) \<and> n \<le> 0x7FFFFFFF
        \<and> \<not> locked (spin (kern (bc t)) p) \<and> path \<noteq> [slash] \<longrightarrow>
      (path_names path = [] \<longrightarrow> (\<exists>t'. from_name me al fr chan path t = Inr (Done (Some a), t') \<and> inodes t' = (inodes t)(a \<mapsto> (n + 1, x))))
      \<and> (path_names path \<noteq> [] \<and> \<not> locked (spin (kern (bc t)) a) \<and> \<not> mutexes (bc t) a \<longrightarrow>
          (if itype (ibody x) = Directory \<and> isize (ibody x) \<noteq> 0 then from_name me al fr chan path t = Inl Todo
           else n \<noteq> 0 \<and> \<not> locked (spin (kern (bc t)) (pt_lock (kern (bc t)))) \<and> a \<noteq> pt_lock (kern (bc t)) \<and> p \<noteq> pt_lock (kern (bc t))
               \<and> sleeping (ptable (kern (bc t))) chan = None \<longrightarrow>
             (\<exists>t'. from_name me al fr chan path t = Inr (Done None, t') \<and> inodes t' = inodes t \<and> \<not> mutexes (bc t') a))))
    \<and> (current_proc (priv (kern (bc t)) i) = Some p \<and> held_by (kern (bc t)) p i \<and> path \<noteq> [slash] \<longrightarrow>
      from_name me al fr chan path t = Inl (Panic (''acquire: '' @ lname (spin (kern (bc t)) p))))"
proof (intro conjI impI, goal_cases)
  case 1
  then show ?case using from_name_root [OF assms(1)] assms(2) by auto
next
  case 2
  then show ?case using from_name_cwd [OF assms(1)] assms(2) by auto
next
  case 3
  then show ?case using from_name_walk [OF assms, of p q a n x path] by auto
next
  case 4
  then show ?case using cwd_of_held [OF assms(1)] by (simp add: from_name_def name_x_def)
qed

definition demo_cwd :: "FileType \<Rightarrow> usize list ist" where
  "demo_cwd ty = demo_ist\<lparr>ic_lock := 0x2000, inodes := [0x1000 \<mapsto> (1, Inode_zero\<lparr>ibody := InodeBody_zero\<lparr>itype := ty, isize := 32\<rparr>\<rparr>)],
     bc := demo_bst\<lparr>kern := (kern demo_bst)\<lparr>procs := [0x80300000 \<mapsto> demo_proc\<lparr>pstate := Running, cwd := Some 0x1000\<rparr>]\<rparr>\<rparr>\<rparr>"

lemma demo_cwd_ok:
  "depth (kern (bc (demo_cwd ty))) 0 0 0" "current_proc (priv (kern (bc (demo_cwd ty))) 0) = Some 0x80300000"
  "procs (kern (bc (demo_cwd ty))) 0x80300000 = Some (demo_proc\<lparr>pstate := Running, cwd := Some 0x1000\<rparr>)"
  "\<not> locked (spin (kern (bc (demo_cwd ty))) l)" "pt_lock (kern (bc (demo_cwd ty))) = 0x80200000" "\<not> mutexes (bc (demo_cwd ty)) l"
  "inodes (demo_cwd ty) 0x1000 = Some (1, Inode_zero\<lparr>ibody := InodeBody_zero\<lparr>itype := ty, isize := 32\<rparr>\<rparr>)"
  "inodes_ok (demo_cwd ty)" "inodes_live set 1 (demo_cwd ty)" "n_live set (bc (demo_cwd ty)) = 2" "ic_lock (demo_cwd ty) \<in> set (heap (kvm (kern (bc (demo_cwd ty)))))"
  "ptable (kern (bc (demo_cwd ty))) = ProcessTable_new" "icache (demo_cwd ty) = Map.empty"
  using demo_bst_ok depth_same [of "kern demo_bst" "kern (bc (demo_cwd ty))"]
  by (simp_all add: demo_cwd_def demo_ist_def inodes_ok_def inodes_live_def same_cpus_def) (simp_all add: demo_bst_def)

theorem from_name_outcome_witness:
  "(\<exists>r t'. from_name 0 demo_boxes removeAll 0x80600F00 [slash] (demo_cwd Directory) = Inr (Done (Some r), t'))
    \<and> (\<exists>t'. from_name 0 demo_boxes removeAll 0x80600F00 [slash, slash] (demo_cwd Directory) = Inr (Done (Some 0x1000), t'))
    \<and> from_name 0 demo_boxes removeAll 0x80600F00 [slash, 0x61] (demo_cwd Directory) = Inl Todo
    \<and> (\<exists>t'. from_name 0 demo_boxes removeAll 0x80600F00 [slash, 0x61] (demo_cwd File) = Inr (Done None, t'))"
proof -
  have n: "path_names [slash, 0x61] \<noteq> []" "path_names [slash, slash] = []"
    by (simp_all add: path_names.simps [of "[slash, 0x61]"] path_names.simps [of "[slash, slash]"] split_first_def)
  note W = from_name_outcome [where me = 0 and i = 0 and k = 0 and p = "0x80300000" and a = "0x1000" and chan = "0x80600F00" and n = 1
      and q = "demo_proc\<lparr>pstate := Running, cwd := Some 0x1000\<rparr>" and live = set and m = 1 and al = demo_boxes and fr = removeAll and cap = 4]
  note O = demo_cwd_ok demo_cwd_ok(9) [simplified] demo_boxes_ok ProcessTable_new_def
  show ?thesis
    using n W [where t = "demo_cwd Directory" and path = "[slash, slash]" and x = "Inode_zero\<lparr>ibody := InodeBody_zero\<lparr>itype := Directory, isize := 32\<rparr>\<rparr>"]
      W [where t = "demo_cwd Directory" and path = "[slash, 0x61]" and x = "Inode_zero\<lparr>ibody := InodeBody_zero\<lparr>itype := Directory, isize := 32\<rparr>\<rparr>"]
      W [where t = "demo_cwd File" and path = "[slash, 0x61]" and x = "Inode_zero\<lparr>ibody := InodeBody_zero\<lparr>itype := File, isize := 32\<rparr>\<rparr>"]
    by (auto simp: O)
qed

end
