(* ===== verification/Kernel_Main.thy ===== *)
theory Kernel_Main
  imports Supply Startup Kernel_Heap Mp Console Inode
begin

text \<open>
  The main function of the kernel (\<^verbatim>\<open>kernel/src/main.rs\<close>: \<^verbatim>\<open>main\<close>), which composes the initialisation of all components: the screen, the heap in
  two phases, the kernel page table (\<^verbatim>\<open>kvmalloc\<close>), the processors, the interrupt controllers, the devices, the process table, the
  trap vectors, the file system, the other processors and the first process.
\<close>

section \<open>State\<close>

record 'h kernel =
  smp_of :: "'h smp"
  vga :: Writer
  com1 :: uart
  io_apic :: ioapic
  io_apic_id :: u8
  hard_disk :: ide
  block_cache :: "u32 \<times> u32 \<rightharpoonup> usize \<times> usize"
  inode_cache :: "u32 \<times> u32 \<rightharpoonup> usize"
  dev_table :: "Dev list"
  idt :: "desc list"
  KPG_DIR :: "'h vm option"

text \<open>
  What \<^verbatim>\<open>main\<close> is linked with: the allocator, the addresses of its locks and of the linker symbols, the memory in which the firmware leaves its tables,
  the vectors, the initial program and the root directory's inode. \<open>others\<close> is what another processor does while \<^verbatim>\<open>start_others\<close> waits for it.
\<close>

record 'h link =
  l_ops :: "'h heap_ops"
  l_alloc :: "'h galloc"
  l_image :: image
  l_kernel_end :: usize
  l_data :: usize
  l_vga_lock :: usize
  l_heap_lock :: usize
  l_firmware :: bytes_mem
  l_vectors :: "u32 list"
  l_trapret :: u32
  l_forkret :: u32
  l_initcode :: "u8 list"
  l_root :: "usize option"
  others :: "image \<Rightarrow> u8 \<Rightarrow> u8 \<Rightarrow> 'h smp \<Rightarrow> 'h smp res"

abbreviation ker_of :: "'h kernel \<Rightarrow> 'h pst" where
  "ker_of k \<equiv> ker (smp_of k)"

definition set_ker :: "'h pst \<Rightarrow> 'h kernel \<Rightarrow> 'h kernel" where
  "set_ker s k = k\<lparr>smp_of := (smp_of k)\<lparr>ker := s\<rparr>\<rparr>"

definition on_ker :: "('h pst \<Rightarrow> (unit \<times> 'h pst) res) \<Rightarrow> 'h kernel \<Rightarrow> 'h kernel res" where
  "on_ker f k = rbind (f (ker_of k)) (\<lambda>(_, s). Ok (set_ker s k))"

definition on_smp :: "('h smp \<Rightarrow> 'h smp res) \<Rightarrow> 'h kernel \<Rightarrow> 'h kernel res" where
  "on_smp f k = rbind (f (smp_of k)) (\<lambda>t. Ok (k\<lparr>smp_of := t\<rparr>))"

text \<open>The addresses in the image, with that of the kernel page directory once there is one.\<close>

definition image_of :: "'h link \<Rightarrow> 'h kernel \<Rightarrow> image" where
  "image_of l k = (case KPG_DIR k of None \<Rightarrow> l_image l | Some v \<Rightarrow> (l_image l)\<lparr>kpg_dir_addr := dir_addr v\<rparr>)"

section \<open>Initialisation of the components\<close>

definition vga_clear_screen :: "'h link \<Rightarrow> u8 \<Rightarrow> 'h kernel \<Rightarrow> 'h kernel res" where
  "vga_clear_screen l me k =
     rbind (with_lock me (l_vga_lock l) (\<lambda>s. rbind (clear_screen (vga k)) (\<lambda>w. Ok (w, s))) (ker_of k)) (\<lambda>(w, s).
     Ok (set_ker s (k\<lparr>vga := w\<rparr>)))"

definition kvmalloc :: "'h link \<Rightarrow> u8 \<Rightarrow> 'h kernel \<Rightarrow> 'h kernel res" where
  "kvmalloc l me k =
     rbind (setup_kvm (ga_page (l_alloc l)) (l_data l) (kvm (ker_of k))) (\<lambda>r.
     rbind (rexpect r ''kvmalloc failed'') (\<lambda>v.
     rbind (switch_kvm me (dir_addr v) ((ker_of k)\<lparr>kvm := v, dirs := (dirs (ker_of k))(dir_addr v \<mapsto> pg_dir v)\<rparr>)) (\<lambda>s.
     Ok (set_ker s (k\<lparr>KPG_DIR := Some v\<rparr>)))))"

definition mp_start :: "'h link \<Rightarrow> u8 list \<Rightarrow> 'h kernel \<Rightarrow> 'h kernel res" where
  "mp_start l vs k =
     rbind (mp_init (l_firmware l) vs (ker_of k, io_apic_id k)) (\<lambda>((s, i), tr).
     let k1 = set_ker s (k\<lparr>io_apic_id := i\<rparr>) in
     Ok (k1\<lparr>smp_of := (smp_of k1)\<lparr>port_out := port_out (smp_of k1) @ tr\<rparr>\<rparr>))"

definition pic_start :: "'h kernel \<Rightarrow> 'h kernel" where
  "pic_start k = k\<lparr>smp_of := (smp_of k)\<lparr>port_out := pic_init (port_out (smp_of k))\<rparr>\<rparr>"

definition ioapic_start :: "'h kernel \<Rightarrow> 'h kernel res" where
  "ioapic_start k = rbind (ioapic_init (io_apic k)) (\<lambda>d. Ok (k\<lparr>io_apic := d\<rparr>))"

definition console_dev :: Dev where
  "console_dev = \<lparr>dev_read = Some (\<lambda>_. Fail Todo), dev_write = Some (\<lambda>_. Fail Todo)\<rparr>"

definition console_init :: "'h kernel \<Rightarrow> 'h kernel res" where
  "console_init k =
     rbind (init_dev CONSOLE console_dev (dev_table k)) (\<lambda>ds.
     rbind (enable IRQ_KBD 0 (io_apic k)) (\<lambda>d. Ok (k\<lparr>dev_table := ds, io_apic := d\<rparr>)))"

definition uart_start :: "'h kernel \<Rightarrow> 'h kernel res" where
  "uart_start k = rbind (uart_init (com1 k, io_apic k)) (\<lambda>(u, d). Ok (k\<lparr>com1 := u, io_apic := d\<rparr>))"

definition uart_puts :: "u8 list \<Rightarrow> 'h kernel \<Rightarrow> 'h kernel res" where
  "uart_puts bs k = rbind (puts bs (com1 k)) (\<lambda>u. Ok (k\<lparr>com1 := u\<rparr>))"

definition proc_init :: "'h kernel \<Rightarrow> 'h kernel" where
  "proc_init k = set_ker ((ker_of k)\<lparr>ptable := ProcessTable_new, spin := (spin (ker_of k))(pt_lock (ker_of k) := SpinLock_new ''ptable'')\<rparr>) k"

definition trap_start :: "'h link \<Rightarrow> 'h kernel \<Rightarrow> 'h kernel" where
  "trap_start l k = k\<lparr>idt := trap_init (l_vectors l) (idt k)\<rparr>"

definition fs_init :: "'h kernel \<Rightarrow> 'h kernel res" where
  "fs_init k = rbind (ide_init (ker_of k) (hard_disk k, io_apic k)) (\<lambda>(d, io).
     Ok (k\<lparr>hard_disk := d, io_apic := io, block_cache := Map.empty, inode_cache := Map.empty\<rparr>))"

section \<open>The main function\<close>

text \<open>\<^verbatim>\<open>main\<close> in four parts: the memory, the processor itself, the devices and tables, and the other processors and the first process. The text
  that it prints is "xv6..." and a line feed.\<close>

definition main_memory :: "'h link \<Rightarrow> u8 \<Rightarrow> 'h kernel \<Rightarrow> 'h kernel res" where
  "main_memory l me k =
     rbind (vga_clear_screen l me k) (\<lambda>k.
     rbind (on_ker (main_init1 (l_ops l) me (l_heap_lock l) (l_kernel_end l)) k) (\<lambda>k.
     kvmalloc l me k))"

definition main_cpus :: "'h link \<Rightarrow> u8 list \<Rightarrow> u8 \<Rightarrow> 'h kernel \<Rightarrow> 'h kernel res" where
  "main_cpus l vs me k =
     rbind (mp_start l vs k) (\<lambda>k.
     rbind (on_smp (lapic_start me) k) (\<lambda>k.
     on_smp (seginit (image_of l k) me) k))"

definition main_devices :: "'h link \<Rightarrow> 'h kernel \<Rightarrow> 'h kernel res" where
  "main_devices l k =
     rbind (ioapic_start (pic_start k)) (\<lambda>k.
     rbind (console_init k) (\<lambda>k.
     rbind (uart_start k) (\<lambda>k.
     rbind (uart_puts [0x78, 0x76, 0x36, 0x2E, 0x2E, 0x2E, 0x0A] k) (\<lambda>k.
     fs_init (trap_start l (proc_init k))))))"

definition main_processes :: "'h link \<Rightarrow> u8 \<Rightarrow> 'h kernel \<Rightarrow> 'h kernel res" where
  "main_processes l me k =
     rbind (on_ker (main_init2 (l_ops l) me (l_heap_lock l)) k) (\<lambda>k.
     rbind (on_ker (user_init me (l_alloc l) (l_trapret l) (l_forkret l) (l_data l) (l_initcode l) (l_root l)) k) (\<lambda>k.
     on_smp (mp_main (image_of l k) me) k))"

definition kmain :: "'h link \<Rightarrow> u8 list \<Rightarrow> u8 \<Rightarrow> 'h kernel \<Rightarrow> 'h kernel res" where
  "kmain l vs me k =
     rbind (main_memory l me k) (\<lambda>k.
     rbind (main_cpus l vs me k) (\<lambda>k.
     rbind (main_devices l k) (\<lambda>k.
     rbind (on_smp (start_others (image_of l k) (ga_page (l_alloc l)) (others l (image_of l k) me) me) k) (\<lambda>k.
     main_processes l me k))))"

section \<open>Devices\<close>

lemma enable_ok:
  assumes "i < 256"
  shows "\<exists>d'. enable (of_nat i) c d = Inr d' \<and> (\<forall>j < 256. redirection d' j = (if j = i then open_entry i c else redirection d j))"
proof -
  obtain d' where d': "enables [(i, c)] d = Inr d'" "\<forall>j < 256. redirection d' j = (case map_of (rev [(i, c)]) j of Some c \<Rightarrow> open_entry j c | None \<Rightarrow> redirection d j)"
    using enables_open [of "[(i, c)]" 256 d] assms by auto
  then show ?thesis by (auto simp: rbind_Ok_iff split: if_splits)
qed

text \<open>A serial line that is absent or ready to send what \<^verbatim>\<open>main\<close> prints, and a disk that becomes ready.\<close>

definition com_ready :: "uart \<Rightarrow> bool" where
  "com_ready u \<longleftrightarrow> \<not> is_uart u \<and> (\<exists>v vs. lsr u = v # vs \<and> (v = 0xFF \<or> 9 \<le> length vs \<and> (\<forall>x \<in> set vs. x AND 0x20 \<noteq> 0)))"

definition disk_ready :: "ide \<Rightarrow> bool" where
  "disk_ready d \<longleftrightarrow> (\<exists>rs r rs'. status d = rs @ r # rs' \<and> ready r \<and> 1000 \<le> length rs')"

lemma uart_init_ok:
  assumes "com_ready u"
  shows "\<exists>u' d'. uart_init (u, d) = Inr (u', d') \<and> (is_uart u' \<longrightarrow> line_ready 7 u')
    \<and> (\<forall>j < 256. redirection d' j = (if j = 4 \<and> is_uart u' then open_entry 4 0 else redirection d j))"
proof -
  obtain v vs where v: "\<not> is_uart u" "lsr u = v # vs" "v = 0xFF \<or> 9 \<le> length vs \<and> (\<forall>x \<in> set vs. x AND 0x20 \<noteq> 0)"
    using assms unfolding com_ready_def by blast
  show ?thesis
  proof (cases "v = 0xFF")
    case True
    then show ?thesis using v by (simp add: uart_init_def inb_def Let_def)
  next
    case False
    then obtain a b ws where vs: "vs = a # b # ws" using v(3) by (cases vs; cases "tl vs") auto
    obtain d' where "enable IRQ_COM1 0 d = Inr d'" "\<forall>j < 256. redirection d' j = (if j = 4 then open_entry 4 0 else redirection d j)"
      using enable_ok [of 4 0 d] by (auto simp: IRQ_COM1_def)
    then show ?thesis using v False by (simp add: vs uart_init_def inb_def Let_def line_ready_def)
  qed
qed

lemma puts_ok: "(is_uart u \<longrightarrow> line_ready (length bs) u) \<Longrightarrow> \<exists>u'. puts bs u = Inr u' \<and> is_uart u' = is_uart u"
  using puts_ready [of bs 0 u] by (cases "is_uart u") (auto simp: puts_def line_ready_def)

lemma probe_ok: "n \<le> length (status d) \<Longrightarrow> \<exists>d'. probe_disk1 n d = Inr d'"
  by (induction n arbitrary: d) (auto simp: Suc_le_length_iff)

lemma ide_init_ok:
  assumes "disk_ready d" "0 < length (cpus s)" "length (cpus s) < 256"
  shows "\<exists>d' io'. ide_init s (d, io) = Inr (d', io')
    \<and> (\<forall>j < 256. redirection io' j = (if j = 14 then open_entry 14 (of_nat (length (cpus s) - 1)) else redirection io j))"
proof -
  let ?c = "of_nat (length (cpus s) - 1) :: usize"
  obtain rs r rs' where st: "status d = rs @ r # rs'" "ready r" "1000 \<le> length rs'" using assms(1) unfolding disk_ready_def by blast
  have "\<exists>q ws. ide_wait False (rs @ r # rs') = Inr (q, ws) \<and> 1000 \<le> length ws"
    using st(2,3) by (induction rs) (auto simp: ready_def)
  then obtain q ws where w: "ide_wait False (status d) = Inr (q, ws)" "1000 \<le> length ws" using st(1) by auto
  obtain io' where io: "enable IRQ_IDE ?c io = Inr io'" "\<forall>j < 256. redirection io' j = (if j = 14 then open_entry 14 ?c else redirection io j)"
    using enable_ok [of 14 ?c io] by (auto simp: IRQ_IDE_def)
  obtain d' where "probe_disk1 1000 (d\<lparr>status := ws, trace := outb 0x1F6 (0xE0 OR push_bit 4 1) (trace d)\<rparr>) = Inr d'"
    using probe_ok [of 1000 "d\<lparr>status := ws, trace := outb 0x1F6 (0xE0 OR push_bit 4 1) (trace d)\<rparr>"] w(2) by auto
  moreover have "checked_sub (of_nat (length (cpus s))) 1 = Inr ?c"
  proof -
    obtain n where "length (cpus s) = Suc n" using assms(2) by (cases "length (cpus s)") auto
    then show ?thesis using assms(3) by (simp add: checked_sub_def word_le_nat_alt unat_word_ariths unat_of_nat)
  qed
  ultimately show ?thesis using w(1) io by (simp add: ide_init_def)
qed

text \<open>The entry of the redirection table for each interrupt once \<^verbatim>\<open>main\<close> has started the devices; the disk interrupts the last processor.\<close>

definition routed :: "bool \<Rightarrow> nat \<Rightarrow> nat \<Rightarrow> u32 \<times> u32" where
  "routed serial n j = (if j = 1 then open_entry 1 0 else if j = 14 then open_entry 14 (of_nat (n - 1))
     else if j = 4 \<and> serial then open_entry 4 0 else masked_entry j)"

lemma main_devices_ok:
  assumes "com_ready (com1 k)" "disk_ready (hard_disk k)" "length (dev_table k) = N_DEV" "0 < length (cpus (ker_of k))" "length (cpus (ker_of k)) < 256"
  shows "\<exists>k'. main_devices l k = Inr k'
    \<and> ker_of k' = (ker_of k)\<lparr>ptable := ProcessTable_new, spin := (spin (ker_of k))(pt_lock (ker_of k) := SpinLock_new ''ptable'')\<rparr>
    \<and> lapics (smp_of k') = lapics (smp_of k) \<and> gdtr_of (smp_of k') = gdtr_of (smp_of k) \<and> vga k' = vga k \<and> KPG_DIR k' = KPG_DIR k \<and> idt k' = trap_init (l_vectors l) (idt k)
    \<and> (\<forall>j < io_lines (io_apic k). redirection (io_apic k') j = routed (is_uart (com1 k')) (length (cpus (ker_of k))) j)"
proof -
  obtain d1 where d1: "ioapic_init (io_apic k) = Inr d1" "\<forall>j < io_lines (io_apic k). redirection d1 j = masked_entry j" using ioapic_init_masks by blast
  obtain d2 where d2: "enable IRQ_KBD 0 d1 = Inr d2" "\<forall>j < 256. redirection d2 j = (if j = 1 then open_entry 1 0 else redirection d1 j)"
    using enable_ok [of 1 0 d1] by (auto simp: IRQ_KBD_def)
  obtain u d3 where d3: "uart_init (com1 k, d2) = Inr (u, d3)" "is_uart u \<longrightarrow> line_ready 7 u"
      "\<forall>j < 256. redirection d3 j = (if j = 4 \<and> is_uart u then open_entry 4 0 else redirection d2 j)"
    using uart_init_ok [OF assms(1), of d2] by blast
  let ?msg = "[0x78, 0x76, 0x36, 0x2E, 0x2E, 0x2E, 0x0A] :: u8 list"
  have "length ?msg = 7" by simp
  then obtain u' where u': "puts ?msg u = Inr u'" "is_uart u' = is_uart u" using puts_ok [of u ?msg] d3(2) by metis
  let ?k5 = "(pic_start k)\<lparr>io_apic := d1\<rparr>"
  let ?k6 = "?k5\<lparr>dev_table := (dev_table k)[1 := console_dev], io_apic := d2\<rparr>"
  let ?k8 = "?k6\<lparr>com1 := u, io_apic := d3\<rparr>\<lparr>com1 := u'\<rparr>" let ?k9 = "trap_start l (proc_init ?k8)"
  have c: "cpus (ker_of ?k9) = cpus (ker_of k)" by (simp add: trap_start_def proc_init_def set_ker_def pic_start_def cpus_def)
  obtain d io where d4: "ide_init (ker_of ?k9) (hard_disk k, d3) = Inr (d, io)"
      "\<forall>j < 256. redirection io j = (if j = 14 then open_entry 14 (of_nat (length (cpus (ker_of k)) - 1)) else redirection d3 j)"
    using ide_init_ok [of "hard_disk k" "ker_of ?k9" d3] assms(2,4,5) unfolding c by blast
  let ?k' = "?k9\<lparr>hard_disk := d, io_apic := io, block_cache := Map.empty, inode_cache := Map.empty\<rparr>"
  have "ioapic_start (pic_start k) = Inr ?k5" "console_init ?k5 = Inr ?k6" "uart_start ?k6 = Inr (?k6\<lparr>com1 := u, io_apic := d3\<rparr>)"
      "uart_puts ?msg (?k6\<lparr>com1 := u, io_apic := d3\<rparr>) = Inr ?k8" "fs_init ?k9 = Inr ?k'"
    using d1(1) d2(1) d3(1) u'(1) d4(1) assms(3)
    by (simp_all add: ioapic_start_def console_init_def uart_start_def uart_puts_def fs_init_def pic_start_def init_dev_def CONSOLE_def N_DEV_def
        trap_start_def proc_init_def set_ker_def)
  then have "main_devices l k = Inr ?k'" by (simp only: main_devices_def rbind_simps)
  moreover have "redirection io j = routed (is_uart u) (length (cpus (ker_of k))) j" if "j < io_lines (io_apic k)" for j
    using that io_lines_le [of "io_apic k"] d1(2) d2(2) d3(3) d4(2) by (simp add: routed_def)
  ultimately show ?thesis
    by (intro exI [of _ ?k']) (simp add: trap_start_def proc_init_def set_ker_def pic_start_def u'(2))
qed

section \<open>Memory\<close>

text \<open>
  What is relied on of the allocator: besides its laws, that after \<^verbatim>\<open>init1\<close> it hands out memory below 4 MiB and has enough of it (65 pages for the
  kernel page table, 8 stacks, 70 pages for the first process), and that \<^verbatim>\<open>extend\<close> takes nothing away.
\<close>

definition heap_ready :: "'h link \<Rightarrow> ('h \<Rightarrow> bool) \<Rightarrow> ('h \<Rightarrow> usize set) \<Rightarrow> ('h \<Rightarrow> nat) \<Rightarrow> 'h \<Rightarrow> bool" where
  "heap_ready l low live avail h \<longleftrightarrow> galloc_ok (l_alloc l) live avail (l_kernel_end l)
     \<and> (let h1 = h_init (l_ops l) (l_kernel_end l) (KERNBASE + 0x400000 - l_kernel_end l) h in low h1 \<and> 143 \<le> avail h1)
     \<and> (\<forall>n h. live h \<subseteq> live (h_extend (l_ops l) n h) \<and> avail h \<le> avail (h_extend (l_ops l) n h))"

definition kernel_space :: "'h link \<Rightarrow> ('h \<Rightarrow> bool) \<Rightarrow> ('h \<Rightarrow> usize set) \<Rightarrow> ('h \<Rightarrow> nat) \<Rightarrow> 'h vm \<Rightarrow> bool" where
  "kernel_space l low live avail v \<longleftrightarrow> pt_inv (ga_page (l_alloc l)) live avail v \<and> (\<forall>va. translate v va = kvm_map (l_data l) va)
     \<and> low (heap v) \<and> 78 \<le> avail (heap v) \<and> KERNBASE \<le> dir_addr v"

lemma main_memory_ok:
  assumes early: "lapic (ker_of k) = None" "wf_screen (cells (vga k))" "tables (kvm (ker_of k)) = Map.empty"
    and heap: "heap_ready l low live avail (heap (kvm (ker_of k)))" and env: "boot_env (ga_page (l_alloc l)) low spaces im reset"
    and link: "l_kernel_end l \<le> KERNBASE + 0x400000" "unat (l_data l) mod 4096 = 0" "0x80100000 < unat (l_data l)" "unat (l_data l) < 0x8E000000"
  shows "\<exists>v. main_memory l me k = Inr (set_ker ((ker_of k)\<lparr>kvm := v, dirs := (dirs (ker_of k))(dir_addr v \<mapsto> pg_dir v),
      cr3 := (cr3 (ker_of k))(me := dir_addr v - KERNBASE)\<rparr>) (k\<lparr>vga := (vga k)\<lparr>cells := replicate HEIGHT (row_of (wcolor (vga k)) [])\<rparr>, KPG_DIR := Some v\<rparr>))
    \<and> kernel_space l low live avail v"
proof -
  let ?w = "(vga k)\<lparr>cells := replicate HEIGHT (row_of (wcolor (vga k)) [])\<rparr>" and ?s = "ker_of k" and ?al = "ga_page (l_alloc l)"
  let ?h = "h_init (l_ops l) (l_kernel_end l) (KERNBASE + 0x400000 - l_kernel_end l) (heap (kvm ?s))"
  let ?k1 = "set_ker ?s (k\<lparr>vga := ?w\<rparr>)" and ?s2 = "?s\<lparr>kvm := (kvm ?s)\<lparr>heap := ?h\<rparr>\<rparr>"
  have "with_lock me (l_vga_lock l) (\<lambda>s. rbind (clear_screen (vga k)) (\<lambda>w. Ok (w, s))) ?s = Inr (?w, ?s)"
    by (rule with_lock_early) (use early(1) clear_screen_eq [OF early(2)] in simp_all)
  then have 1: "vga_clear_screen l me k = Inr ?k1" by (simp add: vga_clear_screen_def)
  have 2: "on_ker (main_init1 (l_ops l) me (l_heap_lock l) (l_kernel_end l)) ?k1 = Inr (set_ker ?s2 (k\<lparr>vga := ?w\<rparr>))"
    using main_init1_eq [OF early(1) link(1)] by (simp add: on_ker_def set_ker_def)
  have al: "page_alloc_ok ?al live avail" using heap by (simp add: heap_ready_def galloc_ok_def)
  have keep: "low h' \<and> p \<notin> {}" if "low h" "?al h = Some (p, h')" for h p h' using env that unfolding boot_env_def by blast
  have pre: "low (heap (kvm ?s2))" "66 \<le> avail (heap (kvm ?s2))" "143 \<le> avail (heap (kvm ?s2))" using heap by (simp_all add: heap_ready_def Let_def)
  have tabs: "length tab = 1024 \<and> t \<in> live (heap (kvm ?s2)) - {}" if "tables (kvm ?s2) t = Some tab" for t tab using that early(3) by simp
  obtain v where v: "setup_kvm ?al (l_data l) (kvm ?s2) = Inr (Some v)" "pt_inv ?al live avail v" "pt_view v = kvm_view (vpn (l_data l))"
      "avail (heap (kvm ?s2)) \<le> avail (heap v) + 65" "low (heap v)"
    by (rule setup_kvm_keeps [where Q = low and R = "{}", OF al tabs pre(1) _ pre(2) link(2-4)]) (use keep in auto)
  obtain h where "?al (heap (kvm ?s2)) = Some (dir_addr v, h)" using setup_kvm_dir [OF v(1)] by blast
  then have dir: "KERNBASE \<le> dir_addr v" using page_alloc_okD(2) [OF al] by blast
  have 3: "kvmalloc l me (set_ker ?s2 (k\<lparr>vga := ?w\<rparr>)) = Inr (set_ker (?s\<lparr>kvm := v, dirs := (dirs ?s)(dir_addr v \<mapsto> pg_dir v),
      cr3 := (cr3 ?s)(me := dir_addr v - KERNBASE)\<rparr>) (k\<lparr>vga := ?w, KPG_DIR := Some v\<rparr>))"
    using v(1) dir by (cases k) (simp add: kvmalloc_def set_ker_def switch_kvm_def v2p_def checked_sub_def)
  have "kernel_space l low live avail v"
    using v(2,4,5) pre(3) dir kvm_view_translate [OF v(2,3) link(2-4)] by (simp add: kernel_space_def)
  then show ?thesis using 1 2 3 by (auto simp: main_memory_def)
qed

section \<open>The processor that starts the kernel\<close>

definition firmware_lists :: "bytes_mem \<Rightarrow> mp_entry list \<Rightarrow> bool" where
  "firmware_lists m es \<longleftrightarrow> (\<exists>mp conf. config m = Inr (Some (mp, conf)) \<and> imcr m mp = 0 \<and> mp_table_at m (conf + 44) es
     \<and> unat (conf_length m conf) = 44 + table_size es \<and> unat conf + unat (conf_length m conf) < 2 ^ 32)"

text \<open>Processor number \<open>i\<close> with the identifier \<open>me\<close> runs outside every lock and with interrupts off.\<close>

definition boot_cpu :: "u8 \<Rightarrow> nat \<Rightarrow> u8 list \<Rightarrow> 'b kst_scheme \<Rightarrow> bool" where
  "boot_cpu me i ids s \<longleftrightarrow> cpus_ok s \<and> map apic_id (cpus s) = ids \<and> i < n_cpu s \<and> apic_id (cpu_table s ! i) = me
     \<and> eflags s me AND FL_IF = 0 \<and> depth s me i 0"

lemma boot_cpuD:
  assumes "boot_cpu me i ids s"
  shows "cpus_ok s" "i < n_cpu s" "apic_id (cpu_table s ! i) = me" "eflags s me AND FL_IF = 0" "depth s me i 0" "map apic_id (cpus s) = ids"
    "n_cpu s = length ids" "length (cpus s) = length ids"
proof -
  show "cpus_ok s" "i < n_cpu s" "apic_id (cpu_table s ! i) = me" "eflags s me AND FL_IF = 0" "depth s me i 0" and ids: "map apic_id (cpus s) = ids"
    using assms by (simp_all add: boot_cpu_def)
  show l: "length (cpus s) = length ids" using arg_cong [OF ids, of length] by simp
  then show "n_cpu s = length ids" using \<open>cpus_ok s\<close> by (simp add: cpus_ok_def cpus_def)
qed

lemma boot_cpu_id:
  assumes "boot_cpu me i ids s" "j < length ids"
  shows "ids ! j = apic_id (cpu_table s ! j)"
proof -
  note D = boot_cpuD [OF assms(1)]
  show ?thesis unfolding D(6) [symmetric] using assms(2) D(7,8) by (simp add: cpus_def)
qed

lemma boot_cpu_other:
  assumes "boot_cpu me i ids s" "j < n_cpu s" "j \<noteq> i"
  shows "apic_id (cpu_table s ! j) \<in> set ids - {me}"
proof -
  note D = boot_cpuD [OF assms(1)]
  have "j < length (cpus s)" using assms(2) D(7,8) by simp
  then have "apic_id (cpus s ! j) \<in> set ids" unfolding D(6) [symmetric] by simp
  moreover have "cpus s ! j = cpu_table s ! j" using assms(2) by (simp add: cpus_def)
  ultimately show ?thesis using cpu_ids_differ [OF D(1) assms(2) D(2) assms(3)] D(3) by simp
qed

lemma boot_cpuI:
  assumes "cpus_ok s" "map apic_id (cpus s) = ids" "i < n_cpu s" "apic_id (cpu_table s ! i) = me" "num_cli (priv s i) = 0" "eflags s me AND FL_IF = 0"
  shows "boot_cpu me i ids s"
proof -
  have "i < length (cpus s)" "cpus s ! i = cpu_table s ! i" using assms(1,3) by (simp_all add: cpus_ok_def cpus_def)
  then have "position (\<lambda>c. apic_id c = me) (cpus s) = Some i" using position_distinct [of apic_id "cpus s" i] assms(1,4) by (simp add: cpus_ok_def)
  then have "depth s me i 0" using assms(1,5) by (simp add: depth_def cpu_at_def cpus_ok_def)
  then show ?thesis using assms by (simp add: boot_cpu_def)
qed

lemma boot_cpu_roster:
  assumes "boot_cpu me i ids s" "roster s' = roster s" "depth s' me i 0" "ints_on s' me = ints_on s me"
  shows "boot_cpu me i ids s'"
proof -
  note D = boot_cpuD [OF assms(1)]
  have r: "lapic s' = lapic s" "n_cpu s' = n_cpu s" "map (\<lambda>c. (apic_id c, started c)) (cpu_table s') = map (\<lambda>c. (apic_id c, started c)) (cpu_table s)"
    using assms(2) by (simp_all add: roster_def)
  from arg_cong [OF r(3), of "map fst"] have m: "map apic_id (cpu_table s') = map apic_id (cpu_table s)" by (simp add: o_def)
  then have "length (cpu_table s') = length (cpu_table s)" by (metis length_map)
  moreover from this have "apic_id (cpu_table s' ! i) = me" using m D(1-3) by (metis cpus_ok_def nth_map order_less_le_trans)
  moreover have "map apic_id (cpus s') = map apic_id (cpus s)" using m r(2) by (simp add: cpus_def take_map [symmetric])
  ultimately show ?thesis using D assms(3,4) r(1,2) by (simp add: boot_cpu_def cpus_ok_def ints_on_def)
qed

lemma boot_cpu_same: "same_cpus s t \<Longrightarrow> boot_cpu me i ids s \<Longrightarrow> boot_cpu me i ids t"
  using depth_same [of s t] by (auto simp: boot_cpu_def same_cpus_def cpus_ok_def cpus_def)

lemma boot_cpu_priv:
  assumes "boot_cpu me i ids s" "num_cli c = 0"
  shows "boot_cpu me i ids (set_priv i c s)"
proof -
  note D = boot_cpuD [OF assms(1)]
  let ?c = "(cpu_table s ! i)\<lparr>cpu_private := c\<rparr>"
  have "i < length (cpu_table s)" using D(1,2) by (simp add: cpus_ok_def)
  moreover have "map apic_id (cpus (set_priv i c s)) = map apic_id (cpus s)"
    using ids_update [of ?c "cpu_table s" i "n_cpu s"] by (simp add: set_priv_def cpus_def)
  moreover have "cpus_ok (set_priv i c s)" using cpus_ok_update [OF D(1), of ?c i] by (simp add: set_priv_def)
  ultimately show ?thesis using D depth_set_priv [OF D(5), of c] assms(2) by (simp add: boot_cpu_def) (simp add: set_priv_def)
qed

lemma mp_start_ok:
  assumes fw: "firmware_lists (l_firmware l) es" and ids: "distinct (take MAX_NCPU (proc_ids es))" "me \<in> set (take MAX_NCPU (proc_ids es))"
    and zero: "n_cpu (ker_of k) = 0" "cpu_table (ker_of k) = replicate MAX_NCPU CpuShared_zero" "eflags (ker_of k) me AND FL_IF = 0"
  shows "\<exists>i s. mp_start l vs k = Inr (set_ker s (k\<lparr>io_apic_id := io_id es (io_apic_id k)\<rparr>)) \<and> boot_cpu me i (take MAX_NCPU (proc_ids es)) s
    \<and> kst.more s = kst.more (ker_of k) \<and> spin s = spin (ker_of k)"
proof -
  obtain mp conf where c: "config (l_firmware l) = Inr (Some (mp, conf))" "imcr (l_firmware l) mp = 0" "mp_table_at (l_firmware l) (conf + 44) es"
      "unat (conf_length (l_firmware l) conf) = 44 + table_size es" "unat conf + unat (conf_length (l_firmware l) conf) < 2 ^ 32"
    using fw unfolding firmware_lists_def by blast
  let ?f = "fold register_cpu (proc_ids es) (ker_of k)" let ?s = "?f\<lparr>lapic := Some (conf_lapic_addr (l_firmware l) conf)\<rparr>"
  have run: "mp_start l vs k = Inr (set_ker ?s (k\<lparr>io_apic_id := io_id es (io_apic_id k)\<rparr>))"
    using mp_init_ok [where vs = vs, OF c(1) disjI1 [OF c(2)] c(3-5), of "ker_of k" "io_apic_id k"] c(2)
    by (cases k, cases "smp_of k") (simp add: mp_start_def set_ker_def Let_def imcr_out_def)
  have len: "length (cpu_table (ker_of k)) = MAX_NCPU" by (simp add: zero(2))
  have tab: "map apic_id (cpus ?s) = take MAX_NCPU (proc_ids es)" using cpus_registered [OF len, of "proc_ids es"] zero(1) by (simp add: cpus_def)
  have ok: "cpus_ok ?s" using tab ids(1) register_keeps(4) [of "ker_of k" "proc_ids es"] register_cpu_table [of "proc_ids es" "ker_of k"] zero(1) len
    by (simp add: cpus_ok_def cpus_def)
  obtain i where i: "i < length (cpus ?s)" "apic_id (cpus ?s ! i) = me" using ids(2) unfolding tab [symmetric] by (auto simp: in_set_conv_nth)
  then have i': "i < n_cpu ?s" "apic_id (cpu_table ?s ! i) = me" by (simp_all add: cpus_def)
  have "map (\<lambda>c. c\<lparr>apic_id := 0\<rparr>) (cpu_table ?s) = map (\<lambda>c. c\<lparr>apic_id := 0\<rparr>) (replicate MAX_NCPU CpuShared_zero)"
    using register_keeps(5) [of "proc_ids es" "ker_of k"] zero(2) by simp
  then have z: "cpu_private c = cpu_private CpuShared_zero" if "c \<in> set (cpu_table ?s)" for c
  proof -
    have "c\<lparr>apic_id := 0\<rparr> \<in> (\<lambda>c. c\<lparr>apic_id := 0\<rparr>) ` set (replicate MAX_NCPU CpuShared_zero)"
      using that \<open>map _ (cpu_table ?s) = _\<close> by (metis (no_types, lifting) image_eqI set_map)
    then show ?thesis by (cases c) (auto simp: CpuShared_zero_def)
  qed
  then have "num_cli (priv ?s i) = 0" using z [of "cpu_table ?s ! i"] i' ok by (simp add: cpus_ok_def CpuShared_zero_def)
  moreover have "eflags ?s me AND FL_IF = 0" using zero(3) register_keeps(1) [of "proc_ids es" "ker_of k"] by simp
  ultimately have "boot_cpu me i (take MAX_NCPU (proc_ids es)) ?s" by (intro boot_cpuI [OF ok tab i'])
  then show ?thesis using run register_keeps(2,3) [of "proc_ids es" "ker_of k"] by (intro exI [of _ i] exI [of _ ?s]) simp
qed

text \<open>What the next steps leave alone.\<close>

definition same_devices :: "'h kernel \<Rightarrow> 'h kernel \<Rightarrow> bool" where
  "same_devices k k' \<longleftrightarrow> vga k' = vga k \<and> com1 k' = com1 k \<and> io_apic k' = io_apic k \<and> hard_disk k' = hard_disk k \<and> dev_table k' = dev_table k
     \<and> idt k' = idt k \<and> KPG_DIR k' = KPG_DIR k"

lemma main_cpus_ok:
  assumes fw: "firmware_lists (l_firmware l) es" and ids: "distinct (take MAX_NCPU (proc_ids es))" "me \<in> set (take MAX_NCPU (proc_ids es))"
    and zero: "n_cpu (ker_of k) = 0" "cpu_table (ker_of k) = replicate MAX_NCPU CpuShared_zero" "eflags (ker_of k) me AND FL_IF = 0"
    and dev: "\<exists>v \<in> set (icr (lapics (smp_of k) me)). v AND DELIVS = 0"
  shows "\<exists>i k'. main_cpus l vs me k = Inr k' \<and> boot_cpu me i (take MAX_NCPU (proc_ids es)) (ker_of k') \<and> kst.more (ker_of k') = kst.more (ker_of k)
    \<and> spin (ker_of k') = spin (ker_of k) \<and> (\<forall>a. a \<noteq> me \<longrightarrow> lapics (smp_of k') a = lapics (smp_of k) a) \<and> same_devices k k'
    \<and> gdtr_of (smp_of k') me = dt_reg (gdt_addr (l_image l) i) NSEGS"
proof -
  obtain i s where s: "mp_start l vs k = Inr (set_ker s (k\<lparr>io_apic_id := io_id es (io_apic_id k)\<rparr>))" "boot_cpu me i (take MAX_NCPU (proc_ids es)) s"
      "kst.more s = kst.more (ker_of k)" "spin s = spin (ker_of k)"
    using mp_start_ok [OF fw ids zero, of vs] by blast
  let ?k1 = "set_ker s (k\<lparr>io_apic_id := io_id es (io_apic_id k)\<rparr>)"
  obtain d where d: "lapic_init (lapic s) (lapics (smp_of k) me) = Inr d" using lapic_init_returns [OF dev] by blast
  let ?t = "(smp_of ?k1)\<lparr>lapics := (lapics (smp_of k))(me := d)\<rparr>"
  have 1: "on_smp (lapic_start me) ?k1 = Inr (?k1\<lparr>smp_of := ?t\<rparr>)" using d by (simp add: on_smp_def lapic_start_def set_ker_def)
  note D = boot_cpuD [OF s(2)]
  have k: "ker ?t = s" by (simp add: set_ker_def)
  let ?p = "(priv s i)\<lparr>gdt := seginit_gdt (gdt (priv s i))\<rparr>"
  let ?g = "dt_reg (gdt_addr (image_of l (?k1\<lparr>smp_of := ?t\<rparr>)) i) NSEGS"
  have "seginit (image_of l (?k1\<lparr>smp_of := ?t\<rparr>)) me ?t = Inr (?t\<lparr>ker := set_priv i ?p s, gdtr_of := (gdtr_of ?t)(me := ?g)\<rparr>)"
    by (rule seginit_ok [of ?t i me, unfolded k, OF D(1-4)])
  then have 2: "on_smp (seginit (image_of l (?k1\<lparr>smp_of := ?t\<rparr>)) me) (?k1\<lparr>smp_of := ?t\<rparr>)
      = Inr (?k1\<lparr>smp_of := ?t\<lparr>ker := set_priv i ?p s, gdtr_of := (gdtr_of ?t)(me := ?g)\<rparr>\<rparr>)" (is "_ = Inr ?k'") by (simp add: on_smp_def)
  have "main_cpus l vs me k = Inr ?k'" by (simp only: main_cpus_def s(1) 1 2 rbind_simps)
  moreover have "boot_cpu me i (take MAX_NCPU (proc_ids es)) (ker_of ?k')" using boot_cpu_priv [OF s(2), of ?p] depthD(2) [OF D(5)] by simp
  moreover have "kst.more (set_priv i ?p s) = kst.more s" "spin (set_priv i ?p s) = spin s" by (simp_all add: set_priv_def)
  moreover have "gdt_addr (image_of l k) = gdt_addr (l_image l)" for k by (simp add: image_of_def split: option.split)
  ultimately show ?thesis using s(3,4) by (intro exI [of _ i] exI [of _ ?k']) (simp add: same_devices_def set_ker_def)
qed

section \<open>The other processors and the first process\<close>

lemma brought_boot:
  assumes b: "brought live im me i t0 (n_cpu (ker t0)) t" and c: "boot_cpu me i ids (ker t0)"
  shows "boot_cpu me i ids (ker t)" "j < length ids \<Longrightarrow> j \<noteq> i \<Longrightarrow> started (cpu_table (ker t) ! j)"
    "a \<in> set ids \<Longrightarrow> a \<noteq> me \<Longrightarrow> cr3 (ker t) a = kpg_dir_addr im - KERNBASE"
    "j < length ids \<Longrightarrow> j \<noteq> i \<Longrightarrow> gdtr_of t (ids ! j) = dt_reg (gdt_addr im j) NSEGS \<and> idtr_of t (ids ! j) = dt_reg (idt_addr im) 256"
proof -
  note D = boot_cpuD [OF c]
  have len: "n_cpu (ker t0) \<le> length (cpu_table (ker t0))" using D(1) by (simp add: cpus_ok_def)
  have tab: "cpu_table (ker t) ! j = (if j < n_cpu (ker t0) \<and> j \<noteq> i then brought_up (cpu_table (ker t0) ! j) else cpu_table (ker t0) ! j)"
    if "j < length (cpu_table (ker t0))" for j using b that by (simp add: brought_def)
  have ids: "map apic_id (cpus (ker t)) = ids"
  proof -
    have "length (cpu_table (ker t)) = length (cpu_table (ker t0))" "n_cpu (ker t) = n_cpu (ker t0)" using b by (simp_all add: brought_def)
    then have "map apic_id (cpus (ker t)) = map apic_id (cpus (ker t0))" using tab len by (intro nth_equalityI) (auto simp: cpus_def)
    then show ?thesis using D(6) by simp
  qed
  show "boot_cpu me i ids (ker t)"
    by (rule boot_cpuI [OF brought_ids(1) [OF b D(1)] ids]) (use b D len tab [of i] depthD(2) [OF D(5)] in \<open>auto simp: brought_def\<close>)
  show "gdtr_of t (ids ! j) = dt_reg (gdt_addr im j) NSEGS \<and> idtr_of t (ids ! j) = dt_reg (idt_addr im) 256" if "j < length ids" "j \<noteq> i"
    using that b boot_cpu_id [OF c, of j] D(7) by (simp add: brought_def)
  show "started (cpu_table (ker t) ! j)" if "j < length ids" "j \<noteq> i" using that tab [of j] D(7) len by (simp add: brought_up_def)
  show "cr3 (ker t) a = kpg_dir_addr im - KERNBASE" if a: "a \<in> set ids" "a \<noteq> me"
  proof -
    obtain j where "j < length (cpus (ker t0))" "apic_id (cpus (ker t0) ! j) = a" using a(1) unfolding D(6) [symmetric] by (auto simp: in_set_conv_nth)
    then have j: "j < n_cpu (ker t0)" "apic_id (cpu_table (ker t0) ! j) = a" by (simp_all add: cpus_def)
    then have "j \<noteq> i" using a(2) D(3) by auto
    then show ?thesis using b j by (auto simp: brought_def)
  qed
qed

lemma roster_finished:
  assumes cpu: "boot_cpu me i ids s" and up: "\<And>j. j < length ids \<Longrightarrow> j \<noteq> i \<Longrightarrow> started (cpu_table s ! j)"
    and r: "roster s' = apsnd (apsnd (\<lambda>cs. cs[i := (me, True)])) (roster s)"
  shows "map apic_id (cpus s') = ids" "\<forall>c \<in> set (cpus s'). started c"
proof -
  note D = boot_cpuD [OF cpu]
  let ?g = "\<lambda>c. (apic_id c, started c)"
  have n: "n_cpu s' = n_cpu s" "map ?g (cpu_table s') = (map ?g (cpu_table s))[i := (me, True)]" using r by (simp_all add: roster_def)
  then have len: "length (cpu_table s') = length (cpu_table s)" by (metis length_list_update length_map)
  have nth: "apic_id (cpus s' ! j) = apic_id (cpu_table s ! j)" "started (cpus s' ! j) \<longleftrightarrow> j = i \<or> started (cpu_table s ! j)" if "j < length ids" for j
  proof -
    have j: "j < length (cpu_table s)" "j < n_cpu s'" using that D(1,7) n(1) by (simp_all add: cpus_ok_def)
    then have "?g (cpu_table s' ! j) = map ?g (cpu_table s') ! j" using len by simp
    then have "?g (cpus s' ! j) = (if j = i then (me, True) else ?g (cpu_table s ! j))" using j by (simp add: n(2) nth_list_update cpus_def)
    then show "apic_id (cpus s' ! j) = apic_id (cpu_table s ! j)" "started (cpus s' ! j) \<longleftrightarrow> j = i \<or> started (cpu_table s ! j)" using D(3) by (auto split: if_splits)
  qed
  have l: "length (cpus s') = length ids" using len n(1) D(1,7) by (simp add: cpus_def cpus_ok_def)
  have "ids ! j = apic_id (cpu_table s ! j)" if "j < length ids" for j
    unfolding D(6) [symmetric] using that D(7,8) by (simp add: cpus_def)
  then show "map apic_id (cpus s') = ids" using nth(1) l by (intro nth_equalityI) simp_all
  show "\<forall>c \<in> set (cpus s'). started c" using nth(2) l up by (metis in_set_conv_nth)
qed

lemma main_processes_ok:
  assumes cpu: "boot_cpu me i ids (ker_of k)" and heap: "heap_ready l low live avail h0" and mem: "70 \<le> avail (heap (kvm (ker_of k)))"
    and tabs: "\<And>t tab. tables (kvm (ker_of k)) t = Some tab \<Longrightarrow> length tab = 1024 \<and> t \<in> live (heap (kvm (ker_of k)))"
    and locks: "\<And>x. \<not> locked (spin (ker_of k) x)" "pt_lock (ker_of k) < l_kernel_end l" and pt: "ptable (ker_of k) = ProcessTable_new"
    and link: "length (l_initcode l) < 4096" "unat (l_data l) mod 4096 = 0" "0x80100000 < unat (l_data l)" "unat (l_data l) < 0x8E000000"
  shows "\<exists>k' r q. main_processes l me k = Inr k' \<and> roster (ker_of k') = apsnd (apsnd (\<lambda>cs. cs[i := (me, True)])) (roster (ker_of k)) \<and> cr3 (ker_of k') = cr3 (ker_of k)
    \<and> runnable (ptable (ker_of k')) = [r] \<and> initproc (ptable (ker_of k')) = Some r \<and> procs (ker_of k') r = Some q \<and> pid q = 1 \<and> pstate q = Runnable \<and> same_devices k k'
    \<and> gdtr_of (smp_of k') = gdtr_of (smp_of k) \<and> idtr_of (smp_of k') = (idtr_of (smp_of k))(me := dt_reg (idt_addr (l_image l)) 256)"
proof -
  let ?s = "ker_of k" and ?lk = "l_heap_lock l" let ?f = "on_heap (h_extend (l_ops l) 0xDC00000)"
  note D = boot_cpuD [OF cpu]
  let ?a = "acquired me ?lk i ?s" let ?t = "?a\<lparr>kvm := (kvm ?a)\<lparr>heap := h_extend (l_ops l) 0xDC00000 (heap (kvm ?a))\<rparr>\<rparr>"
  have body: "?f ?a = Inr ((), ?t)" "same_cpus ?a ?t" "spin ?t = spin ?a" by (simp_all add: on_heap_def same_cpus_def)
  obtain s5 where s5: "with_lock me ?lk ?f ?s = Inr ((), s5)" "depth s5 me i 0" "roster s5 = roster ?s" "ints_on s5 me = ints_on ?s me" "kst.more s5 = kst.more ?t"
      "spin s5 = (spin ?s)(?lk := (spin ?s ?lk)\<lparr>lcpu := -1, locked := False\<rparr>)"
    using with_lock_frame [where f = ?f, OF D(5) locks(1) body] by blast
  note ma = pst_more [OF acquire_depth(5) [OF D(5) _ locks(1)], of ?lk, simplified] and m5 = pst_more [OF s5(5)]
  have kv: "kvm s5 = (kvm ?s)\<lparr>heap := h_extend (l_ops l) 0xDC00000 (heap (kvm ?s))\<rparr>" using m5(4) ma(4) by simp
  have ext: "live (heap (kvm ?s)) \<subseteq> live (heap (kvm s5))" "avail (heap (kvm ?s)) \<le> avail (heap (kvm s5))" using heap unfolding kv by (simp_all add: heap_ready_def)
  have tabs5: "length tab = 1024 \<and> t \<in> live (heap (kvm s5))" if "tables (kvm s5) t = Some tab" for t tab using tabs [of t tab] that ext(1) by (auto simp: kv)
  have mem5: "70 \<le> avail (heap (kvm s5))" using mem ext(2) by simp
  have ga: "galloc_ok (l_alloc l) live avail (l_kernel_end l)" using heap by (simp add: heap_ready_def)
  obtain a where a: "init_supplied (l_alloc l) (l_data l) (l_initcode l) s5 a" "l_kernel_end l \<le> ip_ref a"
    using init_supplied_ok [OF ga tabs5 mem5 link] by blast
  have pl: "pt_lock s5 = pt_lock ?s" "ptable s5 = ProcessTable_new" "cr3 s5 = cr3 ?s" using m5 ma pt by simp_all
  have pre: "\<not> locked (spin s5 (pt_lock s5))" "unat (next_pid (ptable s5)) + 1 < 2 ^ 32" "ip_ref a \<noteq> pt_lock s5"
    using locks s5(6) a(2) pl by (auto simp: ProcessTable_new_def)
  obtain s6 where s6: "user_init me (l_alloc l) (l_trapret l) (l_forkret l) (l_data l) (l_initcode l) (l_root l) s5 = Inr ((), s6)"
      "procs s6 = (procs s5)(ip_ref a \<mapsto> init_process a (next_pid (ptable s5)) (l_root l))"
      "ptable s6 = (ptable s5)\<lparr>next_pid := next_pid (ptable s5) + 1, initproc := Some (ip_ref a), runnable := runnable (ptable s5) @ [ip_ref a]\<rparr>"
      "depth s6 me i 0" "roster s6 = roster s5" "ints_on s6 me = ints_on s5 me" "cr3 s6 = cr3 s5"
    using user_init_creates [OF s5(2) pre(1,2) a(1) pre(3)] by blast
  have cpu6: "boot_cpu me i ids s6" by (rule boot_cpu_roster [OF cpu]) (use s5 s6 in simp_all)
  let ?k6 = "set_ker s6 k"
  note D6 = boot_cpuD(1-4) [OF cpu6]
  have ks: "ker (smp_of ?k6) = s6" by (simp add: set_ker_def)
  let ?s7 = "s6\<lparr>cpu_table := (cpu_table s6)[i := (cpu_table s6 ! i)\<lparr>started := True\<rparr>]\<rparr>"
  let ?g = "dt_reg (idt_addr (image_of l ?k6)) 256"
  have g: "mp_main (image_of l ?k6) me (smp_of ?k6) = Inr ((smp_of ?k6)\<lparr>ker := ?s7, idtr_of := (idtr_of (smp_of ?k6))(me := ?g)\<rparr>)"
    by (rule mp_main_ok [of "smp_of ?k6" i me, unfolded ks, OF D6])
  let ?k' = "?k6\<lparr>smp_of := (smp_of ?k6)\<lparr>ker := ?s7, idtr_of := (idtr_of (smp_of ?k6))(me := ?g)\<rparr>\<rparr>"
  have "main_processes l me k = Inr ?k'"
    using s5(1) s6(1) g by (simp add: main_processes_def on_ker_def on_smp_def main_init2_eq) (simp add: set_ker_def)
  moreover have "roster ?s7 = apsnd (apsnd (\<lambda>cs. cs[i := (me, True)])) (roster ?s)"
    using s5(3) s6(5) D6(3) by (simp add: roster_def map_update)
  moreover have "idt_addr (image_of l k) = idt_addr (l_image l)" for k by (simp add: image_of_def split: option.split)
  ultimately show ?thesis using s6 pl
    by (intro exI [of _ ?k'] exI [of _ "ip_ref a"] exI [of _ "init_process a (next_pid (ptable s5)) (l_root l)"])
      (simp add: same_devices_def set_ker_def init_process_def ProcessTable_new_def)
qed

section \<open>Properties\<close>

text \<open>The machine when the boot code calls \<^verbatim>\<open>main\<close>: the statics of the kernel have their initial values, the firmware lists the processors, and the devices answer.\<close>

definition power_on :: "'h link \<Rightarrow> u8 \<Rightarrow> mp_entry list \<Rightarrow> 'h kernel \<Rightarrow> bool" where
  "power_on l me es k \<longleftrightarrow> lapic (ker_of k) = None \<and> n_cpu (ker_of k) = 0 \<and> cpu_table (ker_of k) = replicate MAX_NCPU CpuShared_zero
     \<and> eflags (ker_of k) me AND FL_IF = 0 \<and> (\<forall>x. \<not> locked (spin (ker_of k) x)) \<and> tables (kvm (ker_of k)) = Map.empty
     \<and> wf_screen (cells (vga k)) \<and> length (dev_table k) = N_DEV \<and> com_ready (com1 k) \<and> disk_ready (hard_disk k)
     \<and> firmware_lists (l_firmware l) es \<and> distinct (take MAX_NCPU (proc_ids es)) \<and> me \<in> set (take MAX_NCPU (proc_ids es))
     \<and> (\<forall>a \<in> set (take MAX_NCPU (proc_ids es)). \<exists>v \<in> set (icr (lapics (smp_of k) a)). v AND DELIVS = 0)"

text \<open>What the linker script ensures; the statics lie below the end of the kernel.\<close>

definition linked :: "'h link \<Rightarrow> usize \<Rightarrow> bool" where
  "linked l lock \<longleftrightarrow> l_kernel_end l \<le> KERNBASE + 0x400000 \<and> lock < l_kernel_end l \<and> unat (l_data l) mod 4096 = 0
     \<and> 0x80100000 < unat (l_data l) \<and> unat (l_data l) < 0x8E000000 \<and> length (l_initcode l) < 4096"

text \<open>The state in which \<^verbatim>\<open>main\<close> starts the other processors.\<close>

definition prepared :: "'h link \<Rightarrow> u8 \<Rightarrow> nat \<Rightarrow> u8 list \<Rightarrow> 'h kernel \<Rightarrow> 'h vm \<Rightarrow> 'h kernel \<Rightarrow> bool" where
  "prepared l me i ids k v k' \<longleftrightarrow> boot_cpu me i ids (ker_of k') \<and> kvm (ker_of k') = v \<and> KPG_DIR k' = Some v \<and> cr3 (ker_of k') me = dir_addr v - KERNBASE
     \<and> gdtr_of (smp_of k') me = dt_reg (gdt_addr (l_image l) i) NSEGS \<and> (\<forall>x. \<not> locked (spin (ker_of k') x)) \<and> ptable (ker_of k') = ProcessTable_new \<and> pt_lock (ker_of k') = pt_lock (ker_of k)
     \<and> (\<forall>a. a \<noteq> me \<longrightarrow> lapics (smp_of k') a = lapics (smp_of k) a) \<and> cells (vga k') = replicate HEIGHT (row_of (wcolor (vga k)) [])
     \<and> (\<forall>j < io_lines (io_apic k). redirection (io_apic k') j = routed (is_uart (com1 k')) (length ids) j) \<and> idt k' = trap_init (l_vectors l) (idt k)"

lemma main_prepares:
  assumes on: "power_on l me es k" and link: "linked l (pt_lock (ker_of k))" and heap: "heap_ready l low live avail (heap (kvm (ker_of k)))"
    and env: "boot_env (ga_page (l_alloc l)) low spaces (l_image l) reset"
  shows "\<exists>k1 k2 k3 v i. main_memory l me k = Inr k1 \<and> main_cpus l vs me k1 = Inr k2 \<and> main_devices l k2 = Inr k3
    \<and> kernel_space l low live avail v \<and> prepared l me i (take MAX_NCPU (proc_ids es)) k v k3"
proof -
  let ?ids = "take MAX_NCPU (proc_ids es)"
  note P = on [unfolded power_on_def] and L = link [unfolded linked_def]
  obtain k1 v where k1: "main_memory l me k = Inr k1" "ker_of k1 = (ker_of k)\<lparr>kvm := v, dirs := (dirs (ker_of k))(dir_addr v \<mapsto> pg_dir v), cr3 := (cr3 (ker_of k))(me := dir_addr v - KERNBASE)\<rparr>"
      "k1 = set_ker (ker_of k1) (k\<lparr>vga := (vga k)\<lparr>cells := replicate HEIGHT (row_of (wcolor (vga k)) [])\<rparr>, KPG_DIR := Some v\<rparr>)" and v: "kernel_space l low live avail v"
    using main_memory_ok [OF _ _ _ heap env, of me] P L by (auto simp: set_ker_def)
  have f1: "com1 k1 = com1 k" "hard_disk k1 = hard_disk k" "dev_table k1 = dev_table k" "io_apic k1 = io_apic k" "idt k1 = idt k" "KPG_DIR k1 = Some v"
      "lapics (smp_of k1) = lapics (smp_of k)" "cells (vga k1) = replicate HEIGHT (row_of (wcolor (vga k)) [])" by (subst k1(3), simp add: set_ker_def)+
  obtain i k2 where k2: "main_cpus l vs me k1 = Inr k2" "boot_cpu me i ?ids (ker_of k2)" "kst.more (ker_of k2) = kst.more (ker_of k1)" "spin (ker_of k2) = spin (ker_of k1)"
      "\<forall>a. a \<noteq> me \<longrightarrow> lapics (smp_of k2) a = lapics (smp_of k1) a" "same_devices k1 k2" "gdtr_of (smp_of k2) me = dt_reg (gdt_addr (l_image l) i) NSEGS"
    using main_cpus_ok [of l es me k1 vs] P by (auto simp: k1(2) f1(7))
  note D2 = boot_cpuD [OF k2(2)] and S2 = k2(6) [unfolded same_devices_def] and m2 = pst_more [OF k2(3), unfolded k1(2), simplified]
  have n: "length (cpus (ker_of k2)) = length ?ids" "0 < length ?ids" "length ?ids < 256" using D2 P by (auto simp: MAX_NCPU_def)
  obtain k3 where k3: "main_devices l k2 = Inr k3" "ker_of k3 = (ker_of k2)\<lparr>ptable := ProcessTable_new, spin := (spin (ker_of k2))(pt_lock (ker_of k2) := SpinLock_new ''ptable'')\<rparr>"
      "lapics (smp_of k3) = lapics (smp_of k2)" "vga k3 = vga k2" "KPG_DIR k3 = KPG_DIR k2" "idt k3 = trap_init (l_vectors l) (idt k2)"
      "\<forall>j < io_lines (io_apic k2). redirection (io_apic k3) j = routed (is_uart (com1 k3)) (length ?ids) j" "gdtr_of (smp_of k3) = gdtr_of (smp_of k2)"
    using main_devices_ok [of k2 l] P S2 f1 n by auto
  have "boot_cpu me i ?ids (ker_of k3)" by (rule boot_cpu_same [OF _ k2(2)]) (simp add: k3(2) same_cpus_def)
  moreover have "\<not> locked (spin (ker_of k3) x)" for x using P k2(4) by (simp add: k3(2) k1(2) SpinLock_new_def)
  ultimately have "prepared l me i ?ids k v k3" using m2 S2 f1 k2(5,7) k3(3-8) by (simp add: prepared_def k3(2))
  then show ?thesis using k1(1) k2(1) k3(1) v by blast
qed

text \<open>Every processor is up: \<open>i\<close> is the one that runs \<^verbatim>\<open>main\<close>, which loads the interrupt table last.\<close>

definition all_up :: "'h link \<Rightarrow> u8 \<Rightarrow> nat \<Rightarrow> u8 list \<Rightarrow> 'h vm \<Rightarrow> 'h smp \<Rightarrow> bool" where
  "all_up l me i ids v t \<longleftrightarrow> boot_cpu me i ids (ker t) \<and> (\<forall>j < length ids. j \<noteq> i \<longrightarrow> started (cpu_table (ker t) ! j))
     \<and> (\<forall>a \<in> set ids. cr3 (ker t) a = dir_addr v - KERNBASE)
     \<and> (\<forall>j < length ids. gdtr_of t (ids ! j) = dt_reg (gdt_addr (l_image l) j) NSEGS \<and> (j \<noteq> i \<longrightarrow> idtr_of t (ids ! j) = dt_reg (idt_addr (l_image l)) 256))"

lemma brought_all_up:
  assumes b: "brought live im me i t0 (n_cpu (ker t0)) t" and c: "boot_cpu me i ids (ker t0)"
    and im: "im = (l_image l)\<lparr>kpg_dir_addr := dir_addr v\<rparr>" and me: "cr3 (ker t0) me = dir_addr v - KERNBASE" "gdtr_of t0 me = dt_reg (gdt_addr (l_image l) i) NSEGS"
  shows "all_up l me i ids v t"
  unfolding all_up_def
proof (intro conjI allI ballI impI)
  note B = brought_boot [OF b c] and D = boot_cpuD [OF c]
  have t: "cr3 (ker t) me = cr3 (ker t0) me" "gdtr_of t me = gdtr_of t0 me" using b by (simp_all add: brought_def)
  show "boot_cpu me i ids (ker t)" by (rule B(1))
  show "started (cpu_table (ker t) ! j)" if "j < length ids" "j \<noteq> i" for j by (rule B(2) [OF that])
  show "cr3 (ker t) a = dir_addr v - KERNBASE" if "a \<in> set ids" for a using B(3) [OF that] t(1) me(1) by (cases "a = me") (simp_all add: im)
  show "idtr_of t (ids ! j) = dt_reg (idt_addr (l_image l)) 256" if "j < length ids" "j \<noteq> i" for j using B(4) [OF that] by (simp add: im)
  show "gdtr_of t (ids ! j) = dt_reg (gdt_addr (l_image l) j) NSEGS" if "j < length ids" for j
  proof (cases "j = i")
    case True
    then show ?thesis using boot_cpu_id [OF c that] D(3) t(2) me(2) by simp
  next
    case False
    then show ?thesis using B(4) [OF that] by (simp add: im)
  qed
qed

lemma main_starts_others:
  assumes on: "power_on l me es k" and heap: "heap_ready l low live avail h0" and v: "kernel_space l low live avail v" and K: "prepared l me i (take MAX_NCPU (proc_ids es)) k v k3"
    and env: "boot_env (ga_page (l_alloc l)) low spaces (l_image l) reset" "others l = (\<lambda>im me. ap_boot spaces im (start32, gdtdesc, ret) reset me)"
  shows "\<exists>t. start_others (image_of l k3) (ga_page (l_alloc l)) (others l (image_of l k3) me) me (smp_of k3) = Inr t \<and> all_up l me i (take MAX_NCPU (proc_ids es)) v t
    \<and> 70 \<le> avail (heap (kvm (ker t))) \<and> (\<forall>p tab. tables (kvm (ker t)) p = Some tab \<longrightarrow> length tab = 1024 \<and> p \<in> live (heap (kvm (ker t))))
    \<and> (\<forall>x. \<not> locked (spin (ker t) x)) \<and> pt_lock (ker t) = pt_lock (ker_of k) \<and> ptable (ker t) = ProcessTable_new"
proof -
  let ?ids = "take MAX_NCPU (proc_ids es)" and ?im = "image_of l k3" and ?t = "smp_of k3"
  note V = v [unfolded kernel_space_def] and K = K [unfolded prepared_def]
  have cpu: "boot_cpu me i ?ids (ker ?t)" using K by blast
  note D = boot_cpuD [OF cpu]
  have al: "page_alloc_ok (ga_page (l_alloc l)) live avail" using heap by (simp add: heap_ready_def galloc_ok_def)
  have im: "?im = (l_image l)\<lparr>kpg_dir_addr := dir_addr v\<rparr>" using K by (simp add: image_of_def)
  have env': "boot_env (ga_page (l_alloc l)) low spaces ?im reset" using env(1) V by (simp add: boot_env_def im)
  have n8: "n_cpu (ker ?t) \<le> 8" using D(7) by (simp add: MAX_NCPU_def)
  then have pages: "low (heap (kvm (ker ?t)))" "n_cpu (ker ?t) \<le> avail (heap (kvm (ker ?t)))" using K V by auto
  have dev: "\<forall>j < n_cpu (ker ?t). j \<noteq> i \<longrightarrow> (\<exists>v \<in> set (icr (lapics ?t (apic_id (cpu_table (ker ?t) ! j)))). v AND DELIVS = 0)"
    using boot_cpu_other [OF cpu] K on unfolding power_on_def by (metis Diff_iff insertI1)
  obtain t where t: "start_others ?im (ga_page (l_alloc l)) (others l ?im me) me ?t = Inr t" "brought live ?im me i ?t (n_cpu (ker ?t)) t"
      "avail (heap (kvm (ker ?t))) \<le> avail (heap (kvm (ker t))) + n_cpu (ker ?t)"
    using start_others_brought [OF al env' pages D(1-4) dev, of start32 gdtdesc ret] unfolding env(2) by blast
  note T = t(2) [unfolded brought_def kept_def]
  have "length tab = 1024 \<and> p \<in> live (heap (kvm (ker t)))" if "tables (kvm (ker t)) p = Some tab" for p tab
    using that T K V unfolding pt_inv_def by (metis subsetD)
  moreover have "all_up l me i ?ids v t" by (rule brought_all_up [OF t(2) cpu im]) (use K in simp_all)
  moreover have "70 \<le> avail (heap (kvm (ker t)))" using t(3) K V n8 by auto
  ultimately show ?thesis using t(1) T K by auto
qed


text \<open>A machine with two processors and without a serial line; 200 pages of the heap below 4 MiB are free.\<close>

definition pool_alloc :: "nat page_alloc" where
  "pool_alloc h = (if h < 200 then Some (0x80200000 + of_nat h * 4096, Suc h) else None)"

definition pool_live :: "nat \<Rightarrow> usize set" where
  "pool_live h = (\<lambda>k. 0x80200000 + of_nat k * 4096) ` {..< min h 200}"

lemma unat_pool: "k < 200 \<Longrightarrow> unat (0x80200000 + of_nat k * 4096 :: usize) = 0x80200000 + k * 4096"
  by (simp add: unat_word_ariths unat_of_nat)

lemma pool_alloc_ok: "page_alloc_ok pool_alloc pool_live (\<lambda>h. 200 - h)"
proof -
  have inj: "h = k" if "0x80200000 + of_nat h * 4096 = (0x80200000 + of_nat k * 4096 :: usize)" "h < 200" "k < 200" for h k
    using arg_cong [OF that(1), of unat] unfolding unat_pool [OF that(2)] unat_pool [OF that(3)] by simp
  have live: "pool_live (Suc h) = insert (0x80200000 + of_nat h * 4096) (pool_live h)" if "h < 200" for h
    using that by (simp add: pool_live_def min_def lessThan_Suc)
  have fresh: "0x80200000 + of_nat h * 4096 \<notin> pool_live h" if "h < 200" for h
  proof
    assume "0x80200000 + of_nat h * 4096 \<in> pool_live h"
    then obtain k where "0x80200000 + of_nat h * 4096 = (0x80200000 + of_nat k * 4096 :: usize)" "k \<in> {..<min h 200}" unfolding pool_live_def by (rule imageE)
    then show False using inj [of h k] that by simp
  qed
  have mod: "(0x80200000 + of_nat h * 4096 :: usize) mod 4096 = 0 \<and> KERNBASE \<le> 0x80200000 + of_nat h * 4096" if "h < 200" for h
    using that unat_pool [OF that] by (auto simp: word_unat_eq_iff unat_mod_distrib word_le_nat_alt KERNBASE_def)
  show ?thesis using live fresh mod by (auto simp: page_alloc_ok_def pool_alloc_def split: if_splits)
qed

lemma pool_env: "boot_env pool_alloc (\<lambda>_. True) demo_spaces demo_image demo_sys"
proof -
  have "p \<le> KERNBASE + 0x3FF000" if "pool_alloc h = Some (p, h')" for h p h'
    using that unat_pool [of h] by (auto simp: pool_alloc_def word_le_nat_alt KERNBASE_def split: if_splits)
  then show ?thesis by (auto simp: boot_env_def demo_spaces_def demo_image_def demo_sys_def KERNBASE_def CR0_PG_def)
qed

definition duo_conf :: "u8 list" where
  "duo_conf = [80, 67, 77, 80, 92, 0, 4, 137, 0, 0, 0, 0, 0, 0, 0, 0, 0, 0, 0, 0, 0, 0, 0, 0, 0, 0, 0, 0, 0, 0, 0, 0, 0, 0, 3, 0, 0, 0, 224, 254, 0, 0, 0, 0,
     0, 0, 20, 3, 0, 0, 0, 0, 0, 0, 0, 0, 0, 0, 0, 0, 0, 0, 0, 0, 0, 1, 20, 1, 0, 0, 0, 0, 0, 0, 0, 0, 0, 0, 0, 0, 0, 0, 0, 0, 2, 7, 17, 1, 0, 0, 192, 254]"

definition duo_mem :: bytes_mem where
  "duo_mem a = (if a = 0x8000040E then 0xC0 else if a = 0x8000040F then 0x9F
     else if a - 0x8009FC00 < 16 then demo_mp ! unat (a - 0x8009FC00) else if a - 0x8009FD00 < 92 then duo_conf ! unat (a - 0x8009FD00) else 0)"

lemma duo_fields:
  "mp_verify duo_mem 0x8009FC00" "conf_verify duo_mem 0x8009FD00"
  "mem_u16 duo_mem 0x8000040E = 0x9FC0" "conf_addr duo_mem 0x8009FC00 = 0x9FD00" "conf_version duo_mem 0x8009FD00 = 4"
  "imcr duo_mem 0x8009FC00 = 0" "conf_length duo_mem 0x8009FD00 = 92" "mp_table_at duo_mem (0x8009FD00 + 44) [Proc 0, Proc 1, IoApic 7]"
  by code_simp+

lemma duo_lists: "firmware_lists duo_mem [Proc 0, Proc 1, IoApic 7]"
proof -
  have "candidates 0x8009FC00 64 = 0x8009FC00 # candidates 0x8009FC10 63" using candidates_Suc [of "0x8009FC00" 63] by simp
  then have "search duo_mem = Inr (Some 0x8009FC00)"
    unfolding search_eq using duo_fields(1) by (simp add: Let_def duo_fields(3) KERNBASE_def)
  then have "config duo_mem = Inr (Some (0x8009FC00, 0x8009FD00))"
    using duo_fields(2) by (simp add: config_def get_conf_def duo_fields p2v_def checked_add_def KERNBASE_def)
  then show ?thesis unfolding firmware_lists_def
    by (intro exI [of _ "0x8009FC00"] exI [of _ "0x8009FD00"]) (use duo_fields in simp)
qed

definition duo_link :: "nat link" where
  "duo_link = \<lparr>l_ops = \<lparr>h_init = (\<lambda>_ _ _. 0), h_extend = (\<lambda>_ h. h), h_dealloc = (\<lambda>_ _ _ h. h)\<rparr>,
     l_alloc = \<lparr>ga_page = pool_alloc, ga_arc = (\<lambda>h. Some (0x80300000, h)), ga_free = (\<lambda>p h. h)\<rparr>, l_image = demo_image, l_kernel_end = 0x80115000,
     l_data = 0x80108000, l_vga_lock = 0x80112000, l_heap_lock = 0x80113000, l_firmware = duo_mem, l_vectors = replicate 256 0x80104000, l_trapret = 0x80102000,
     l_forkret = 0x80103000, l_initcode = [0x90], l_root = None, others = (\<lambda>im me. ap_boot demo_spaces im (0x7020, 0x7090, 0x7068) demo_sys me)\<rparr>"

definition duo_kernel :: "nat kernel" where
  "duo_kernel = \<lparr>smp_of = demo_smp\<lparr>ker := \<lparr>lapic = None, n_cpu = 0, cpu_table = replicate MAX_NCPU CpuShared_zero, eflags = (\<lambda>_. 2),
       spin = (\<lambda>_. SpinLock_new ''lock''), procs = Map.empty, ptable = ProcessTable_new, pt_lock = 0x80110000, kvm = bump_vm, dirs = Map.empty, kmem = (\<lambda>_. 0),
       cr3 = (\<lambda>_. 0), task_reg = (\<lambda>_. 0)\<rparr>\<rparr>, vga = demo_writer, com1 = \<lparr>is_uart = False, lsr = [0xFF], sent = []\<rparr>,
     io_apic = \<lparr>io_sel = 0, io_regs = (\<lambda>_. 0x170020)\<rparr>, io_apic_id = 0, hard_disk = demo_ide\<lparr>status := 0x50 # replicate 1000 0\<rparr>,
     block_cache = Map.empty, inode_cache = Map.empty, dev_table = DEV_zero, idt = replicate 256 gate_new, KPG_DIR = None\<rparr>"

lemma duo_power_on: "power_on duo_link 0 [Proc 0, Proc 1, IoApic 7] duo_kernel"
proof -
  have "disk_ready (hard_disk duo_kernel)"
    unfolding disk_ready_def by (intro exI [of _ "[]"] exI [of _ "0x50"] exI [of _ "replicate 1000 0"]) (simp add: duo_kernel_def ready_def ide_consts)
  moreover have "com_ready (com1 duo_kernel)" by (simp add: com_ready_def duo_kernel_def)
  moreover have "wf_screen (cells (vga duo_kernel))" by (simp add: duo_kernel_def demo_writer_def wf_screen_def HEIGHT_def WIDTH_def)
  ultimately show ?thesis
    using duo_lists by (simp add: power_on_def) (simp add: duo_kernel_def duo_link_def FL_IF_def SpinLock_new_def bump_vm_def DEV_zero_def MAX_NCPU_def demo_smp_def)
qed

lemma duo_heap: "heap_ready duo_link (\<lambda>_. True) pool_live (\<lambda>h. 200 - h) (heap (kvm (ker_of duo_kernel)))"
  using pool_alloc_ok by (auto simp: heap_ready_def galloc_ok_def duo_link_def)


end
