(* ===== verification/Lock_Steps.thy ===== *)
theory Lock_Steps
  imports Locks
begin

text \<open>
  Several processors that acquire and release spin locks at the same time. Every access of
  \<^verbatim>\<open>acquire\<close> and \<^verbatim>\<open>release\<close> (\<^verbatim>\<open>kernel/src/lock.rs\<close>) to the two atomic cells of a lock is one step, and the
  steps of the processors interleave freely; what a processor does to its own record and flags
  happens together with the access it precedes or follows. The fences of the code and the processor
  make the accesses appear in program order.
\<close>

section \<open>Steps\<close>

datatype phase = Run
  | AcqLocked usize \<comment> \<open>in \<^verbatim>\<open>acquire\<close>: \<^verbatim>\<open>holding\<close> is about to load \<^verbatim>\<open>locked\<close>\<close>
  | AcqCpu usize \<comment> \<open>\<^verbatim>\<open>holding\<close> is about to load \<^verbatim>\<open>cpu\<close>\<close>
  | Spinning usize \<comment> \<open>in the loop of \<^verbatim>\<open>compare_and_swap\<close>\<close>
  | Won usize \<comment> \<open>about to store \<^verbatim>\<open>cpu\<close>\<close>
  | RelLocked usize \<comment> \<open>in \<^verbatim>\<open>release\<close>: \<^verbatim>\<open>holding\<close> is about to load \<^verbatim>\<open>locked\<close>\<close>
  | RelCpu usize
  | ClearCpu usize \<comment> \<open>about to store \<open>-1\<close> to \<^verbatim>\<open>cpu\<close>\<close>
  | Unlock usize \<comment> \<open>about to store \<open>false\<close> to \<^verbatim>\<open>locked\<close>\<close>
  | Panicked

record lctl =
  ctl :: "u8 \<Rightarrow> phase"
  held :: "u8 \<Rightarrow> usize set"

type_synonym 'b lstate = "'b kst_scheme \<times> lctl"

abbreviation goto :: "lctl \<Rightarrow> u8 \<Rightarrow> phase \<Rightarrow> lctl" where
  "goto c me p \<equiv> c\<lparr>ctl := (ctl c)(me := p)\<rparr>"

definition set_locked :: "bool \<Rightarrow> usize \<Rightarrow> 'b kst_scheme \<Rightarrow> 'b kst_scheme" where
  "set_locked b l s = s\<lparr>spin := (spin s)(l := (spin s l)\<lparr>locked := b\<rparr>)\<rparr>"

definition set_lcpu :: "int \<Rightarrow> usize \<Rightarrow> 'b kst_scheme \<Rightarrow> 'b kst_scheme" where
  "set_lcpu n l s = s\<lparr>spin := (spin s)(l := (spin s l)\<lparr>lcpu := n\<rparr>)\<rparr>"

inductive lstep :: "u8 \<Rightarrow> 'b lstate \<Rightarrow> 'b lstate \<Rightarrow> bool" where
  acq_call: "\<lbrakk>ctl c me = Run; lapic_id me s \<noteq> None; rbind (push_cli me s) (push_cli me) = Inr s1\<rbrakk>
    \<Longrightarrow> lstep me (s, c) (s1, goto c me (AcqLocked l))"
| acq_free: "\<lbrakk>ctl c me = AcqLocked l; \<not> locked (spin s l); pop_cli me s = Inr s1\<rbrakk>
    \<Longrightarrow> lstep me (s, c) (s1, goto c me (Spinning l))"
| acq_taken: "\<lbrakk>ctl c me = AcqLocked l; locked (spin s l)\<rbrakk>
    \<Longrightarrow> lstep me (s, c) (s, goto c me (AcqCpu l))"
| acq_other: "\<lbrakk>ctl c me = AcqCpu l; my_cpu_id me s = Inr k; lcpu (spin s l) \<noteq> int k; pop_cli me s = Inr s1\<rbrakk>
    \<Longrightarrow> lstep me (s, c) (s1, goto c me (Spinning l))"
| acq_own: "\<lbrakk>ctl c me = AcqCpu l; my_cpu_id me s = Inr k; lcpu (spin s l) = int k; pop_cli me s = Inr s1\<rbrakk>
    \<Longrightarrow> lstep me (s, c) (s1, goto c me Panicked)"
| cas_fail: "\<lbrakk>ctl c me = Spinning l; locked (spin s l)\<rbrakk> \<Longrightarrow> lstep me (s, c) (s, c)"
| cas_ok: "\<lbrakk>ctl c me = Spinning l; \<not> locked (spin s l)\<rbrakk>
    \<Longrightarrow> lstep me (s, c) (set_locked True l s, goto c me (Won l))"
| acq_done: "\<lbrakk>ctl c me = Won l; my_cpu_id me s = Inr k\<rbrakk>
    \<Longrightarrow> lstep me (s, c) (set_lcpu (int k) l s, goto (c\<lparr>held := (held c)(me := insert l (held c me))\<rparr>) me Run)"
| rel_call: "\<lbrakk>ctl c me = Run; lapic_id me s \<noteq> None; push_cli me s = Inr s1\<rbrakk>
    \<Longrightarrow> lstep me (s, c) (s1, goto c me (RelLocked l))"
| rel_free: "\<lbrakk>ctl c me = RelLocked l; \<not> locked (spin s l); pop_cli me s = Inr s1\<rbrakk>
    \<Longrightarrow> lstep me (s, c) (s1, goto c me Panicked)"
| rel_taken: "\<lbrakk>ctl c me = RelLocked l; locked (spin s l)\<rbrakk> \<Longrightarrow> lstep me (s, c) (s, goto c me (RelCpu l))"
| rel_other: "\<lbrakk>ctl c me = RelCpu l; my_cpu_id me s = Inr k; lcpu (spin s l) \<noteq> int k; pop_cli me s = Inr s1\<rbrakk>
    \<Longrightarrow> lstep me (s, c) (s1, goto c me Panicked)"
| rel_own: "\<lbrakk>ctl c me = RelCpu l; my_cpu_id me s = Inr k; lcpu (spin s l) = int k; pop_cli me s = Inr s1\<rbrakk>
    \<Longrightarrow> lstep me (s, c) (s1, goto c me (ClearCpu l))"
| clear_cpu: "ctl c me = ClearCpu l \<Longrightarrow> lstep me (s, c) (set_lcpu (-1) l s, goto c me (Unlock l))"
| unlock: "\<lbrakk>ctl c me = Unlock l; pop_cli me (set_locked False l s) = Inr s1\<rbrakk>
    \<Longrightarrow> lstep me (s, c) (s1, goto (c\<lparr>held := (held c)(me := held c me - {l})\<rparr>) me Run)"

inductive lsteps :: "'b lstate \<Rightarrow> 'b lstate \<Rightarrow> bool" where
  lsteps_refl: "lsteps x x"
| lsteps_step: "lsteps x y \<Longrightarrow> lstep me y z \<Longrightarrow> lsteps x z"

inductive_cases lstepE: "lstep me x y"

section \<open>The invariant\<close>

definition owns :: "lctl \<Rightarrow> u8 \<Rightarrow> usize \<Rightarrow> bool" where
  "owns c me l \<longleftrightarrow> l \<in> held c me \<or> ctl c me = Won l"

definition index_of :: "'b kst_scheme \<Rightarrow> u8 \<Rightarrow> nat option" where
  "index_of s me = position (\<lambda>cpu. apic_id cpu = me) (cpus s)"

text \<open>Processor \<open>me\<close> is the one that the lock names as its holder.\<close>

definition names :: "'b kst_scheme \<Rightarrow> usize \<Rightarrow> u8 \<Rightarrow> bool" where
  "names s l me \<longleftrightarrow> (\<exists>k. index_of s me = Some k \<and> lcpu (spin s l) = int k)"

definition lock_inv :: "'b lstate \<Rightarrow> bool" where
  "lock_inv = (\<lambda>(s, c).
     (\<forall>l. locked (spin s l) \<longleftrightarrow> (\<exists>me. owns c me l)) \<and>
     (\<forall>l me me'. owns c me l \<longrightarrow> owns c me' l \<longrightarrow> me = me') \<and>
     (\<forall>l me. names s l me \<longleftrightarrow> l \<in> held c me \<and> ctl c me \<noteq> Unlock l) \<and>
     (\<forall>l me. ctl c me = ClearCpu l \<or> ctl c me = Unlock l \<longrightarrow> l \<in> held c me) \<and>
     (\<forall>l me. ctl c me = Spinning l \<or> ctl c me = Won l \<longrightarrow> l \<notin> held c me))"

text \<open>What a processor does to its own record leaves the locks and the registration alone.\<close>

definition same_locks :: "'b kst_scheme \<Rightarrow> 'b kst_scheme \<Rightarrow> bool" where
  "same_locks s t \<longleftrightarrow> spin t = spin s \<and> lapic t = lapic s \<and> (\<forall>me. index_of t me = index_of s me)"

lemma same_locks_refl [simp]: "same_locks s s"
  by (simp add: same_locks_def)

lemma same_locks_trans: "same_locks s t \<Longrightarrow> same_locks t u \<Longrightarrow> same_locks s u"
  by (simp add: same_locks_def)

lemma with_cpu_same_locks:
  assumes "with_cpu me f s = Inr (r, t)"
  shows "same_locks s t"
proof -
  obtain i c where "t = set_priv i c s"
    using assms by (auto simp: with_cpu_def set_priv_def rbind_Ok_iff)
  moreover have "index_of (set_priv i c s) you = index_of s you" for you
    unfolding index_of_def position_map [of apic_id] apic_ids_set_priv ..
  ultimately show ?thesis by (simp add: same_locks_def)
qed

lemma eflags_same_locks: "same_locks s (x86_cli me s)" "same_locks s (x86_sti me s)"
  by (simp_all add: same_locks_def index_of_def cpus_def)

lemma push_cli_same_locks: "push_cli me s = Inr t \<Longrightarrow> same_locks s t"
  by (auto simp: push_cli_def Let_def rbind_Ok_iff intro: same_locks_trans [OF eflags_same_locks(1) with_cpu_same_locks])

lemma pop_cli_same_locks: "pop_cli me s = Inr t \<Longrightarrow> same_locks s t"
  by (auto simp: pop_cli_def rbind_Ok_iff intro: same_locks_trans [OF with_cpu_same_locks eflags_same_locks(2)]
      with_cpu_same_locks split: if_splits)

lemma push_twice_same_locks: "rbind (push_cli me s) (push_cli me) = Inr t \<Longrightarrow> same_locks s t"
  by (auto simp: rbind_Ok_iff intro: same_locks_trans [OF push_cli_same_locks push_cli_same_locks])

lemma my_cpu_id_index: "my_cpu_id me s = Inr k \<Longrightarrow> index_of s me = Some k"
  by (auto simp: my_cpu_id_def index_of_def lapic_id_def rbind_Ok_iff rexpect_def rassert_def split: option.splits if_splits)

lemma index_of_inj: "index_of s me = Some k \<Longrightarrow> index_of s you = Some k \<Longrightarrow> me = you"
  unfolding index_of_def by (drule position_Some)+ simp

lemma names_unique: "names s l me \<Longrightarrow> names s l you \<Longrightarrow> me = you"
  using index_of_inj by (fastforce simp: names_def)

lemma index_of_set [simp]: "index_of (set_locked b l s) me = index_of s me" "index_of (set_lcpu n l s) me = index_of s me"
  by (simp_all add: index_of_def set_locked_def set_lcpu_def cpus_def)

lemma locked_set [simp]: "locked (spin (set_locked b l s) l') = (if l' = l then b else locked (spin s l'))"
  "lcpu (spin (set_locked b l s) l') = lcpu (spin s l')" "locked (spin (set_lcpu n l s) l') = locked (spin s l')"
  "lcpu (spin (set_lcpu n l s) l') = (if l' = l then n else lcpu (spin s l'))"
  by (simp_all add: set_locked_def set_lcpu_def)

lemma names_cong: "same_locks s t \<Longrightarrow> names t l me = names s l me" "same_locks s t \<Longrightarrow> locked (spin t l) = locked (spin s l)"
  by (simp_all add: same_locks_def names_def)

lemma names_set [simp]: "names (set_locked b l s) l' me = names s l' me"
  "names (set_lcpu (-1) l s) l' me = (l' \<noteq> l \<and> names s l' me)"
  by (auto simp: names_def)

lemma names_set_cpu: "index_of s me = Some k \<Longrightarrow> names (set_lcpu (int k) l s) l' you = (if l' = l then you = me else names s l' you)"
  using index_of_inj [of s me k you] by (auto simp: names_def)

lemma lock_invD:
  assumes "lock_inv (s, c)"
  shows "locked (spin s l) \<longleftrightarrow> (\<exists>me. owns c me l)" "owns c me l \<Longrightarrow> owns c me' l \<Longrightarrow> me = me'"
    "names s l me \<longleftrightarrow> l \<in> held c me \<and> ctl c me \<noteq> Unlock l"
    "ctl c me = ClearCpu l \<Longrightarrow> l \<in> held c me" "ctl c me = Unlock l \<Longrightarrow> l \<in> held c me"
    "ctl c me = Spinning l \<Longrightarrow> l \<notin> held c me" "ctl c me = Won l \<Longrightarrow> l \<notin> held c me"
  using assms unfolding lock_inv_def by blast+

lemma lock_inv_same: "same_locks s t \<Longrightarrow> lock_inv (t, c) = lock_inv (s, c)"
  by (simp add: lock_inv_def names_cong)

text \<open>A change of phase that neither takes nor gives up a lock.\<close>

lemma lock_inv_goto:
  assumes inv: "lock_inv (s, c)" and same: "same_locks s t"
    and p: "\<And>l. p \<noteq> Won l" "\<And>l. p \<noteq> Unlock l" "\<And>l. p = ClearCpu l \<Longrightarrow> l \<in> held c me"
    "\<And>l. p = Spinning l \<Longrightarrow> l \<notin> held c me"
    and old: "\<And>l. ctl c me \<noteq> Won l" "\<And>l. ctl c me \<noteq> Unlock l"
  shows "lock_inv (t, goto c me p)"
proof -
  have "owns (goto c me p) you l \<longleftrightarrow> owns c you l" for you l
    using p(1) old(1) by (auto simp: owns_def)
  then have "lock_inv (s, goto c me p)"
    using inv p old unfolding lock_inv_def by auto
  then show ?thesis using lock_inv_same [OF same] by blast
qed

lemma lock_inv_cas:
  assumes inv: "lock_inv (s, c)" and c: "ctl c me = Spinning l" "\<not> locked (spin s l)"
  shows "lock_inv (set_locked True l s, goto c me (Won l))"
proof -
  note D = lock_invD [OF inv]
  have o: "owns (goto c me (Won l)) you l' \<longleftrightarrow> owns c you l' \<or> you = me \<and> l' = l" for you l'
    using c(1) by (auto simp: owns_def)
  have free: "\<not> owns c you l" for you using D(1) c(2) by blast
  show ?thesis
    unfolding lock_inv_def prod.case
  proof (intro conjI allI impI)
    fix l' show "locked (spin (set_locked True l s) l') \<longleftrightarrow> (\<exists>you. owns (goto c me (Won l)) you l')"
      using D(1) [of l'] by (auto simp: o)
  next
    fix l' a b assume "owns (goto c me (Won l)) a l'" "owns (goto c me (Won l)) b l'"
    then show "a = b" using free D(2) by (auto simp: o)
  next
    fix l' you show "names (set_locked True l s) l' you \<longleftrightarrow> l' \<in> held (goto c me (Won l)) you \<and> ctl (goto c me (Won l)) you \<noteq> Unlock l'"
      using D(3) c(1) by auto
  qed (use D(4-7) c in \<open>auto split: if_splits\<close>)
qed

lemma lock_inv_done:
  assumes inv: "lock_inv (s, c)" and c: "ctl c me = Won l" "index_of s me = Some k"
  shows "lock_inv (set_lcpu (int k) l s, goto (c\<lparr>held := (held c)(me := insert l (held c me))\<rparr>) me Run)"
    (is "lock_inv (?s, ?c)")
proof -
  note D = lock_invD [OF inv]
  have own: "owns c me l" using c by (simp add: owns_def)
  have o: "owns ?c you l' \<longleftrightarrow> owns c you l'" for you l'
    using c(1) by (auto simp: owns_def)
  have other: "l \<notin> held c you" if "you \<noteq> me" for you
    using D(2) [OF own, of you] that by (auto simp: owns_def)
  show ?thesis
    unfolding lock_inv_def prod.case o names_set_cpu [OF c(2)]
  proof (intro conjI allI impI)
    fix l' you show "(if l' = l then you = me else names s l' you) \<longleftrightarrow> l' \<in> held ?c you \<and> ctl ?c you \<noteq> Unlock l'"
      using D(3) [of l' you] c(1) other D(5) by auto
  qed (use D(1,2) in \<open>simp, blast\<close>, use D(4-7) in \<open>auto split: if_splits\<close>)
qed

lemma lock_inv_clear:
  assumes inv: "lock_inv (s, c)" and c: "ctl c me = ClearCpu l"
  shows "lock_inv (set_lcpu (-1) l s, goto c me (Unlock l))"
proof -
  note D = lock_invD [OF inv]
  have own: "owns c me l" using D(4) [OF c] by (simp add: owns_def)
  have o: "owns (goto c me (Unlock l)) you l' \<longleftrightarrow> owns c you l'" for you l'
    using c by (auto simp: owns_def)
  have other: "l \<notin> held c you" if "you \<noteq> me" for you
    using D(2) [OF own, of you] that by (auto simp: owns_def)
  show ?thesis
    unfolding lock_inv_def prod.case o names_set
  proof (intro conjI allI impI)
    fix l' you show "(l' \<noteq> l \<and> names s l' you) \<longleftrightarrow> l' \<in> held (goto c me (Unlock l)) you \<and> ctl (goto c me (Unlock l)) you \<noteq> Unlock l'"
      using D(3) [of l' you] c other by auto
  qed (use D(1,2) in \<open>simp, blast\<close>, use D(4-7) c in \<open>auto split: if_splits\<close>)
qed

lemma lock_inv_unlock:
  assumes inv: "lock_inv (s, c)" and c: "ctl c me = Unlock l"
  shows "lock_inv (set_locked False l s, goto (c\<lparr>held := (held c)(me := held c me - {l})\<rparr>) me Run)"
    (is "lock_inv (?s, ?c)")
proof -
  note D = lock_invD [OF inv]
  have own: "owns c me l" using D(5) [OF c] by (simp add: owns_def)
  have other: "\<not> owns c you l" if "you \<noteq> me" for you
    using D(2) own that by blast
  have o: "owns ?c you l' \<longleftrightarrow> owns c you l' \<and> l' \<noteq> l" for you l'
    using c other [of you] by (cases "you = me") (auto simp: owns_def)
  show ?thesis
    unfolding lock_inv_def prod.case o names_set
  proof (intro conjI allI impI)
    fix l' show "locked (spin (set_locked False l s) l') \<longleftrightarrow> (\<exists>you. owns c you l' \<and> l' \<noteq> l)"
      using D(1) [of l'] by simp
  next
    fix l' a b assume "owns c a l' \<and> l' \<noteq> l" "owns c b l' \<and> l' \<noteq> l"
    then show "a = b" using D(2) by blast
  next
    fix l' you show "names s l' you \<longleftrightarrow> l' \<in> held ?c you \<and> ctl ?c you \<noteq> Unlock l'"
      using D(3) [of l' you] c other [of you] by (cases "you = me") (auto simp: owns_def)
  next
    fix l' you assume "ctl ?c you = ClearCpu l' \<or> ctl ?c you = Unlock l'"
    then show "l' \<in> held ?c you" using D(4,5) [of you l'] by (cases "you = me") auto
  next
    fix l' you assume "ctl ?c you = Spinning l' \<or> ctl ?c you = Won l'"
    then show "l' \<notin> held ?c you" using D(6,7) [of you l'] by (cases "you = me") auto
  qed
qed

lemmas lock_inv_local = lock_inv_goto [OF _ pop_cli_same_locks] lock_inv_goto [OF _ push_cli_same_locks]
  lock_inv_goto [OF _ push_twice_same_locks] lock_inv_goto [OF _ same_locks_refl]

lemma lock_inv_step:
  assumes "lstep me x y" "lock_inv x"
  shows "lock_inv y"
  using assms
proof (induction rule: lstep.induct)
  case (acq_free c me l s s1)
  then have "l \<notin> held c me" using lock_invD(1) [OF acq_free(4), of l] by (auto simp: owns_def)
  with acq_free show ?case by (intro lock_inv_local(1)) auto
next
  case (acq_other c me l s k s1)
  have "\<not> names s l me" using acq_other(3) my_cpu_id_index [OF acq_other(2)] by (simp add: names_def)
  then have "l \<notin> held c me" using acq_other(1) lock_invD(3) [OF acq_other(5), of l me] by simp
  with acq_other show ?case by (intro lock_inv_local(1)) auto
next
  case (rel_own c me l s k s1)
  have "names s l me" using rel_own(3) my_cpu_id_index [OF rel_own(2)] by (simp add: names_def)
  then have "l \<in> held c me" using lock_invD(3) [OF rel_own(5), of l me] by simp
  with rel_own show ?case by (intro lock_inv_local(1)) auto
next
  case (acq_done c me l s k)
  then show ?case by (intro lock_inv_done my_cpu_id_index)
next
  case (unlock c me l s s1)
  then show ?case
    using lock_inv_same [OF pop_cli_same_locks [OF unlock(2)]] lock_inv_unlock [OF unlock(3,1)] by simp
qed (auto intro: lock_inv_cas lock_inv_clear lock_inv_local)

lemma lock_inv_steps: "lsteps x y \<Longrightarrow> lock_inv x \<Longrightarrow> lock_inv y"
  by (induction rule: lsteps.induct) (auto intro: lock_inv_step)

section \<open>Interrupts\<close>

text \<open>How much deeper than the number of locks held the nesting is in each phase.\<close>

fun pending :: "phase \<Rightarrow> nat" where
  "pending (AcqLocked l) = 2"
| "pending (AcqCpu l) = 2"
| "pending (Spinning l) = 1"
| "pending (Won l) = 1"
| "pending (RelLocked l) = 1"
| "pending (RelCpu l) = 1"
| "pending _ = 0"

definition cli_inv :: "'b lstate \<Rightarrow> bool" where
  "cli_inv = (\<lambda>(s, c). \<forall>me i. cpu_at s me i \<longrightarrow> ctl c me \<noteq> Panicked \<longrightarrow>
     cli_ok s me i \<and> finite (held c me) \<and> num_cli (priv s i) = int (card (held c me) + pending (ctl c me)))"

text \<open>\<open>me\<close> changed its nesting depth by \<open>n\<close>; nothing changed for the other processors.\<close>

definition nested_by :: "u8 \<Rightarrow> int \<Rightarrow> 'b kst_scheme \<Rightarrow> 'b kst_scheme \<Rightarrow> bool" where
  "nested_by me n s t \<longleftrightarrow> (\<forall>you i. cpu_at t you i = cpu_at s you i) \<and>
     (\<forall>i. cli_ok s me i \<longrightarrow> cli_ok t me i \<and> num_cli (priv t i) = num_cli (priv s i) + n) \<and>
     (\<forall>you i. cpu_at s you i \<longrightarrow> you \<noteq> me \<longrightarrow> priv t i = priv s i \<and> ints_on t you = ints_on s you)"

lemma cpu_at_index_of: "cpu_at s me i \<longleftrightarrow> lapic s \<noteq> None \<and> index_of s me = Some i"
  by (simp add: cpu_at_def index_of_def)

lemma same_locks_cpu_at: "same_locks s t \<Longrightarrow> cpu_at t me i = cpu_at s me i"
  by (simp add: same_locks_def cpu_at_index_of)

lemma cpu_at_inj: "cpu_at s me i \<Longrightarrow> cpu_at s you i \<Longrightarrow> me = you"
  using index_of_inj by (fastforce simp: cpu_at_index_of)

lemma nested_by_trans:
  assumes "nested_by me m s t" "nested_by me n t u"
  shows "nested_by me (m + n) s u"
  using assms unfolding nested_by_def by (simp add: add.assoc)

lemma nested_by_spin: "nested_by me 0 s (s\<lparr>spin := sp\<rparr>)"
  by (simp add: nested_by_def cpu_at_def cpus_def cli_ok_def ints_on_def)

lemma push_cli_nested:
  assumes "push_cli me s = Inr t"
  shows "nested_by me 1 s t"
proof -
  have at: "cpu_at t you i = cpu_at s you i" for you i
    using same_locks_cpu_at [OF push_cli_same_locks [OF assms]] .
  obtain k c where k: "my_cpu_id me (x86_cli me s) = Inr k" and t: "t = set_priv k c (x86_cli me s)"
    and n: "num_cli c = num_cli (priv s k) + 1" "i32_range (num_cli c)"
    using assms by (auto simp: push_cli_def Let_def with_cpu_def rbind_Ok_iff checked_i32_def set_priv_def
        split: if_splits)
  have idx: "index_of s me = Some k" using my_cpu_id_index [OF k] by (simp add: index_of_def cpus_def)
  have me: "cli_ok t me i \<and> num_cli (priv t i) = num_cli (priv s i) + 1" if "cli_ok s me i" for i
  proof -
    have "cpu_at s me i" "i = k" using that idx by (auto simp: cli_ok_def cpu_at_index_of)
    then show ?thesis
      using that n at by (auto simp: t cli_ok_def priv_set_priv i32_range_def)
  qed
  have "priv t i = priv s i \<and> ints_on t you = ints_on s you" if "cpu_at s you i" "you \<noteq> me" for you i
  proof -
    have "k \<noteq> i" using that idx index_of_inj [of s you i me] by (auto simp: cpu_at_index_of)
    then show ?thesis using that(2) by (simp add: t priv_set_priv(2))
  qed
  with me at show ?thesis by (simp add: nested_by_def)
qed

lemma with_cpu_OkD:
  "with_cpu me f s = Inr (r, t) \<Longrightarrow> \<exists>k c. my_cpu_id me s = Inr k \<and> f (priv s k) = Inr (r, c) \<and> t = set_priv k c s"
  by (auto simp: with_cpu_def set_priv_def rbind_Ok_iff)

lemma pop_cli_OkD:
  assumes "pop_cli me s = Inr t"
  obtains k c where "my_cpu_id me s = Inr k" "num_cli (priv s k) \<noteq> 0" "\<not> ints_on s me"
    "num_cli c = num_cli (priv s k) - 1"
    "t = (if num_cli c = 0 \<and> int_enabled (priv s k) then x86_sti me (set_priv k c s) else set_priv k c s)"
proof -
  have off: "\<not> ints_on s me" using assms by (simp add: pop_cli_def ints_on_def split: if_splits)
  let ?f = "\<lambda>cpu. if num_cli cpu = 0 then Fail (Panic ''pop_cli: num_cli zero'')
         else rbind (checked_i32 (num_cli cpu - 1)) (\<lambda>n. Ok (n = 0 \<and> int_enabled cpu, cpu\<lparr>num_cli := n\<rparr>))"
  obtain en u where w: "with_cpu me ?f s = Inr (en, u)" "t = (if en then x86_sti me u else u)"
    using assms off by (auto simp: pop_cli_def ints_on_def rbind_Ok_iff)
  obtain k c where k: "my_cpu_id me s = Inr k" "?f (priv s k) = Inr (en, c)" "u = set_priv k c s"
    using with_cpu_OkD [OF w(1)] by blast
  then have "num_cli (priv s k) \<noteq> 0" "num_cli c = num_cli (priv s k) - 1" "en = (num_cli c = 0 \<and> int_enabled (priv s k))"
    by (auto simp: rbind_Ok_iff checked_i32_def split: if_splits)
  then show thesis using that [of k c] k(1,3) w(2) off by simp
qed

lemma pop_cli_nested:
  assumes "pop_cli me s = Inr t"
  shows "nested_by me (-1) s t"
proof -
  have at: "cpu_at t you i = cpu_at s you i" for you i
    using same_locks_cpu_at [OF pop_cli_same_locks [OF assms]] .
  obtain k c where k: "my_cpu_id me s = Inr k" and n: "num_cli (priv s k) \<noteq> 0" "num_cli c = num_cli (priv s k) - 1"
    and off: "\<not> ints_on s me"
    and t: "t = (if num_cli c = 0 \<and> int_enabled (priv s k) then x86_sti me (set_priv k c s) else set_priv k c s)"
    using pop_cli_OkD [OF assms] by metis
  have idx: "index_of s me = Some k" using my_cpu_id_index [OF k] .
  have pt: "priv t j = priv (set_priv k c s) j" for j by (simp add: t)
  have me: "cli_ok t me i \<and> num_cli (priv t i) = num_cli (priv s i) + -1" if "cli_ok s me i" for i
  proof -
    have "cpu_at s me i" "i = k" using that idx by (auto simp: cli_ok_def cpu_at_index_of)
    then have c: "priv t i = c" by (simp add: pt priv_set_priv(1))
    then have "0 < num_cli (priv t i) \<Longrightarrow> \<not> ints_on t me" using off by (simp add: t)
    with c n(2) \<open>i = k\<close> have "num_cli (priv t i) = num_cli (priv s i) - 1" "0 < num_cli (priv t i) \<Longrightarrow> \<not> ints_on t me"
      by simp_all
    then show ?thesis using that n(1) at \<open>i = k\<close> by (auto simp: cli_ok_def)
  qed
  have "priv t i = priv s i \<and> ints_on t you = ints_on s you" if "cpu_at s you i" "you \<noteq> me" for you i
  proof -
    have "k \<noteq> i" using that idx index_of_inj [of s you i me] by (auto simp: cpu_at_index_of)
    then have "priv t i = priv s i" by (simp add: pt priv_set_priv(2))
    moreover have "ints_on t you = ints_on s you" using that(2) by (simp add: t)
    ultimately show ?thesis ..
  qed
  with me at show ?thesis by (simp add: nested_by_def)
qed

lemma push_twice_nested: "rbind (push_cli me s) (push_cli me) = Inr t \<Longrightarrow> nested_by me 2 s t"
  using nested_by_trans [where m = 1 and n = 1] by (fastforce simp: rbind_Ok_iff dest: push_cli_nested)

lemma cli_inv_change:
  assumes inv: "cli_inv (s, c)" and nest: "nested_by me n s t"
    and c: "\<And>you. you \<noteq> me \<Longrightarrow> ctl c' you = ctl c you \<and> held c' you = held c you" "ctl c me \<noteq> Panicked"
    and d: "ctl c' me = Panicked \<or> (finite (held c me) \<longrightarrow> finite (held c' me) \<and>
      int (card (held c' me) + pending (ctl c' me)) = int (card (held c me) + pending (ctl c me)) + n)"
  shows "cli_inv (t, c')"
proof -
  have "cli_ok t you i \<and> finite (held c' you) \<and> num_cli (priv t i) = int (card (held c' you) + pending (ctl c' you))"
    if at: "cpu_at t you i" and np: "ctl c' you \<noteq> Panicked" for you i
  proof (cases "you = me")
    case True
    have "cpu_at s me i" using nest at True by (simp add: nested_by_def)
    then have "cli_ok s me i" "finite (held c me)" "num_cli (priv s i) = int (card (held c me) + pending (ctl c me))"
      using inv c(2) by (auto simp: cli_inv_def)
    then show ?thesis using nest d np True by (simp add: nested_by_def)
  next
    case False
    have s: "cpu_at s you i" using nest at by (simp add: nested_by_def)
    then have "cli_ok s you i" "finite (held c you)" "num_cli (priv s i) = int (card (held c you) + pending (ctl c you))"
      using inv np c(1) [OF False] unfolding cli_inv_def by auto
    moreover have "priv t i = priv s i" "ints_on t you = ints_on s you"
      using nest False s unfolding nested_by_def by blast+
    ultimately show ?thesis
      using c(1) [OF False] at by (simp add: cli_ok_def)
  qed
  then show ?thesis by (simp add: cli_inv_def)
qed

lemma nested_by_refl: "nested_by me 0 s s"
  by (simp add: nested_by_def)

lemma nested_by_set: "nested_by me 0 s (set_locked b l s)" "nested_by me 0 s (set_lcpu n l s)"
  unfolding set_locked_def set_lcpu_def by (rule nested_by_spin)+

lemma cli_inv_step:
  assumes "lstep me x y" "lock_inv x" "cli_inv x"
  shows "cli_inv y"
  using assms
proof (induction rule: lstep.induct)
  case (acq_call c me s s1 l)
  show ?case by (rule cli_inv_change [OF acq_call(5) push_twice_nested [OF acq_call(3)]]) (use acq_call(1) in auto)
next
  case (acq_free c me l s s1)
  show ?case by (rule cli_inv_change [OF acq_free(5) pop_cli_nested [OF acq_free(3)]]) (use acq_free(1) in auto)
next
  case (acq_taken c me l s)
  show ?case by (rule cli_inv_change [OF acq_taken(4) nested_by_refl]) (use acq_taken(1) in auto)
next
  case (acq_other c me l s k s1)
  show ?case by (rule cli_inv_change [OF acq_other(6) pop_cli_nested [OF acq_other(4)]]) (use acq_other(1) in auto)
next
  case (acq_own c me l s k s1)
  show ?case by (rule cli_inv_change [OF acq_own(6) pop_cli_nested [OF acq_own(4)]]) (use acq_own(1) in auto)
next
  case (cas_ok c me l s)
  show ?case by (rule cli_inv_change [OF cas_ok(4) nested_by_set(1)]) (use cas_ok(1) in auto)
next
  case (acq_done c me l s k)
  show ?case by (rule cli_inv_change [OF acq_done(4) nested_by_set(2)]) (use acq_done(1) lock_invD(7) [OF acq_done(3,1)] in auto)
next
  case (rel_call c me s s1 l)
  show ?case by (rule cli_inv_change [OF rel_call(5) push_cli_nested [OF rel_call(3)]]) (use rel_call(1) in auto)
next
  case (rel_free c me l s s1)
  show ?case by (rule cli_inv_change [OF rel_free(5) pop_cli_nested [OF rel_free(3)]]) (use rel_free(1) in auto)
next
  case (rel_taken c me l s)
  show ?case by (rule cli_inv_change [OF rel_taken(4) nested_by_refl]) (use rel_taken(1) in auto)
next
  case (rel_other c me l s k s1)
  show ?case by (rule cli_inv_change [OF rel_other(6) pop_cli_nested [OF rel_other(4)]]) (use rel_other(1) in auto)
next
  case (rel_own c me l s k s1)
  show ?case by (rule cli_inv_change [OF rel_own(6) pop_cli_nested [OF rel_own(4)]]) (use rel_own(1) in auto)
next
  case (clear_cpu c me l s)
  show ?case by (rule cli_inv_change [OF clear_cpu(3) nested_by_set(2)]) (use clear_cpu(1) in auto)
next
  case (unlock c me l s s1)
  have mem: "l \<in> held c me" using lock_invD(5) [OF unlock(3,1)] .
  have n: "nested_by me (0 + -1) s s1"
    by (rule nested_by_trans [OF nested_by_set(1) pop_cli_nested [OF unlock(2)]])
  have "int (card (held c me - {l})) = int (card (held c me)) - 1" if "finite (held c me)"
    using card_Suc_Diff1 [OF that mem] by simp
  then show ?case by (intro cli_inv_change [OF unlock(4) n]) (use unlock(1) in auto)
qed simp

lemma cli_inv_steps: "lsteps x y \<Longrightarrow> lock_inv x \<Longrightarrow> cli_inv x \<Longrightarrow> cli_inv y"
  by (induction rule: lsteps.induct) (auto intro: cli_inv_step lock_inv_steps)

section \<open>The operations as runs\<close>

lemma lsteps_trans: "lsteps y z \<Longrightarrow> lsteps x y \<Longrightarrow> lsteps x z"
  by (induction rule: lsteps.induct) (auto intro: lsteps_step)

lemma lstep_lsteps: "lstep me x y \<Longrightarrow> lsteps y z \<Longrightarrow> lsteps x z"
  using lsteps_trans lsteps_step [OF lsteps_refl] by blast

lemma pop_spin: "pop_cli me s = Inr t \<Longrightarrow> spin t = spin s"
  using pop_cli_same_locks by (auto simp: same_locks_def)

lemma push_spin: "push_cli me s = Inr t \<Longrightarrow> spin t = spin s"
  using push_cli_same_locks by (auto simp: same_locks_def)

lemma acquire_OkD:
  assumes "acquire me l s = Inr s'" "lapic_id me s \<noteq> None"
  obtains s1 s2 k where "rbind (push_cli me s) (push_cli me) = Inr s1" "\<not> locked (spin s1 l)"
    "pop_cli me s1 = Inr s2" "\<not> locked (spin s2 l)" "my_cpu_id me (set_locked True l s2) = Inr k"
    "s' = set_lcpu (int k) l (set_locked True l s2)"
proof -
  obtain t where t: "push_cli me s = Inr t" using assms by (auto simp: acquire_def rbind_Ok_iff split: option.splits)
  obtain h s2 where h: "holding me l t = Inr (h, s2)" "\<not> h" "\<not> locked (spin s2 l)"
    and k: "rbind (my_cpu_id me (set_locked True l s2)) (\<lambda>k. Ok (set_lcpu (int k) l (set_locked True l s2))) = Inr s'"
    using assms t by (auto simp: acquire_def rbind_Ok_iff rassert_def set_locked_def set_lcpu_def Let_def
        split: option.splits if_splits)
  obtain u v where u: "push_cli me t = Inr u" "pop_cli me v = Inr s2"
      "(if locked (spin u l) then rbind (my_cpu_id me u) (\<lambda>k. Ok (lcpu (spin u l) = int k, u)) else Ok (False, u)) = Inr (h, v)"
    using h(1) by (auto simp: holding_def cli_def rbind_Ok_iff)
  then have "v = u" by (auto simp: rbind_Ok_iff split: if_splits)
  moreover from this have "\<not> locked (spin u l)" using pop_spin u(2) h(3) by metis
  ultimately show thesis using that [of u s2] t u(1,2) h(3) k by (auto simp: rbind_Ok_iff)
qed

lemma release_OkD:
  assumes "release me l s = Inr s'" "lapic_id me s \<noteq> None"
  obtains s1 s2 k where "push_cli me s = Inr s1" "locked (spin s1 l)" "my_cpu_id me s1 = Inr k"
    "lcpu (spin s1 l) = int k" "pop_cli me s1 = Inr s2" "pop_cli me (set_locked False l (set_lcpu (-1) l s2)) = Inr s'"
proof -
  obtain s2 where h: "holding me l s = Inr (True, s2)" "pop_cli me (set_locked False l (set_lcpu (-1) l s2)) = Inr s'"
    using assms by (auto simp: release_def rbind_Ok_iff rassert_def set_locked_def set_lcpu_def Let_def
        split: option.splits if_splits)
  obtain u v where u: "push_cli me s = Inr u" "pop_cli me v = Inr s2"
      "(if locked (spin u l) then rbind (my_cpu_id me u) (\<lambda>k. Ok (lcpu (spin u l) = int k, u)) else Ok (False, u)) = Inr (True, v)"
    using h(1) by (auto simp: holding_def cli_def rbind_Ok_iff)
  then obtain k where "v = u" "locked (spin u l)" "my_cpu_id me u = Inr k" "lcpu (spin u l) = int k"
    by (auto simp: rbind_Ok_iff split: if_splits)
  then show thesis using that u(1,2) h(2) by blast
qed

lemma acquire_run:
  assumes "ctl c me = Run" "lapic_id me s \<noteq> None" "acquire me l s = Inr s'"
  shows "lsteps (s, c) (s', c\<lparr>held := (held c)(me := insert l (held c me))\<rparr>)"
proof -
  from acquire_OkD [OF assms(3,2)] obtain s1 s2 k where r: "rbind (push_cli me s) (push_cli me) = Inr s1"
    "\<not> locked (spin s1 l)" "pop_cli me s1 = Inr s2" "\<not> locked (spin s2 l)"
    "my_cpu_id me (set_locked True l s2) = Inr k" "s' = set_lcpu (int k) l (set_locked True l s2)" .
  let ?c = "\<lambda>p. goto c me p"
  have "lstep me (s, c) (s1, ?c (AcqLocked l))" by (rule acq_call [OF assms(1,2) r(1)])
  moreover have "lstep me (s1, ?c (AcqLocked l)) (s2, ?c (Spinning l))"
    using acq_free [of "?c (AcqLocked l)" me l s1 s2] r by simp
  moreover have "lstep me (s2, ?c (Spinning l)) (set_locked True l s2, ?c (Won l))"
    using cas_ok [of "?c (Spinning l)" me l s2] r by simp
  moreover have "lstep me (set_locked True l s2, ?c (Won l)) (s', c\<lparr>held := (held c)(me := insert l (held c me))\<rparr>)"
    using acq_done [of "?c (Won l)" me l "set_locked True l s2" k] r assms(1) by (simp add: fun_upd_idem)
  ultimately show ?thesis
    by (meson lsteps_refl lsteps_step)
qed

lemma release_run:
  assumes "ctl c me = Run" "lapic_id me s \<noteq> None" "release me l s = Inr s'"
  shows "lsteps (s, c) (s', c\<lparr>held := (held c)(me := held c me - {l})\<rparr>)"
proof -
  from release_OkD [OF assms(3,2)] obtain s1 s2 k where r: "push_cli me s = Inr s1" "locked (spin s1 l)"
    "my_cpu_id me s1 = Inr k" "lcpu (spin s1 l) = int k" "pop_cli me s1 = Inr s2"
    "pop_cli me (set_locked False l (set_lcpu (-1) l s2)) = Inr s'" .
  let ?c = "\<lambda>p. goto c me p"
  have "lstep me (s, c) (s1, ?c (RelLocked l))" by (rule rel_call [OF assms(1,2) r(1)])
  moreover have "lstep me (s1, ?c (RelLocked l)) (s1, ?c (RelCpu l))"
    using rel_taken [of "?c (RelLocked l)" me l s1] r by simp
  moreover have "lstep me (s1, ?c (RelCpu l)) (s2, ?c (ClearCpu l))"
    using rel_own [of "?c (RelCpu l)" me l s1 k s2] r by simp
  moreover have "lstep me (s2, ?c (ClearCpu l)) (set_lcpu (-1) l s2, ?c (Unlock l))"
    using clear_cpu [of "?c (ClearCpu l)" me l s2] by simp
  moreover have "lstep me (set_lcpu (-1) l s2, ?c (Unlock l)) (s', c\<lparr>held := (held c)(me := held c me - {l})\<rparr>)"
    using unlock [of "?c (Unlock l)" me l "set_lcpu (-1) l s2" s'] r assms(1) by (simp add: fun_upd_idem)
  ultimately show ?thesis
    by (meson lsteps_refl lsteps_step)
qed

section \<open>Properties\<close>

text \<open>All processors run with no lock held, and every lock is free.\<close>

definition lock_init :: "'b lstate \<Rightarrow> bool" where
  "lock_init = (\<lambda>(s, c). (\<forall>me. ctl c me = Run \<and> held c me = {}) \<and>
     (\<forall>l. \<not> locked (spin s l) \<and> lcpu (spin s l) = -1) \<and>
     (\<forall>me i. cpu_at s me i \<longrightarrow> num_cli (priv s i) = 0))"

lemma lock_init_inv: "lock_init x \<Longrightarrow> lock_inv x" "lock_init x \<Longrightarrow> cli_inv x"
  by (auto simp: lock_init_def lock_inv_def owns_def names_def cli_inv_def cli_ok_def)

text \<open>C4. Mutual exclusion: however the processors interleave, two processors never hold the same spin
  lock, and a lock is marked as locked exactly while some processor holds it or has just won it.\<close>

theorem spin_lock_mutual_exclusion:
  assumes "lock_init x" "lsteps x (s, c)"
  shows "(l \<in> held c me \<and> l \<in> held c you \<longrightarrow> me = you)
    \<and> (locked (spin s l) \<longleftrightarrow> (\<exists>me. l \<in> held c me \<or> ctl c me = Won l))"
proof -
  have inv: "lock_inv (s, c)" using assms lock_init_inv(1) lock_inv_steps by blast
  show ?thesis using lock_invD(1,2) [OF inv] unfolding owns_def by blast
qed

text \<open>C18. A processor that holds a spin lock runs with interrupts off, and its nesting depth counts at
  least the locks it holds.\<close>

theorem lock_held_interrupts_off:
  assumes "lock_init x" "lsteps x (s, c)" "cpu_at s me i" "l \<in> held c me" "ctl c me \<noteq> Panicked"
  shows "\<not> ints_on s me \<and> int (card (held c me)) \<le> num_cli (priv s i)"
proof -
  have "cli_inv (s, c)" using assms(1,2) lock_init_inv cli_inv_steps by blast
  then have "cli_ok s me i" "finite (held c me)" "num_cli (priv s i) = int (card (held c me) + pending (ctl c me))"
    using assms(3,5) by (auto simp: cli_inv_def)
  moreover have "card (held c me) > 0" using calculation(2) assms(4) by (auto simp: card_gt_0_iff)
  ultimately show ?thesis by (simp add: cli_ok_def)
qed

text \<open>The assertions of \<^verbatim>\<open>acquire\<close> and \<^verbatim>\<open>release\<close> have no false alarms: a processor only panics when
  it acquires a lock that it holds itself or releases a lock that it does not hold.\<close>

lemma spin_lock_no_false_alarm:
  assumes "lock_init x" "lsteps x (s, c)" "lstep me (s, c) (t, d)" "ctl d me = Panicked"
  shows "\<exists>l. (ctl c me = AcqCpu l \<and> l \<in> held c me) \<or>
    ((ctl c me = RelLocked l \<or> ctl c me = RelCpu l) \<and> l \<notin> held c me)"
proof -
  have inv: "lock_inv (s, c)" using assms lock_init_inv(1) lock_inv_steps by blast
  show ?thesis using assms(3)
  proof (cases rule: lstep.cases)
    case (acq_own l k)
    then have "names s l me" using my_cpu_id_index by (auto simp: names_def)
    then show ?thesis using acq_own lock_invD(3) [OF inv, of l me] by auto
  next
    case (rel_free l)
    then show ?thesis using lock_invD(1) [OF inv, of l] by (auto simp: owns_def)
  next
    case (rel_other l k)
    then have "\<not> names s l me" using my_cpu_id_index [of me s k] by (auto simp: names_def)
    then show ?thesis using rel_other lock_invD(3) [OF inv, of l me] by auto
  qed (use assms(4) in auto)
qed

text \<open>The functions \<^verbatim>\<open>acquire\<close> and \<^verbatim>\<open>release\<close> are runs of the steps: what they compute is what the
  processor does when no other processor gets in between.\<close>

lemma acquire_release_refine_steps:
  assumes "ctl c me = Run" "lapic_id me s \<noteq> None"
  shows "(acquire me l s = Inr s' \<longrightarrow> lsteps (s, c) (s', c\<lparr>held := (held c)(me := insert l (held c me))\<rparr>))
    \<and> (release me l s = Inr s' \<longrightarrow> lsteps (s, c) (s', c\<lparr>held := (held c)(me := held c me - {l})\<rparr>))"
  using acquire_run [OF assms] release_run [OF assms] by blast

text \<open>The two processors of \<open>two_cpus\<close>, both idle; processor 0 takes the lock at 4.\<close>

definition idle_ctl :: lctl where
  "idle_ctl = \<lparr>ctl = (\<lambda>_. Run), held = (\<lambda>_. {})\<rparr>"

lemma two_cpus_init: "lock_init (two_cpus, idle_ctl)"
  by (auto simp: lock_init_def idle_ctl_def two_cpus_def CpuShared_zero_def cpu_at_def cpus_def split: if_splits)

lemma two_cpus_acquire: "acquire 0 4 two_cpus = Inr (acquired 0 4 0 two_cpus)" "lapic_id 0 two_cpus \<noteq> None"
  using acquire_eq [of two_cpus 0 0 4] two_cpus_ok(1,3,6)
  by (auto simp: cli_room_def held_by_def) (simp add: lapic_id_def two_cpus_def)

lemma two_cpus_run: "lsteps (two_cpus, idle_ctl) (acquired 0 4 0 two_cpus, idle_ctl\<lparr>held := (\<lambda>_. {})(0 := {4})\<rparr>)"
  using acquire_run [OF _ two_cpus_acquire(2,1), of idle_ctl] by (simp add: idle_ctl_def)

theorem spin_lock_mutual_exclusion_witness:
  "\<exists>c. lsteps (two_cpus, idle_ctl) (acquired 0 4 0 two_cpus, c) \<and> 4 \<in> held c 0 \<and> 4 \<notin> held c 1"
  using spin_lock_mutual_exclusion [OF two_cpus_init two_cpus_run, of 4 0 1]
  by (intro exI [of _ "idle_ctl\<lparr>held := (\<lambda>_. {})(0 := {4})\<rparr>"]) (auto simp: two_cpus_run)

theorem lock_held_interrupts_off_witness: "ints_on two_cpus 0 \<and> \<not> ints_on (acquired 0 4 0 two_cpus) 0"
proof -
  have at: "cpu_at (acquired 0 4 0 two_cpus) 0 0"
    using same_cpusD(1) [OF acquired_same [of 0 0 two_cpus 4]] two_cpus_ok(1) by (simp add: cli_ok_def)
  show ?thesis
    using lock_held_interrupts_off [OF two_cpus_init two_cpus_run at, of 4] two_cpus_ok(5)
    by (simp add: idle_ctl_def)
qed

end
