(* ===== verification/Bytes.thy ===== *)
theory Bytes
  imports Xv6_Prelude
begin

text \<open>
  Little-endian integers in byte sequences and the overwriting of a part of a sequence, as the
  on-disk structures, the ELF headers and the tables of the firmware use them.
\<close>

section \<open>Little-endian integers\<close>

definition le16 :: "u16 \<Rightarrow> u8 list" where
  "le16 w = [ucast w, ucast (drop_bit 8 w)]"

definition le32 :: "u32 \<Rightarrow> u8 list" where
  "le32 w = [ucast w, ucast (drop_bit 8 w), ucast (drop_bit 16 w), ucast (drop_bit 24 w)]"

definition of_le16 :: "u8 list \<Rightarrow> u16" where
  "of_le16 bs = ucast (bs ! 0) OR push_bit 8 (ucast (bs ! 1))"

definition of_le32 :: "u8 list \<Rightarrow> u32" where
  "of_le32 bs = ucast (bs ! 0) OR push_bit 8 (ucast (bs ! 1)) OR push_bit 16 (ucast (bs ! 2))
     OR push_bit 24 (ucast (bs ! 3))"

lemma length_le [simp]: "length (le16 a) = 2" "length (le32 b) = 4"
  by (simp_all add: le16_def le32_def)

lemma byte_bits: "bit (b :: u8) n \<Longrightarrow> n < 8"
  using bit_imp_le_length by fastforce

lemma of_le16_le16 [simp]: "of_le16 (le16 w @ bs) = w"
proof (rule bit_word_eqI)
  fix n assume "n < LENGTH(16)"
  then have n: "n < 16" by simp
  show "bit (of_le16 (le16 w @ bs)) n = bit w n"
    using n by (cases "n < 8") (auto simp: of_le16_def le16_def bit_simps)
qed

lemma of_le32_le32 [simp]: "of_le32 (le32 w @ bs) = w"
proof (rule bit_word_eqI)
  fix n assume "n < LENGTH(32)"
  then consider "n < 8" | "8 \<le> n" "n < 16" | "16 \<le> n" "n < 24" | "24 \<le> n" "n < 32" by fastforce
  then show "bit (of_le32 (le32 w @ bs)) n = bit w n"
    by cases (simp_all add: of_le32_def le32_def bit_simps less_diff_conv2)
qed

lemma of_le16_le16' [simp]: "of_le16 (le16 w) = w"
  using of_le16_le16 [of w "[]"] by simp

lemma of_le32_le32' [simp]: "of_le32 (le32 w) = w"
  using of_le32_le32 [of w "[]"] by simp

lemma take_nth4: "4 \<le> length bs \<Longrightarrow> of_le32 (take 4 bs) = of_le32 bs"
  by (simp add: of_le32_def)

lemma of_le32_zeros [simp]: "4 \<le> n \<Longrightarrow> of_le32 (replicate n 0) = 0"
  by (simp add: of_le32_def)

section \<open>Overwriting a part\<close>

text \<open>\<^verbatim>\<open>xs[off..off + ys.len()].copy_from_slice(ys)\<close>, where the range is inside.\<close>

definition overwrite :: "nat \<Rightarrow> 'a list \<Rightarrow> 'a list \<Rightarrow> 'a list" where
  "overwrite off ys xs = take off xs @ ys @ drop (off + length ys) xs"

lemma length_overwrite [simp]: "off + length ys \<le> length xs \<Longrightarrow> length (overwrite off ys xs) = length xs"
  by (simp add: overwrite_def)

lemma nth_overwrite:
  assumes "off + length ys \<le> length xs" "i < length xs"
  shows "overwrite off ys xs ! i = (if off \<le> i \<and> i < off + length ys then ys ! (i - off) else xs ! i)"
  using assms by (auto simp: overwrite_def nth_append min_def)

text \<open>Fields of fixed size: overwriting one leaves the others alone.\<close>

definition chunk :: "nat \<Rightarrow> nat \<Rightarrow> 'a list \<Rightarrow> 'a list" where
  "chunk n i xs = take n (drop (i * n) xs)"

lemma length_chunk: "(i + 1) * n \<le> length xs \<Longrightarrow> length (chunk n i xs) = n"
  by (simp add: chunk_def algebra_simps)

lemma chunk_overwrite_same:
  assumes "length ys = n" "(i + 1) * n \<le> length xs"
  shows "chunk n i (overwrite (i * n) ys xs) = ys"
proof -
  have "i * n \<le> length xs" using assms(2) by (simp add: algebra_simps)
  then show ?thesis using assms(1) by (simp add: chunk_def overwrite_def min_def)
qed

lemma chunk_overwrite_other:
  assumes "length ys = n" "(i + 1) * n \<le> length xs" "(j + 1) * n \<le> length xs" "j \<noteq> i"
  shows "chunk n j (overwrite (i * n) ys xs) = chunk n j xs"
proof (rule nth_equalityI)
  have i: "i * n + n \<le> length xs" "j * n + n \<le> length xs" using assms by (simp_all add: algebra_simps)
  then show len: "length (chunk n j (overwrite (i * n) ys xs)) = length (chunk n j xs)"
    using assms(1) by (simp add: chunk_def)
  fix k assume "k < length (chunk n j (overwrite (i * n) ys xs))"
  then have k: "k < n" "j * n + k < length xs" using i by (auto simp: chunk_def)
  have out: "\<not> (i * n \<le> j * n + k \<and> j * n + k < i * n + n)"
  proof (cases "j < i")
    case True
    then have "j * n + n \<le> i * n" by (metis Suc_leI add.commute mult_Suc mult_le_mono1)
    then show ?thesis using k(1) by linarith
  next
    case False
    then have "i * n + n \<le> j * n" using assms(4) by (metis Suc_leI add.commute linorder_neqE_nat mult_Suc mult_le_mono1)
    then show ?thesis by linarith
  qed
  have "overwrite (i * n) ys xs ! (j * n + k) = xs ! (j * n + k)"
    using out i k assms(1) nth_overwrite [of "i * n" ys xs "j * n + k"] by auto
  then show "chunk n j (overwrite (i * n) ys xs) ! k = chunk n j xs ! k"
    using i k assms(1) by (simp add: chunk_def)
qed

end
