(* ===== verification/Mkfs.thy ===== *)
theory Mkfs
  imports Bytes
begin

text \<open>
  The program that builds the file system image: \<^verbatim>\<open>mkfs/src/fs.rs\<close> (on-disk structures) and
  \<^verbatim>\<open>mkfs/src/main.rs\<close>. It runs on a little-endian host, where \<^verbatim>\<open>to_le\<close> is the identity and \<^verbatim>\<open>usize\<close> has
  64 bits, so that block and byte counts are natural numbers here. The image is the content of the
  output file; seeking past its end and writing fills the gap with zeros, and \<^verbatim>\<open>read_exact\<close> reports
  an error when it meets the end. Other errors of the operating system are not modelled.
\<close>

section \<open>On-disk structures\<close>

definition ROOT_INO :: u16 where "ROOT_INO = 1"
definition BLK_SIZE :: nat where "BLK_SIZE = 512"
definition N_DIRECT :: nat where "N_DIRECT = 12"
definition N_INDIRECT :: nat where "N_INDIRECT = BLK_SIZE div 4"
definition MAX_FILE :: nat where "MAX_FILE = N_DIRECT + N_INDIRECT"
definition DIR_SIZE :: nat where "DIR_SIZE = 14"
definition MAX_OP_BLOCKS :: nat where "MAX_OP_BLOCKS = 10"
definition LOG_SIZE :: nat where "LOG_SIZE = MAX_OP_BLOCKS * 3"
definition FS_SIZE :: nat where "FS_SIZE = 1000"
definition INODES_PER_BLOCK :: nat where "INODES_PER_BLOCK = BLK_SIZE div 64"

record SuperBlock =
  sb_size :: u32
  n_blocks :: u32
  n_inodes :: u32
  n_log :: u32
  log_start :: u32
  inode_start :: u32
  bmap_start :: u32

record OnDiskInode =
  itype :: u16
  major :: u16
  minor :: u16
  n_link :: u16
  isize :: u32
  addrs :: "u32 list"

record DirEnt =
  inum :: u16
  de_name :: "u8 list"

definition inode_default :: OnDiskInode where
  "inode_default = \<lparr>itype = 0, major = 0, minor = 0, n_link = 0, isize = 0,
     addrs = replicate (N_DIRECT + 1) 0\<rparr>"

definition dirent_default :: DirEnt where
  "dirent_default = \<lparr>inum = 0, de_name = replicate DIR_SIZE 0\<rparr>"

text \<open>The bytes of the structures, which are laid out in the order of their fields (\<^verbatim>\<open>repr(C)\<close>).\<close>

definition super_block_bytes :: "SuperBlock \<Rightarrow> u8 list" where
  "super_block_bytes sb = le32 (sb_size sb) @ le32 (n_blocks sb) @ le32 (n_inodes sb) @ le32 (n_log sb)
     @ le32 (log_start sb) @ le32 (inode_start sb) @ le32 (bmap_start sb)"

definition inode_bytes :: "OnDiskInode \<Rightarrow> u8 list" where
  "inode_bytes d = le16 (itype d) @ le16 (major d) @ le16 (minor d) @ le16 (n_link d)
     @ le32 (isize d) @ concat (map le32 (addrs d))"

definition words_of_bytes :: "nat \<Rightarrow> u8 list \<Rightarrow> u32 list" where
  "words_of_bytes n bs = map (\<lambda>i. of_le32 (chunk 4 i bs)) [0..<n]"

definition inode_of_bytes :: "u8 list \<Rightarrow> OnDiskInode" where
  "inode_of_bytes bs = \<lparr>itype = of_le16 (chunk 2 0 bs), major = of_le16 (chunk 2 1 bs),
     minor = of_le16 (chunk 2 2 bs), n_link = of_le16 (chunk 2 3 bs), isize = of_le32 (chunk 4 2 bs),
     addrs = words_of_bytes (N_DIRECT + 1) (drop 12 bs)\<rparr>"

definition dirent_as_bytes :: "DirEnt \<Rightarrow> u8 list" where
  "dirent_as_bytes de = le16 (inum de) @ de_name de"

text \<open>\<^verbatim>\<open>set_name\<close> writes a terminating zero within the field, over the last byte of a name of 14 bytes.\<close>

definition set_name :: "DirEnt \<Rightarrow> u8 list \<Rightarrow> DirEnt res" where
  "set_name de name =
     rbind (rassert (0x2F \<notin> set name) ''assertion failed: no slash in name'') (\<lambda>_.
     if length name > DIR_SIZE then Fail (Panic ''range end index out of range for slice of length 14'')
     else let nm = overwrite 0 name (de_name de); z = min (length name + 1) DIR_SIZE in
       Ok (de\<lparr>de_name := nm[z - 1 := 0]\<rparr>))"

datatype FileType = Directory | Regular | Device

fun file_type_code :: "FileType \<Rightarrow> u16" where
  "file_type_code Directory = 1"
| "file_type_code Regular = 2"
| "file_type_code Device = 3"

definition inode_pos :: "u16 \<Rightarrow> SuperBlock \<Rightarrow> nat \<times> nat" where
  "inode_pos i sb = (unat (inode_start sb) + unat i div INODES_PER_BLOCK, unat i mod INODES_PER_BLOCK)"

section \<open>The image\<close>

definition N_BITMAP :: nat where "N_BITMAP = FS_SIZE div (BLK_SIZE * 8) + 1"
definition N_INODES :: nat where "N_INODES = 200"
definition N_INODE_BLOCKS :: nat where "N_INODE_BLOCKS = N_INODES div INODES_PER_BLOCK + 1"
definition N_LOG :: nat where "N_LOG = LOG_SIZE"
definition N_META :: nat where "N_META = 2 + N_LOG + N_INODE_BLOCKS + N_BITMAP"
definition N_BLOCKS :: nat where "N_BLOCKS = FS_SIZE - N_META"

record FsBuilder =
  image :: "u8 list"
  super_block :: SuperBlock
  free_inode :: u16
  free_block :: nat

text \<open>Writing and reading a host file at an offset.\<close>

definition file_write :: "nat \<Rightarrow> u8 list \<Rightarrow> u8 list \<Rightarrow> u8 list" where
  "file_write off bs f = overwrite off bs (f @ replicate (off - length f) 0)"

definition write_sect :: "FsBuilder \<Rightarrow> nat \<Rightarrow> u8 list \<Rightarrow> FsBuilder" where
  "write_sect b sec buf = b\<lparr>image := file_write (sec * BLK_SIZE) buf (image b)\<rparr>"

definition read_sect :: "FsBuilder \<Rightarrow> nat \<Rightarrow> u8 list res" where
  "read_sect b sec = (if (sec + 1) * BLK_SIZE \<le> length (image b) then Ok (chunk BLK_SIZE sec (image b))
     else Fail (IoError ''failed to fill whole buffer''))"

fun clear_sects :: "nat list \<Rightarrow> FsBuilder \<Rightarrow> FsBuilder" where
  "clear_sects [] b = b"
| "clear_sects (i # is) b = clear_sects is (write_sect b i (replicate BLK_SIZE 0))"

text \<open>\<open>old\<close> is the content of the output file before, empty if there was none: it is not truncated.\<close>

definition create :: "u8 list \<Rightarrow> SuperBlock \<Rightarrow> FsBuilder" where
  "create old sb =
     (let b = clear_sects [0..<FS_SIZE] \<lparr>image = old, super_block = sb, free_inode = 1, free_block = N_META\<rparr>;
          buf = overwrite 0 (super_block_bytes sb) (replicate BLK_SIZE 0) in
      write_sect b 1 buf)"

definition write_inode :: "FsBuilder \<Rightarrow> u16 \<Rightarrow> OnDiskInode \<Rightarrow> FsBuilder res" where
  "write_inode b ino ind = (case inode_pos ino (super_block b) of (bn, idx) \<Rightarrow>
     rbind (read_sect b bn) (\<lambda>sect. Ok (write_sect b bn (overwrite (idx * 64) (inode_bytes ind) sect))))"

definition read_inode :: "FsBuilder \<Rightarrow> u16 \<Rightarrow> OnDiskInode res" where
  "read_inode b ino = (case inode_pos ino (super_block b) of (bn, idx) \<Rightarrow>
     rbind (read_sect b bn) (\<lambda>sect. Ok (inode_of_bytes (chunk 64 idx sect))))"

fun bitmap :: "nat \<Rightarrow> u8 list" where
  "bitmap 0 = replicate BLK_SIZE 0"
| "bitmap (Suc i) = (let buf = bitmap i in buf[i div 8 := (buf ! (i div 8)) OR push_bit (i mod 8) 0x1])"

definition alloc_block :: "FsBuilder \<Rightarrow> FsBuilder res" where
  "alloc_block b = (let used = free_block b in
     rbind (rassert (used < BLK_SIZE * 8) ''assertion failed: used < BLK_SIZE * 8'') (\<lambda>_.
       Ok (write_sect b (unat (bmap_start (super_block b))) (bitmap used))))"

definition alloc_inode :: "FsBuilder \<Rightarrow> FileType \<Rightarrow> (u16 \<times> FsBuilder) res" where
  "alloc_inode b ty = (let ino = free_inode b; b1 = b\<lparr>free_inode := free_inode b + 1\<rparr>;
       din = inode_default\<lparr>itype := file_type_code ty, n_link := 1, isize := 0\<rparr> in
     rbind (write_inode b1 ino din) (\<lambda>b2. Ok (ino, b2)))"

definition take_next_block :: "FsBuilder \<Rightarrow> nat \<times> FsBuilder" where
  "take_next_block b = (free_block b, b\<lparr>free_block := free_block b + 1\<rparr>)"

text \<open>The sector that holds block \<open>fbn\<close> of a file, allocating it and the indirect block as needed.\<close>

definition file_sector :: "FsBuilder \<Rightarrow> OnDiskInode \<Rightarrow> nat \<Rightarrow> (FsBuilder \<times> OnDiskInode \<times> nat) res" where
  "file_sector b din fbn =
    (if fbn < N_DIRECT then
       (let (b1, din1) = (if addrs din ! fbn = 0
            then (case take_next_block b of (r, b1) \<Rightarrow> (b1, din\<lparr>addrs := (addrs din)[fbn := of_nat r]\<rparr>))
            else (b, din)) in
        Ok (b1, din1, unat (addrs din1 ! fbn)))
     else
       (let (b1, din1) = (if addrs din ! N_DIRECT = 0
            then (case take_next_block b of (r, b1) \<Rightarrow> (b1, din\<lparr>addrs := (addrs din)[N_DIRECT := of_nat r]\<rparr>))
            else (b, din)); ind = unat (addrs din1 ! N_DIRECT); i = fbn - N_DIRECT in
        rbind (read_sect b1 ind) (\<lambda>sect.
        let indirect = words_of_bytes N_INDIRECT sect in
        if indirect ! i = 0
        then (case take_next_block b1 of (r, b2) \<Rightarrow>
               let indirect1 = indirect[i := of_nat r] in
               Ok (write_sect b2 ind (concat (map le32 indirect1)), din1, unat (indirect1 ! i)))
        else Ok (b1, din1, unat (indirect ! i)))))"

function append_loop :: "FsBuilder \<Rightarrow> OnDiskInode \<Rightarrow> nat \<Rightarrow> u8 list \<Rightarrow> (FsBuilder \<times> OnDiskInode \<times> nat) res" where
  "append_loop b din off data =
    (if data = [] then Ok (b, din, off)
     else let fbn = off div BLK_SIZE in
       rbind (rassert (fbn < MAX_FILE) ''assertion failed: fbn < MAX_FILE'') (\<lambda>_.
       rbind (file_sector b din fbn) (\<lambda>(b1, din1, sect).
       let nw = min (length data) ((fbn + 1) * BLK_SIZE - off) in
       rbind (read_sect b1 sect) (\<lambda>buf.
         append_loop (write_sect b1 sect (overwrite (off mod BLK_SIZE) (take nw data) buf)) din1 (off + nw) (drop nw data)))))"
  by pat_completeness auto
termination
proof (relation "measure (\<lambda>(b, din, off, data). length data)")
qed (auto simp: BLK_SIZE_def) 

definition append_inode :: "FsBuilder \<Rightarrow> u16 \<Rightarrow> u8 list \<Rightarrow> FsBuilder res" where
  "append_inode b ino data =
     rbind (read_inode b ino) (\<lambda>din.
     rbind (append_loop b din (unat (isize din)) data) (\<lambda>(b1, din1, off).
       write_inode b1 ino (din1\<lparr>isize := of_nat off\<rparr>)))"

section \<open>The program\<close>

definition main_super_block :: SuperBlock where
  "main_super_block = \<lparr>sb_size = of_nat FS_SIZE, n_blocks = of_nat N_BLOCKS, n_inodes = of_nat N_INODES,
     n_log = of_nat N_LOG, log_start = 2, inode_start = 2 + of_nat N_LOG,
     bmap_start = 2 + of_nat N_LOG + of_nat N_INODE_BLOCKS\<rparr>"

definition add_dirent :: "FsBuilder \<Rightarrow> u16 \<Rightarrow> u16 \<Rightarrow> u8 list \<Rightarrow> FsBuilder res" where
  "add_dirent b dir ino name =
     rbind (set_name (dirent_default\<lparr>inum := ino\<rparr>) name) (\<lambda>de. append_inode b dir (dirent_as_bytes de))"

text \<open>The chunks are what the calls of \<^verbatim>\<open>read\<close> return before the end of the file.\<close>

fun copy_file :: "FsBuilder \<Rightarrow> u16 \<Rightarrow> u8 list list \<Rightarrow> FsBuilder res" where
  "copy_file b ino [] = Ok b"
| "copy_file b ino (buf # bufs) = rbind (append_inode b ino buf) (\<lambda>b1. copy_file b1 ino bufs)"

definition strip_underscore :: "u8 list \<Rightarrow> u8 list" where
  "strip_underscore name = (case name of [] \<Rightarrow> [] | c # cs \<Rightarrow> if c = 0x5F then cs else name)"

definition add_file :: "FsBuilder \<Rightarrow> u16 \<Rightarrow> u8 list \<times> u8 list list \<Rightarrow> FsBuilder res" where
  "add_file b root_ino f =
     rbind (alloc_inode b Regular) (\<lambda>(ino, b1).
     rbind (add_dirent b1 root_ino ino (strip_underscore (fst f))) (\<lambda>b2. copy_file b2 ino (snd f)))"

fun add_files :: "FsBuilder \<Rightarrow> u16 \<Rightarrow> (u8 list \<times> u8 list list) list \<Rightarrow> FsBuilder res" where
  "add_files b root_ino [] = Ok b"
| "add_files b root_ino (f # fs) = rbind (add_file b root_ino f) (\<lambda>b1. add_files b1 root_ino fs)"

definition fix_root_size :: "FsBuilder \<Rightarrow> u16 \<Rightarrow> FsBuilder res" where
  "fix_root_size b root_ino = rbind (read_inode b root_ino) (\<lambda>din.
     let off = unat (isize din); off1 = (off div BLK_SIZE + 1) * BLK_SIZE in
     write_inode b root_ino (din\<lparr>isize := of_nat off1\<rparr>))"

text \<open>
  The run with an output file of content \<open>old\<close> and the given files, each its name without the
  directories and what the calls of \<^verbatim>\<open>read\<close> return; 64 and 16 are the sizes of an inode and of an entry. The arguments of the command are not
  modelled: without a name for the output the tool only prints how it is called, and it panics on a path that has no
  file name.
\<close>

definition mkfs_main :: "u8 list \<Rightarrow> (u8 list \<times> u8 list list) list \<Rightarrow> FsBuilder res" where
  "mkfs_main old files =
     rbind (rassert (BLK_SIZE mod 64 = 0) ''assertion failed: BLK_SIZE % size_of::<OnDiskInode>() == 0'') (\<lambda>_.
     rbind (rassert (BLK_SIZE mod 16 = 0) ''assertion failed: BLK_SIZE % size_of::<DirEnt>() == 0'') (\<lambda>_.
     let b0 = create old main_super_block in
      rbind (rassert (N_META + N_BLOCKS = FS_SIZE) ''assertion failed: N_META + N_BLOCKS == FS_SIZE'') (\<lambda>_.
      rbind (alloc_inode b0 Directory) (\<lambda>(root_ino, b1).
      rbind (rassert (root_ino = ROOT_INO) ''assertion failed: root_ino == ROOT_INO'') (\<lambda>_.
      rbind (add_dirent b1 root_ino root_ino [0x2E]) (\<lambda>b2.
      rbind (add_dirent b2 root_ino root_ino [0x2E, 0x2E]) (\<lambda>b3.
      rbind (add_files b3 root_ino files) (\<lambda>b4.
      rbind (fix_root_size b4 root_ino) alloc_block))))))))"

end
