(* ===== verification/Mkfs_Blocks.thy ===== *)
theory Mkfs_Blocks
  imports Mkfs
begin

text \<open>
  The image that \<^verbatim>\<open>mkfs\<close> writes, seen as numbered sectors and as a table of inodes: reading a sector
  or an inode returns what was last written to it, and writing one leaves all others alone.
\<close>

lemmas fs_consts = BLK_SIZE_def N_DIRECT_def N_INDIRECT_def MAX_FILE_def DIR_SIZE_def LOG_SIZE_def
  MAX_OP_BLOCKS_def FS_SIZE_def INODES_PER_BLOCK_def N_BITMAP_def N_INODES_def N_INODE_BLOCKS_def
  N_LOG_def N_META_def N_BLOCKS_def

section \<open>Sectors\<close>

text \<open>What the builder needs of a store of sectors.\<close>

locale block_store =
  fixes rd :: "'s \<Rightarrow> nat \<Rightarrow> 'v res"
    and wr :: "'s \<Rightarrow> nat \<Rightarrow> 'v \<Rightarrow> 's"
    and blk :: "'s \<Rightarrow> nat \<Rightarrow> 'v"
    and ok :: "'s \<Rightarrow> bool"
    and good :: "'v \<Rightarrow> bool"
    and num :: nat
  assumes rd_blk: "ok s \<Longrightarrow> n < num \<Longrightarrow> rd s n = Inr (blk s n)"
    and blk_good: "ok s \<Longrightarrow> n < num \<Longrightarrow> good (blk s n)"
    and wr_ok: "ok s \<Longrightarrow> n < num \<Longrightarrow> good v \<Longrightarrow> ok (wr s n v)"
    and blk_wr: "ok s \<Longrightarrow> n < num \<Longrightarrow> good v \<Longrightarrow> m < num \<Longrightarrow> blk (wr s n v) m = (if m = n then v else blk s m)"
begin

lemma rmw_eq: "ok s \<Longrightarrow> n < num \<Longrightarrow> rbind (rd s n) (\<lambda>v. Ok (wr s n (f v))) = Inr (wr s n (f (blk s n)))"
  by (simp add: rd_blk)

lemma rmw_frame:
  assumes "ok s" "n < num" "good (f (blk s n))"
  shows "ok (wr s n (f (blk s n)))" "m < num \<Longrightarrow> blk (wr s n (f (blk s n))) m = (if m = n then f (blk s n) else blk s m)"
  using assms wr_ok blk_wr by simp_all

end

definition sec :: "FsBuilder \<Rightarrow> nat \<Rightarrow> u8 list" where
  "sec b n = chunk BLK_SIZE n (image b)"

definition image_ok :: "FsBuilder \<Rightarrow> bool" where
  "image_ok b \<longleftrightarrow> FS_SIZE * BLK_SIZE \<le> length (image b)"

lemma write_sect_sel [simp]:
  "super_block (write_sect b n v) = super_block b" "free_inode (write_sect b n v) = free_inode b"
  "free_block (write_sect b n v) = free_block b"
  by (simp_all add: write_sect_def)

lemma image_write_sect:
  assumes "image_ok b" "n < FS_SIZE"
  shows "image (write_sect b n v) = overwrite (n * BLK_SIZE) v (image b)"
  using assms by (simp add: write_sect_def file_write_def image_ok_def fs_consts)

interpretation disk: block_store read_sect write_sect sec image_ok "\<lambda>v. length v = BLK_SIZE" FS_SIZE
proof unfold_locales
  fix b n assume a: "image_ok b" "n < FS_SIZE"
  then show "read_sect b n = Inr (sec b n)" by (simp add: read_sect_def sec_def image_ok_def fs_consts)
  show "length (sec b n) = BLK_SIZE"
    unfolding sec_def by (rule length_chunk) (use a in \<open>simp add: image_ok_def fs_consts\<close>)
next
  fix b n m and v :: "u8 list" assume a: "image_ok b" "n < FS_SIZE" "length v = BLK_SIZE"
  then have l: "(n + 1) * BLK_SIZE \<le> length (image b)" by (simp add: image_ok_def fs_consts)
  then show "image_ok (write_sect b n v)" using a by (simp add: image_ok_def image_write_sect)
  assume "m < FS_SIZE"
  then have m: "(m + 1) * BLK_SIZE \<le> length (image b)" using a(1) by (simp add: image_ok_def fs_consts)
  show "sec (write_sect b n v) m = (if m = n then v else sec b m)"
    using a l m chunk_overwrite_same [OF a(3) l] chunk_overwrite_other [OF a(3) l m]
    by (auto simp: sec_def image_write_sect)
qed

section \<open>Inodes\<close>

lemma chunk_append_skip: "length xs = k * n \<Longrightarrow> k \<le> i \<Longrightarrow> chunk n i (xs @ ys) = chunk n (i - k) ys"
  by (simp add: chunk_def diff_mult_distrib)

lemma chunk_0: "chunk n 0 xs = take n xs"
  by (simp add: chunk_def)

lemma chunk_concat:
  assumes "\<And>w. length (f w) = n" "i < length ws"
  shows "chunk n i (concat (map f ws)) = f (ws ! i)"
  using assms(2)
proof (induction ws arbitrary: i)
  case (Cons w ws)
  show ?case
  proof (cases i)
    case 0
    then show ?thesis using assms(1) by (simp add: chunk_0)
  next
    case (Suc j)
    then show ?thesis
      using Cons chunk_append_skip [of "f w" 1 n i "concat (map f ws)"] assms(1) by simp
  qed
qed simp

lemma words_round_trip: "length ws = n \<Longrightarrow> words_of_bytes n (concat (map le32 ws)) = ws"
  by (rule nth_equalityI) (simp_all add: words_of_bytes_def chunk_concat)

lemma length_words [simp]: "length (words_of_bytes n bs) = n"
  by (simp add: words_of_bytes_def)

lemma length_concat_le32 [simp]: "length (concat (map le32 ws)) = 4 * length ws"
  by (induction ws) simp_all

definition wf_inode :: "OnDiskInode \<Rightarrow> bool" where
  "wf_inode d \<longleftrightarrow> length (addrs d) = 13"

lemma length_inode_bytes [simp]: "wf_inode d \<Longrightarrow> length (inode_bytes d) = 64"
  by (simp add: inode_bytes_def wf_inode_def)

lemma inode_round_trip:
  assumes "wf_inode d"
  shows "inode_of_bytes (inode_bytes d) = d"
proof -
  let ?t = "le32 (isize d) @ concat (map le32 (addrs d))"
  have a: "chunk 2 0 (inode_bytes d) = le16 (itype d)" "chunk 2 1 (inode_bytes d) = le16 (major d)"
    "chunk 2 2 (inode_bytes d) = le16 (minor d)" "chunk 2 3 (inode_bytes d) = le16 (n_link d)"
    "chunk 4 2 (inode_bytes d) = le32 (isize d)" "drop 12 (inode_bytes d) = concat (map le32 (addrs d))"
    by (simp_all add: inode_bytes_def chunk_def)
  show ?thesis
    using assms words_round_trip [of "addrs d" 13] by (simp add: inode_of_bytes_def a [simplified] wf_inode_def fs_consts)
qed

lemma wf_inode_of_bytes [simp]: "wf_inode (inode_of_bytes bs)"
  by (simp add: wf_inode_def inode_of_bytes_def fs_consts)

definition N_SLOTS :: nat where "N_SLOTS = N_INODE_BLOCKS * INODES_PER_BLOCK"

definition inode_at :: "FsBuilder \<Rightarrow> nat \<Rightarrow> OnDiskInode" where
  "inode_at b i = inode_of_bytes (chunk 64 (i mod INODES_PER_BLOCK) (sec b (2 + N_LOG + i div INODES_PER_BLOCK)))"

definition main_sb :: "FsBuilder \<Rightarrow> bool" where
  "main_sb b \<longleftrightarrow> super_block b = main_super_block"

lemma inode_pos_main:
  assumes "main_sb b" "unat i < N_SLOTS"
  shows "inode_pos i (super_block b) = (2 + N_LOG + unat i div INODES_PER_BLOCK, unat i mod INODES_PER_BLOCK)"
  using assms by (simp add: inode_pos_def main_sb_def main_super_block_def fs_consts)

lemma inode_block_less: "i < N_SLOTS \<Longrightarrow> 2 + N_LOG + i div INODES_PER_BLOCK < N_META"
  by (simp add: N_SLOTS_def fs_consts less_mult_imp_div_less)

lemma read_inode_eq:
  assumes "image_ok b" "main_sb b" "unat i < N_SLOTS"
  shows "read_inode b i = Inr (inode_at b (unat i))"
proof -
  have "2 + N_LOG + unat i div INODES_PER_BLOCK < FS_SIZE"
    using inode_block_less [OF assms(3)] by (simp add: fs_consts)
  then show ?thesis
    using assms by (simp add: read_inode_def inode_pos_main disk.rd_blk inode_at_def)
qed

lemma write_inode_eq:
  assumes "image_ok b" "main_sb b" "unat i < N_SLOTS" "wf_inode d"
  obtains b' where "write_inode b i d = Inr b'" "image_ok b'" "super_block b' = super_block b"
    "free_inode b' = free_inode b" "free_block b' = free_block b"
    "\<And>j. j < N_SLOTS \<Longrightarrow> inode_at b' j = (if j = unat i then d else inode_at b j)"
    "\<And>n. n < FS_SIZE \<Longrightarrow> n < 2 + N_LOG \<or> N_META - 1 \<le> n \<Longrightarrow> sec b' n = sec b n"
proof -
  let ?n = "2 + N_LOG + unat i div INODES_PER_BLOCK" and ?k = "unat i mod INODES_PER_BLOCK"
  have n: "?n < N_META" "?n < FS_SIZE" using inode_block_less [OF assms(3)] by (simp_all add: fs_consts)
  have k: "(?k + 1) * 64 \<le> 512" by (simp add: fs_consts Suc_le_eq)
  let ?f = "overwrite (?k * 64) (inode_bytes d)"
  define b' where "b' = write_sect b ?n (?f (sec b ?n))"
  have len: "length (sec b ?n) = 512" using disk.blk_good [OF assms(1) n(2)] by (simp add: fs_consts)
  have good: "length (?f (sec b ?n)) = BLK_SIZE" using len k assms(4) by (simp add: fs_consts)
  note fr = disk.rmw_frame [OF assms(1) n(2), of ?f, OF good, folded b'_def]
  have w: "write_inode b i d = Inr b'"
    using disk.rmw_eq [OF assms(1) n(2), of ?f] inode_pos_main [OF assms(2,3)]
    by (simp add: write_inode_def b'_def)
  have ino: "inode_at b' j = (if j = unat i then d else inode_at b j)" if j: "j < N_SLOTS" for j
  proof (cases "j div INODES_PER_BLOCK = unat i div INODES_PER_BLOCK")
    case True
    have kj: "(j mod INODES_PER_BLOCK + 1) * 64 \<le> 512" by (simp add: fs_consts Suc_le_eq)
    have ne: "j mod INODES_PER_BLOCK \<noteq> ?k" if "j \<noteq> unat i"
      using True that by (metis div_mult_mod_eq)
    show ?thesis
      using fr(2) [OF n(2)] True assms(4) len k kj ne
        chunk_overwrite_same [of "inode_bytes d" 64 ?k "sec b ?n"]
        chunk_overwrite_other [of "inode_bytes d" 64 ?k "sec b ?n" "j mod INODES_PER_BLOCK"]
      by (cases "j = unat i") (simp_all add: inode_at_def inode_round_trip)
  next
    case False
    moreover have "2 + N_LOG + j div INODES_PER_BLOCK < FS_SIZE"
      using inode_block_less [OF j] by (simp add: fs_consts)
    ultimately show ?thesis using fr(2) by (auto simp: inode_at_def)
  qed
  have sec: "sec b' m = sec b m" if "m < FS_SIZE" "m < 2 + N_LOG \<or> N_META - 1 \<le> m" for m
    using fr(2) [OF that(1)] that(2) assms(3) by (auto simp: N_SLOTS_def fs_consts)
  show thesis
    by (rule that [OF w fr(1) _ _ _ ino sec]) (simp_all add: b'_def)
qed

end
