(* ===== verification/Mkfs_Slots.thy ===== *)
theory Mkfs_Slots
  imports Mkfs_Blocks
begin

text \<open>
  The allocation of the sectors of a file by the loop of \<^verbatim>\<open>append_inode\<close> (\<^verbatim>\<open>mkfs/src/main.rs\<close>):
  the invariant of the builder, in which no sector belongs to two files, and that finding or taking
  the sector of the next block of a file preserves it and leaves the data of every file alone.
\<close>

section \<open>The blocks of a file\<close>

text \<open>
  The slots of an inode: slot \<open>k < MAX_FILE\<close> is the sector of block \<open>k\<close> of the file and slot \<open>MAX_FILE\<close>
  is the indirect block; 0 means that none is allocated.
\<close>

definition slot :: "FsBuilder \<Rightarrow> OnDiskInode \<Rightarrow> nat \<Rightarrow> nat" where
  "slot b d k = (if k < N_DIRECT then unat (addrs d ! k)
     else if k = MAX_FILE then unat (addrs d ! N_DIRECT)
     else if addrs d ! N_DIRECT = 0 then 0
     else unat (words_of_bytes N_INDIRECT (sec b (unat (addrs d ! N_DIRECT))) ! (k - N_DIRECT)))"

text \<open>
  The invariant of the builder and a table of inodes: allocated sectors are data sectors below the
  next free one, no sector has two uses, and the sectors not yet taken are zero.
\<close>

definition slots_in_range :: "FsBuilder \<Rightarrow> (nat \<Rightarrow> OnDiskInode) \<Rightarrow> bool" where
  "slots_in_range b I \<longleftrightarrow> (\<forall>i < N_SLOTS. \<forall>k \<le> MAX_FILE. slot b (I i) k \<noteq> 0 \<longrightarrow>
     N_META \<le> slot b (I i) k \<and> slot b (I i) k < free_block b)"

definition slots_distinct :: "FsBuilder \<Rightarrow> (nat \<Rightarrow> OnDiskInode) \<Rightarrow> bool" where
  "slots_distinct b I \<longleftrightarrow> (\<forall>i < N_SLOTS. \<forall>j < N_SLOTS. \<forall>k \<le> MAX_FILE. \<forall>l \<le> MAX_FILE.
     slot b (I i) k = slot b (I j) l \<longrightarrow> slot b (I i) k \<noteq> 0 \<longrightarrow> i = j \<and> k = l)"

definition free_zero :: "FsBuilder \<Rightarrow> bool" where
  "free_zero b \<longleftrightarrow> (\<forall>n. free_block b \<le> n \<longrightarrow> n < FS_SIZE \<longrightarrow> sec b n = replicate BLK_SIZE 0)"

definition fs_base :: "FsBuilder \<Rightarrow> (nat \<Rightarrow> OnDiskInode) \<Rightarrow> bool" where
  "fs_base b I \<longleftrightarrow> image_ok b \<and> main_sb b \<and> N_META \<le> free_block b \<and> free_block b \<le> FS_SIZE \<and>
     (\<forall>i < N_SLOTS. wf_inode (I i)) \<and> slots_in_range b I \<and> slots_distinct b I \<and> free_zero b"

lemma slots_in_rangeD:
  "slots_in_range b I \<Longrightarrow> i < N_SLOTS \<Longrightarrow> k \<le> MAX_FILE \<Longrightarrow> slot b (I i) k \<noteq> 0 \<Longrightarrow>
     N_META \<le> slot b (I i) k \<and> slot b (I i) k < free_block b"
  by (simp add: slots_in_range_def)

lemma slots_distinctD:
  "slots_distinct b I \<Longrightarrow> i < N_SLOTS \<Longrightarrow> j < N_SLOTS \<Longrightarrow> k \<le> MAX_FILE \<Longrightarrow> l \<le> MAX_FILE \<Longrightarrow>
     slot b (I i) k = slot b (I j) l \<Longrightarrow> slot b (I i) k \<noteq> 0 \<Longrightarrow> i = j \<and> k = l"
  unfolding slots_distinct_def by blast

lemma fs_baseD:
  assumes "fs_base b I"
  shows "image_ok b" "main_sb b" "N_META \<le> free_block b" "free_block b \<le> FS_SIZE"
    "i < N_SLOTS \<Longrightarrow> wf_inode (I i)"
    "i < N_SLOTS \<Longrightarrow> k \<le> MAX_FILE \<Longrightarrow> slot b (I i) k \<noteq> 0 \<Longrightarrow> N_META \<le> slot b (I i) k \<and> slot b (I i) k < free_block b"
    "i < N_SLOTS \<Longrightarrow> j < N_SLOTS \<Longrightarrow> k \<le> MAX_FILE \<Longrightarrow> l \<le> MAX_FILE \<Longrightarrow> slot b (I i) k = slot b (I j) l \<Longrightarrow>
      slot b (I i) k \<noteq> 0 \<Longrightarrow> i = j \<and> k = l"
    "free_block b \<le> n \<Longrightarrow> n < FS_SIZE \<Longrightarrow> sec b n = replicate BLK_SIZE 0"
proof -
  show "image_ok b" "main_sb b" "N_META \<le> free_block b" "free_block b \<le> FS_SIZE" "i < N_SLOTS \<Longrightarrow> wf_inode (I i)"
    "free_block b \<le> n \<Longrightarrow> n < FS_SIZE \<Longrightarrow> sec b n = replicate BLK_SIZE 0"
    using assms by (simp_all add: fs_base_def free_zero_def)
  have r: "slots_in_range b I" "slots_distinct b I" using assms by (simp_all add: fs_base_def)
  show "i < N_SLOTS \<Longrightarrow> k \<le> MAX_FILE \<Longrightarrow> slot b (I i) k \<noteq> 0 \<Longrightarrow> N_META \<le> slot b (I i) k \<and> slot b (I i) k < free_block b"
    by (rule slots_in_rangeD [OF r(1)])
  show "i < N_SLOTS \<Longrightarrow> j < N_SLOTS \<Longrightarrow> k \<le> MAX_FILE \<Longrightarrow> l \<le> MAX_FILE \<Longrightarrow> slot b (I i) k = slot b (I j) l \<Longrightarrow>
      slot b (I i) k \<noteq> 0 \<Longrightarrow> i = j \<and> k = l"
    by (rule slots_distinctD [OF r(2)])
qed

lemma slot_cong:
  assumes "slot b d MAX_FILE \<noteq> 0 \<Longrightarrow> sec b' (slot b d MAX_FILE) = sec b (slot b d MAX_FILE)"
  shows "slot b' d k = slot b d k"
  using assms by (auto simp: slot_def fs_consts unat_eq_zero)

text \<open>Taking the next free sector for a slot that has none.\<close>

lemma fs_base_take:
  assumes base: "fs_base b I" and i: "i < N_SLOTS" and k: "k \<le> MAX_FILE" and d1: "wf_inode d1"
    and b1: "image_ok b1" "main_sb b1" "free_block b1 = free_block b + 1" "free_block b < FS_SIZE"
    and mine: "\<And>l. l \<le> MAX_FILE \<Longrightarrow> slot b1 d1 l = (if l = k then free_block b else slot b (I i) l)"
    and others: "\<And>j l. j < N_SLOTS \<Longrightarrow> j \<noteq> i \<Longrightarrow> l \<le> MAX_FILE \<Longrightarrow> slot b1 (I j) l = slot b (I j) l"
    and zero: "\<And>n. free_block b < n \<Longrightarrow> n < FS_SIZE \<Longrightarrow> sec b1 n = sec b n"
  shows "fs_base b1 (I(i := d1))"
proof -
  note D = fs_baseD [OF base]
  have s: "slot b1 ((I(i := d1)) j) l = (if j = i \<and> l = k then free_block b else slot b (I j) l)"
    if "j < N_SLOTS" "l \<le> MAX_FILE" for j l
    using that mine others by auto
  have fresh: "slot b (I j) l \<noteq> free_block b" if "j < N_SLOTS" "l \<le> MAX_FILE" for j l
    using D(6) [OF that] D(3) by (cases "slot b (I j) l = 0") (auto simp: fs_consts)
  show ?thesis
    unfolding fs_base_def slots_in_range_def slots_distinct_def free_zero_def
  proof (intro conjI allI impI)
    fix j l assume a: "j < N_SLOTS" "l \<le> MAX_FILE" "slot b1 ((I(i := d1)) j) l \<noteq> 0"
    show "N_META \<le> slot b1 ((I(i := d1)) j) l" "slot b1 ((I(i := d1)) j) l < free_block b1"
      using a(3) D(3) D(6) [OF a(1,2)] b1(3) unfolding s [OF a(1,2)] by (auto split: if_splits)
  next
    fix j m l l' assume a: "j < N_SLOTS" "m < N_SLOTS" "l \<le> MAX_FILE" "l' \<le> MAX_FILE"
      and eq: "slot b1 ((I(i := d1)) j) l = slot b1 ((I(i := d1)) m) l'" "slot b1 ((I(i := d1)) j) l \<noteq> 0"
    show "j = m" "l = l'"
      using eq D(7) [OF a] fresh [OF a(1,3)] fresh [OF a(2,4)] unfolding s [OF a(1,3)] s [OF a(2,4)]
      by (auto split: if_splits)
  next
    fix n assume "free_block b1 \<le> n" "n < FS_SIZE"
    then show "sec b1 n = replicate BLK_SIZE 0" using zero D(8) b1(3) by simp
  qed (use b1 D(3,5) d1 in auto)
qed

text \<open>A direct block or the indirect block itself.\<close>

lemma take_direct:
  assumes base: "fs_base b I" and i: "i < N_SLOTS" "I i = d" and k: "k < N_DIRECT \<or> k = MAX_FILE"
    and q: "q = (if k = MAX_FILE then N_DIRECT else k)" and none: "slot b d k = 0" and room: "free_block b < FS_SIZE"
  defines "b1 \<equiv> b\<lparr>free_block := free_block b + 1\<rparr>" and "d1 \<equiv> d\<lparr>addrs := (addrs d)[q := of_nat (free_block b)]\<rparr>"
  shows "fs_base b1 (I(i := d1))" "l \<le> MAX_FILE \<Longrightarrow> slot b1 d1 l = (if l = k then free_block b else slot b d l)"
proof -
  note D = fs_baseD [OF base]
  have d: "wf_inode d" using D(5) i by blast
  have sec: "sec b1 n = sec b n" for n by (simp add: b1_def sec_def)
  have u: "unat (of_nat (free_block b) :: u32) = free_block b"
    using room by (simp add: unat_of_nat fs_consts)
  have nz: "(of_nat (free_block b) :: u32) \<noteq> 0" using u D(3) by (auto simp: fs_consts)
  have words: "words_of_bytes N_INDIRECT (replicate 512 0) ! m = 0" if "m < 128" for m
    using that by (simp add: words_of_bytes_def fs_consts chunk_def min_def of_le32_zeros)
  have mine: "slot b1 d1 l = (if l = k then free_block b else slot b d l)" if "l \<le> MAX_FILE" for l
  proof (cases "k = MAX_FILE")
    case True
    then have "addrs d ! 12 = 0" using none by (simp add: slot_def fs_consts unat_eq_zero)
    then show ?thesis
      using True d that u nz words [of "l - 12"] D(8) [of "free_block b"] room
      by (auto simp: slot_def sec d1_def q wf_inode_def fs_consts)
  next
    case False
    then show ?thesis using k d u that by (auto simp: slot_def sec d1_def q wf_inode_def nth_list_update fs_consts)
  qed
  show "slot b1 d1 l = (if l = k then free_block b else slot b d l)" if "l \<le> MAX_FILE"
    by (rule mine [OF that])
  show "fs_base b1 (I(i := d1))"
    by (rule fs_base_take [OF base i(1), of k])
      (use k mine i d room D(1,2) sec in \<open>auto simp: b1_def d1_def wf_inode_def image_ok_def main_sb_def slot_def fs_consts\<close>)
qed

text \<open>An entry of the indirect block.\<close>

lemma take_entry:
  assumes base: "fs_base b I" and i: "i < N_SLOTS" "I i = d" and k: "N_DIRECT \<le> k" "k < MAX_FILE"
    and ptr: "slot b d MAX_FILE \<noteq> 0" and none: "slot b d k = 0" and room: "free_block b < FS_SIZE"
  defines "p \<equiv> slot b d MAX_FILE"
  defines "ws \<equiv> (words_of_bytes N_INDIRECT (sec b p))[k - N_DIRECT := of_nat (free_block b)]"
  defines "b1 \<equiv> write_sect (b\<lparr>free_block := free_block b + 1\<rparr>) p (concat (map le32 ws))"
  shows "fs_base b1 I" "\<And>l. l \<le> MAX_FILE \<Longrightarrow> slot b1 d l = (if l = k then free_block b else slot b d l)"
    "\<And>j l. j < N_SLOTS \<Longrightarrow> j \<noteq> i \<Longrightarrow> slot b1 (I j) l = slot b (I j) l"
    "\<And>n. n < FS_SIZE \<Longrightarrow> n \<noteq> p \<Longrightarrow> sec b1 n = sec b n" "unat (ws ! (k - N_DIRECT)) = free_block b"
proof -
  note D = fs_baseD [OF base]
  let ?b = "b\<lparr>free_block := free_block b + 1\<rparr>"
  have d: "wf_inode d" using D(5) i by blast
  have p: "p < free_block b" "p < FS_SIZE" "N_META \<le> p"
    using D(6) [OF i(1), of MAX_FILE] ptr i(2) room by (simp_all add: p_def)
  have b: "image_ok ?b" "sec ?b n = sec b n" for n using D(1) by (simp_all add: image_ok_def sec_def)
  have len: "length ws = N_INDIRECT" by (simp add: ws_def)
  have good: "length (concat (map le32 ws)) = BLK_SIZE" using len by (simp add: fs_consts)
  have s1: "sec b1 n = (if n = p then concat (map le32 ws) else sec b n)" if "n < FS_SIZE" for n
    unfolding b1_def using disk.blk_wr [OF b(1) p(2) good that] b(2) by simp
  then show sec: "\<And>n. n < FS_SIZE \<Longrightarrow> n \<noteq> p \<Longrightarrow> sec b1 n = sec b n" by simp
  have u: "unat (of_nat (free_block b) :: u32) = free_block b"
    using room by (simp add: unat_of_nat fs_consts)
  show new: "unat (ws ! (k - N_DIRECT)) = free_block b"
    using k u by (simp add: ws_def fs_consts)
  have pa: "unat (addrs d ! N_DIRECT) = p" "addrs d ! N_DIRECT \<noteq> 0"
    using ptr by (auto simp: p_def slot_def fs_consts)
  have w1: "words_of_bytes N_INDIRECT (sec b1 p) = ws"
    using s1 [OF p(2)] words_round_trip [OF len] by simp
  show mine: "slot b1 d l = (if l = k then free_block b else slot b d l)" if "l \<le> MAX_FILE" for l
  proof (cases "N_DIRECT \<le> l \<and> l < MAX_FILE")
    case True
    have "slot b1 d l = unat (ws ! (l - N_DIRECT))" using True pa w1 by (simp add: slot_def)
    moreover have "slot b d l = unat (words_of_bytes N_INDIRECT (sec b p) ! (l - N_DIRECT))"
      using True pa by (simp add: slot_def)
    ultimately show ?thesis
      using True k u by (auto simp: ws_def nth_list_update fs_consts)
  next
    case False
    then show ?thesis using k that by (auto simp: slot_def fs_consts)
  qed
  show others: "slot b1 (I j) l = slot b (I j) l" if j: "j < N_SLOTS" "j \<noteq> i" for j l
  proof (rule slot_cong)
    assume nz: "slot b (I j) MAX_FILE \<noteq> 0"
    then have "slot b (I j) MAX_FILE \<noteq> p"
      using D(7) [OF i(1) j(1), of MAX_FILE MAX_FILE] i(2) ptr j(2) by (auto simp: p_def)
    moreover have "slot b (I j) MAX_FILE < FS_SIZE" using D(4) D(6) [OF j(1), of MAX_FILE] nz by auto
    ultimately show "sec b1 (slot b (I j) MAX_FILE) = sec b (slot b (I j) MAX_FILE)" using sec by simp
  qed
  have ok: "image_ok b1" unfolding b1_def using disk.wr_ok [OF b(1) p(2) good] .
  have "fs_base b1 (I(i := d))"
  proof (rule fs_base_take [OF base i(1), of k])
    show "main_sb b1" "free_block b1 = free_block b + 1" using D(2) by (simp_all add: b1_def main_sb_def)
  qed (use k ok mine others sec i(2) d room p in auto)
  then show "fs_base b1 I" using i(2) by (simp add: fun_upd_idem)
qed

section \<open>Sizes\<close>

text \<open>A file of \<open>n\<close> bytes uses exactly the slots of its blocks, and the indirect block from block 12 on.\<close>

definition uses_slot :: "nat \<Rightarrow> nat \<Rightarrow> bool" where
  "uses_slot n k \<longleftrightarrow> (if k = MAX_FILE then N_DIRECT * BLK_SIZE < n else k * BLK_SIZE < n)"

definition blocks_for :: "nat \<Rightarrow> nat" where
  "blocks_for n = (n + BLK_SIZE - 1) div BLK_SIZE + (if N_DIRECT * BLK_SIZE < n then 1 else 0)"

definition fs_inv :: "FsBuilder \<Rightarrow> (nat \<Rightarrow> OnDiskInode) \<Rightarrow> (nat \<Rightarrow> nat) \<Rightarrow> bool" where
  "fs_inv b I sz \<longleftrightarrow> fs_base b I \<and>
     (\<forall>i < N_SLOTS. sz i \<le> MAX_FILE * BLK_SIZE \<and> (\<forall>k \<le> MAX_FILE. slot b (I i) k \<noteq> 0 \<longleftrightarrow> uses_slot (sz i) k))"

lemma fs_invD:
  assumes "fs_inv b I sz"
  shows "fs_base b I" "i < N_SLOTS \<Longrightarrow> sz i \<le> MAX_FILE * BLK_SIZE"
    "i < N_SLOTS \<Longrightarrow> k \<le> MAX_FILE \<Longrightarrow> slot b (I i) k \<noteq> 0 \<longleftrightarrow> uses_slot (sz i) k"
  using assms by (simp_all add: fs_inv_def)

text \<open>What allocation for inode \<open>i\<close> leaves alone.\<close>

definition keeps_files :: "nat \<Rightarrow> FsBuilder \<Rightarrow> (nat \<Rightarrow> OnDiskInode) \<Rightarrow> FsBuilder \<Rightarrow> OnDiskInode \<Rightarrow> bool" where
  "keeps_files i b I b1 d1 \<longleftrightarrow>
     (\<forall>j < N_SLOTS. \<forall>k \<le> MAX_FILE. slot b (I j) k \<noteq> 0 \<longrightarrow> slot b1 ((I(i := d1)) j) k = slot b (I j) k) \<and>
     (\<forall>j < N_SLOTS. \<forall>k < MAX_FILE. slot b (I j) k \<noteq> 0 \<longrightarrow> sec b1 (slot b (I j) k) = sec b (slot b (I j) k)) \<and>
     (\<forall>n < N_META. sec b1 n = sec b n) \<and> free_inode b1 = free_inode b \<and> d1 = (I i)\<lparr>addrs := addrs d1\<rparr>"

lemma uses_slot_step:
  assumes "off < n" "n \<le> (off div BLK_SIZE + 1) * BLK_SIZE" "k < MAX_FILE"
  shows "uses_slot n k \<longleftrightarrow> uses_slot off k \<or> k = off div BLK_SIZE"
    "uses_slot n MAX_FILE \<longleftrightarrow> uses_slot off MAX_FILE \<or> N_DIRECT \<le> off div BLK_SIZE"
    "off div BLK_SIZE < MAX_FILE \<Longrightarrow> uses_slot off (off div BLK_SIZE) \<longleftrightarrow> off mod BLK_SIZE \<noteq> 0"
proof -
  define f r where "f = off div 512" and "r = off mod 512"
  have off: "off = f * 512 + r" "r < 512" by (simp_all add: f_def r_def)
  have n: "n \<le> f * 512 + 512" using assms(2) by (simp add: f_def fs_consts)
  show "uses_slot n k \<longleftrightarrow> uses_slot off k \<or> k = off div BLK_SIZE"
    using assms(1,3) off n f_def[symmetric] by (auto simp: uses_slot_def fs_consts)
  show "uses_slot n MAX_FILE \<longleftrightarrow> uses_slot off MAX_FILE \<or> N_DIRECT \<le> off div BLK_SIZE"
    using assms(1) off n f_def [symmetric] by (auto simp: uses_slot_def fs_consts)
  show "uses_slot off (off div BLK_SIZE) \<longleftrightarrow> off mod BLK_SIZE \<noteq> 0" if "off div BLK_SIZE < MAX_FILE"
    using that off f_def [symmetric] r_def [symmetric] by (auto simp: uses_slot_def fs_consts)
qed

lemma blocks_for_step:
  assumes "off < n" "n \<le> (off div BLK_SIZE + 1) * BLK_SIZE"
  shows "blocks_for n - blocks_for off = (if off mod BLK_SIZE \<noteq> 0 then 0 else if off div BLK_SIZE = N_DIRECT then 2 else 1)"
    "blocks_for off \<le> blocks_for n"
proof -
  obtain f r where off: "off = f * 512 + r" "r < 512" by (metis div_mult_mod_eq mod_less_divisor zero_less_numeral)
  then have fr: "off div 512 = f" "off mod 512 = r" by simp_all
  have n: "f * 512 + r < n" "n \<le> f * 512 + 512" using assms off(1) fr by (simp_all add: fs_consts)
  have bn: "(n + 511) div 512 = f + 1"
    by (rule div_nat_eqI) (use n in simp_all)
  have bo: "(off + 511) div 512 = (if r = 0 then f else f + 1)"
    by (rule div_nat_eqI) (use off in simp_all)
  have i: "6144 < n \<longleftrightarrow> 12 \<le> f" "6144 < off \<longleftrightarrow> 12 < f \<or> f = 12 \<and> r \<noteq> 0" using n off by linarith+
  have bnn: "blocks_for n = f + 1 + (if 12 \<le> f then 1 else 0)"
    using bn i(1) by (simp add: blocks_for_def fs_consts)
  have bno: "blocks_for off = (if r = 0 then f else f + 1) + (if 12 < f \<or> f = 12 \<and> r \<noteq> 0 then 1 else 0)"
    using bo i(2) by (simp add: blocks_for_def fs_consts)
  show "blocks_for off \<le> blocks_for n" "blocks_for n - blocks_for off = (if off mod BLK_SIZE \<noteq> 0 then 0 else if off div BLK_SIZE = N_DIRECT then 2 else 1)"
    unfolding bnn bno using fr by (simp_all add: fs_consts)
qed

lemma file_sector_direct:
  assumes "wf_inode d" "f < N_DIRECT" "free_block b < FS_SIZE"
  shows "file_sector b d f = (if slot b d f = 0
    then Inr (b\<lparr>free_block := free_block b + 1\<rparr>, d\<lparr>addrs := (addrs d)[f := of_nat (free_block b)]\<rparr>, free_block b)
    else Inr (b, d, slot b d f))"
proof -
  have "unat (of_nat (free_block b) :: u32) = free_block b"
    using assms(3) by (simp add: unat_of_nat fs_consts)
  then show ?thesis
    using assms(1,2) by (simp add: file_sector_def slot_def take_next_block_def unat_eq_zero wf_inode_def fs_consts)
qed

lemma file_sector_direct_old: "f < N_DIRECT \<Longrightarrow> slot b d f \<noteq> 0 \<Longrightarrow> file_sector b d f = Inr (b, d, slot b d f)"
  by (auto simp: file_sector_def slot_def)

lemma file_sector_pointer:
  assumes "wf_inode d" "N_DIRECT \<le> f" "f < MAX_FILE" "slot b d MAX_FILE = 0" "N_META \<le> free_block b" "free_block b < FS_SIZE"
  shows "file_sector b d f = file_sector (b\<lparr>free_block := free_block b + 1\<rparr>)
    (d\<lparr>addrs := (addrs d)[N_DIRECT := of_nat (free_block b)]\<rparr>) f"
proof -
  have u: "unat (of_nat (free_block b) :: u32) = free_block b"
    using assms(6) by (simp add: unat_of_nat fs_consts)
  have "(of_nat (free_block b) :: u32) \<noteq> 0" using u assms(5) by (auto simp: fs_consts)
  then show ?thesis
    using assms(1-4) by (simp add: file_sector_def slot_def take_next_block_def unat_eq_zero wf_inode_def fs_consts)
qed

lemma file_sector_indirect:
  assumes "image_ok b" "N_DIRECT \<le> f" "f < MAX_FILE" "slot b d MAX_FILE \<noteq> 0" "slot b d MAX_FILE < FS_SIZE"
  defines "p \<equiv> slot b d MAX_FILE"
  defines "ws \<equiv> (words_of_bytes N_INDIRECT (sec b p))[f - N_DIRECT := of_nat (free_block b)]"
  shows "file_sector b d f = (if slot b d f = 0
    then Inr (write_sect (b\<lparr>free_block := free_block b + 1\<rparr>) p (concat (map le32 ws)), d, unat (ws ! (f - N_DIRECT)))
    else Inr (b, d, slot b d f))"
proof -
  have p: "addrs d ! N_DIRECT \<noteq> 0" "unat (addrs d ! N_DIRECT) = p"
    using assms(4) by (auto simp: p_def slot_def fs_consts)
  have "read_sect b p = Inr (sec b p)" using disk.rd_blk assms(1,5) by (simp add: p_def)
  moreover have "slot b d f = unat (words_of_bytes N_INDIRECT (sec b p) ! (f - N_DIRECT))"
    using assms(2,3) p by (simp add: slot_def)
  ultimately show ?thesis
    using assms(2) p by (simp add: file_sector_def take_next_block_def unat_eq_zero Let_def ws_def)
qed

lemma keeps_filesI:
  assumes "\<And>j k. j < N_SLOTS \<Longrightarrow> j \<noteq> i \<Longrightarrow> k \<le> MAX_FILE \<Longrightarrow> slot b1 (I j) k = slot b (I j) k"
    and "\<And>k. k \<le> MAX_FILE \<Longrightarrow> slot b (I i) k \<noteq> 0 \<Longrightarrow> slot b1 d1 k = slot b (I i) k"
    and "\<And>j k. j < N_SLOTS \<Longrightarrow> k < MAX_FILE \<Longrightarrow> slot b (I j) k \<noteq> 0 \<Longrightarrow> sec b1 (slot b (I j) k) = sec b (slot b (I j) k)"
    and "\<And>n. n < N_META \<Longrightarrow> sec b1 n = sec b n" "free_inode b1 = free_inode b" "d1 = (I i)\<lparr>addrs := addrs d1\<rparr>"
  shows "keeps_files i b I b1 d1"
  using assms by (auto simp: keeps_files_def)

lemma keeps_filesD:
  assumes "keeps_files i b I b1 d1"
  shows "j < N_SLOTS \<Longrightarrow> k \<le> MAX_FILE \<Longrightarrow> slot b (I j) k \<noteq> 0 \<Longrightarrow> slot b1 ((I(i := d1)) j) k = slot b (I j) k"
    "j < N_SLOTS \<Longrightarrow> k < MAX_FILE \<Longrightarrow> slot b (I j) k \<noteq> 0 \<Longrightarrow> sec b1 (slot b (I j) k) = sec b (slot b (I j) k)"
    "n < N_META \<Longrightarrow> sec b1 n = sec b n" "free_inode b1 = free_inode b" "d1 = (I i)\<lparr>addrs := addrs d1\<rparr>"
  using assms unfolding keeps_files_def by (elim conjE, simp)+

lemma keeps_files_trans:
  assumes a: "keeps_files i b I b1 d1" and c: "keeps_files i b1 (I(i := d1)) b2 d2"
  shows "keeps_files i b I b2 d2"
proof -
  note A = keeps_filesD [OF a] and C = keeps_filesD [OF c, simplified]
  show ?thesis
    unfolding keeps_files_def
  proof (intro conjI allI impI)
    fix j k assume j: "j < N_SLOTS" "k \<le> MAX_FILE" "slot b (I j) k \<noteq> 0"
    show "slot b2 ((I(i := d2)) j) k = slot b (I j) k"
      using A(1) [OF j] C(1) [of j k] j by (auto split: if_splits)
  next
    fix j k assume j: "j < N_SLOTS" "k < MAX_FILE" "slot b (I j) k \<noteq> 0"
    show "sec b2 (slot b (I j) k) = sec b (slot b (I j) k)"
      using A(1) [OF j(1) _ j(3)] A(2) [OF j] C(2) [of j k] j by (auto split: if_splits)
  next
    show "d2 = (I i)\<lparr>addrs := addrs d2\<rparr>"
      using A(5) C(5) by (metis OnDiskInode.surjective OnDiskInode.update_convs(6))
  qed (use A C in auto)
qed

lemma fs_inv_take:
  assumes inv: "fs_inv b I sz" and i: "i < N_SLOTS" and base: "fs_base b1 (I(i := d1))"
    and n: "sz i < n" "n \<le> (sz i div BLK_SIZE + 1) * BLK_SIZE" "sz i div BLK_SIZE < MAX_FILE"
    and mine: "\<And>k. k < MAX_FILE \<Longrightarrow> slot b1 d1 k \<noteq> 0 \<longleftrightarrow> slot b (I i) k \<noteq> 0 \<or> k = sz i div BLK_SIZE"
    and ptr: "slot b1 d1 MAX_FILE \<noteq> 0 \<longleftrightarrow> slot b (I i) MAX_FILE \<noteq> 0 \<or> N_DIRECT \<le> sz i div BLK_SIZE"
    and others: "\<And>j k. j < N_SLOTS \<Longrightarrow> j \<noteq> i \<Longrightarrow> k \<le> MAX_FILE \<Longrightarrow> slot b1 (I j) k = slot b (I j) k"
  shows "fs_inv b1 (I(i := d1)) (sz(i := n))"
proof -
  have "slot b1 d1 k \<noteq> 0 \<longleftrightarrow> uses_slot n k" if "k \<le> MAX_FILE" for k
  proof (cases "k = MAX_FILE")
    case True
    have "0 < MAX_FILE" by (simp add: fs_consts)
    then show ?thesis
      using True ptr fs_invD(3) [OF inv i, of MAX_FILE] uses_slot_step(2) [OF n(1,2)] by simp
  next
    case False
    then have "k < MAX_FILE" using that by simp
    then show ?thesis
      using mine fs_invD(3) [OF inv i that] uses_slot_step(1) [OF n(1,2)] by simp
  qed
  moreover have "n \<le> MAX_FILE * BLK_SIZE" using n(2,3) by (simp add: fs_consts)
  ultimately show ?thesis
    using base others fs_invD(2,3) [OF inv] by (auto simp: fs_inv_def)
qed

lemma sec_free_update [simp]: "sec (b\<lparr>free_block := n\<rparr>) k = sec b k"
  by (simp add: sec_def)

lemma slot_free_update [simp]: "slot (b\<lparr>free_block := n\<rparr>) d k = slot b d k"
  by (simp add: slot_def)

text \<open>The four ways \<^verbatim>\<open>append_inode\<close> finds the sector of the next byte.\<close>

lemma slot_less: "fs_base b I \<Longrightarrow> i < N_SLOTS \<Longrightarrow> k \<le> MAX_FILE \<Longrightarrow> slot b (I i) k < FS_SIZE"
  using fs_baseD(4) [of b I] fs_baseD(6) [of b I i k] by (cases "slot b (I i) k = 0") (auto simp: fs_consts)

lemma sector_old:
  assumes base: "fs_base b I" and i: "i < N_SLOTS" and f: "f < MAX_FILE" "slot b (I i) f \<noteq> 0"
    and ptr: "N_DIRECT \<le> f \<Longrightarrow> slot b (I i) MAX_FILE \<noteq> 0"
  shows "file_sector b (I i) f = Inr (b, I i, slot b (I i) f)"
proof (cases "f < N_DIRECT")
  case True
  then show ?thesis using f file_sector_direct_old by simp
next
  case False
  then have "N_DIRECT \<le> f" by simp
  then show ?thesis
    using file_sector_indirect [OF fs_baseD(1) [OF base] _ f(1) ptr slot_less [OF base i]] f(2) by simp
qed

lemma sector_direct:
  assumes base: "fs_base b I" and i: "i < N_SLOTS" and f: "f < N_DIRECT" "slot b (I i) f = 0" and room: "free_block b < FS_SIZE"
  obtains b1 d1 where "file_sector b (I i) f = Inr (b1, d1, slot b1 d1 f)" "fs_base b1 (I(i := d1))"
    "\<And>k. k \<le> MAX_FILE \<Longrightarrow> slot b1 d1 k = (if k = f then free_block b else slot b (I i) k)"
    "\<And>j k. slot b1 (I j) k = slot b (I j) k" "keeps_files i b I b1 d1" "free_block b1 = free_block b + 1"
proof -
  let ?b = "b\<lparr>free_block := free_block b + 1\<rparr>" and ?d = "(I i)\<lparr>addrs := (addrs (I i))[f := of_nat (free_block b)]\<rparr>"
  have fm: "f < MAX_FILE" "f \<noteq> MAX_FILE" using f(1) by (auto simp: fs_consts)
  note t = take_direct [OF base i refl _ _ f(2) room, of f, simplified]
  have s: "fs_base ?b (I(i := ?d))" "\<And>k. k \<le> MAX_FILE \<Longrightarrow> slot ?b ?d k = (if k = f then free_block b else slot b (I i) k)"
    using t f(1) fm by simp_all
  have "file_sector b (I i) f = Inr (?b, ?d, slot ?b ?d f)"
    using file_sector_direct [OF fs_baseD(5) [OF base i] f(1) room] f(2) s(2) [of f] fm by simp
  moreover have "keeps_files i b I ?b ?d"
    by (rule keeps_filesI) (use s(2) f in auto)
  ultimately show thesis using that [of ?b ?d] s by simp
qed

lemma sector_pointer:
  assumes base: "fs_base b I" and i: "i < N_SLOTS" and f: "N_DIRECT \<le> f" "f < MAX_FILE" and none: "slot b (I i) MAX_FILE = 0"
    and room: "free_block b < FS_SIZE"
  obtains b1 d1 where "file_sector b (I i) f = file_sector b1 d1 f" "fs_base b1 (I(i := d1))"
    "\<And>k. k \<le> MAX_FILE \<Longrightarrow> slot b1 d1 k = (if k = MAX_FILE then free_block b else slot b (I i) k)"
    "\<And>j k. slot b1 (I j) k = slot b (I j) k" "keeps_files i b I b1 d1" "free_block b1 = free_block b + 1"
proof -
  let ?b = "b\<lparr>free_block := free_block b + 1\<rparr>"
  let ?d = "(I i)\<lparr>addrs := (addrs (I i))[N_DIRECT := of_nat (free_block b)]\<rparr>"
  note t = take_direct [OF base i refl _ _ none room, of N_DIRECT, simplified]
  have s: "fs_base ?b (I(i := ?d))" "\<And>k. k \<le> MAX_FILE \<Longrightarrow> slot ?b ?d k = (if k = MAX_FILE then free_block b else slot b (I i) k)"
    using t by simp_all
  have "file_sector b (I i) f = file_sector ?b ?d f"
    using file_sector_pointer [OF fs_baseD(5) [OF base i] f none fs_baseD(3) [OF base] room] .
  moreover have "keeps_files i b I ?b ?d"
    by (rule keeps_filesI) (use s(2) none in auto)
  ultimately show thesis using that [of ?b ?d] s by simp
qed

lemma sector_entry:
  assumes base: "fs_base b I" and i: "i < N_SLOTS" and f: "N_DIRECT \<le> f" "f < MAX_FILE" "slot b (I i) f = 0"
    and ptr: "slot b (I i) MAX_FILE \<noteq> 0" and room: "free_block b < FS_SIZE"
  obtains b1 where "file_sector b (I i) f = Inr (b1, I i, slot b1 (I i) f)" "fs_base b1 I"
    "\<And>k. k \<le> MAX_FILE \<Longrightarrow> slot b1 (I i) k = (if k = f then free_block b else slot b (I i) k)"
    "\<And>j k. j < N_SLOTS \<Longrightarrow> j \<noteq> i \<Longrightarrow> slot b1 (I j) k = slot b (I j) k" "keeps_files i b I b1 (I i)" "free_block b1 = free_block b + 1"
proof -
  let ?p = "slot b (I i) MAX_FILE"
  let ?ws = "(words_of_bytes N_INDIRECT (sec b ?p))[f - N_DIRECT := of_nat (free_block b)]"
  define b1 where "b1 = write_sect (b\<lparr>free_block := free_block b + 1\<rparr>) ?p (concat (map le32 ?ws))"
  note t = take_entry [OF base i refl f(1,2) ptr f(3) room, folded b1_def]
  note D = fs_baseD [OF base]
  have "file_sector b (I i) f = Inr (b1, I i, slot b1 (I i) f)"
    using file_sector_indirect [OF D(1) f(1,2) ptr slot_less [OF base i]] f(2,3) t(2) [of f] t(5) by (simp add: b1_def)
  moreover have "keeps_files i b I b1 (I i)"
  proof (rule keeps_filesI)
    fix j k assume a: "j < N_SLOTS" "k < MAX_FILE" "slot b (I j) k \<noteq> 0"
    then have "slot b (I j) k \<noteq> ?p" using D(7) [OF a(1) i, of k MAX_FILE] by auto
    then show "sec b1 (slot b (I j) k) = sec b (slot b (I j) k)" using t(4) slot_less [OF base a(1)] a(2) by simp
  next
    fix n assume "n < N_META"
    then show "sec b1 n = sec b n" using t(4) [of n] D(3,4) D(6) [OF i, of MAX_FILE] ptr by simp
  qed (use t(2,3) f(3) in \<open>auto simp: b1_def\<close>)
  ultimately show thesis using that [of b1] t(1-3) by (simp add: b1_def)
qed

text \<open>The sector of the block that the next byte of the file goes to.\<close>

lemma file_sector_ok:
  assumes inv: "fs_inv b I sz" and i: "i < N_SLOTS" and off: "sz i < MAX_FILE * BLK_SIZE"
    and n: "sz i < n" "n \<le> (sz i div BLK_SIZE + 1) * BLK_SIZE"
    and room: "free_block b + (blocks_for n - blocks_for (sz i)) \<le> FS_SIZE"
  obtains b1 d1 where "file_sector b (I i) (sz i div BLK_SIZE) = Inr (b1, d1, slot b1 d1 (sz i div BLK_SIZE))"
    "fs_inv b1 (I(i := d1)) (sz(i := n))" "keeps_files i b I b1 d1"
    "free_block b1 = free_block b + (blocks_for n - blocks_for (sz i))"
proof -
  define f where "f = sz i div BLK_SIZE"
  note base = fs_invD(1) [OF inv]
  have f: "f < MAX_FILE" using off by (simp add: f_def less_mult_imp_div_less)
  note n' = n [folded f_def]
  have has: "slot b (I i) k \<noteq> 0 \<longleftrightarrow> uses_slot (sz i) k" if "k \<le> MAX_FILE" for k
    using fs_invD(3) [OF inv i that] .
  have szi: "f * BLK_SIZE + sz i mod BLK_SIZE = sz i" by (simp add: f_def)
  have here: "slot b (I i) f \<noteq> 0 \<longleftrightarrow> sz i mod BLK_SIZE \<noteq> 0"
    using has [of f] f uses_slot_step(3) [OF n f [unfolded f_def]] f by (simp add: f_def)
  have ptr: "slot b (I i) MAX_FILE \<noteq> 0 \<longleftrightarrow> N_DIRECT < f \<or> N_DIRECT = f \<and> sz i mod BLK_SIZE \<noteq> 0"
    using has [of MAX_FILE] szi by (auto simp: uses_slot_def fs_consts)
  note take = fs_inv_take [OF inv i _ n f [unfolded f_def], folded f_def]
  note cnt = blocks_for_step(1) [OF n, folded f_def]
  consider "sz i mod BLK_SIZE \<noteq> 0" | "sz i mod BLK_SIZE = 0" "f < N_DIRECT" | "sz i mod BLK_SIZE = 0" "f = N_DIRECT"
    | "sz i mod BLK_SIZE = 0" "N_DIRECT < f" by linarith
  then show thesis
  proof cases
    case 1
    have "file_sector b (I i) f = Inr (b, I i, slot b (I i) f)"
      by (rule sector_old [OF base i f]) (use 1 here ptr in auto)
    moreover have "fs_inv b (I(i := I i)) (sz(i := n))"
      by (rule take) (use base here ptr 1 in auto)
    moreover have "keeps_files i b I b (I i)" by (rule keeps_filesI) auto
    ultimately show thesis using that [of b "I i"] cnt 1 by (simp add: f_def)
  next
    case 2
    have "free_block b < FS_SIZE" using room cnt 2 by (auto simp: fs_consts)
    then obtain b1 d1 where r: "file_sector b (I i) f = Inr (b1, d1, slot b1 d1 f)" "fs_base b1 (I(i := d1))"
      "\<And>k. k \<le> MAX_FILE \<Longrightarrow> slot b1 d1 k = (if k = f then free_block b else slot b (I i) k)"
      "\<And>j k. slot b1 (I j) k = slot b (I j) k" "keeps_files i b I b1 d1" "free_block b1 = free_block b + 1"
      using sector_direct [OF base i 2(2)] here 2(1) by metis
    have "fs_inv b1 (I(i := d1)) (sz(i := n))"
      by (rule take [OF r(2)]) (use r(3,4) fs_baseD(3) [OF base] f 2 in \<open>auto simp: fs_consts\<close>)
    then show thesis using that r cnt 2 by (simp add: f_def)
  next
    case 3
    have fr: "free_block b < FS_SIZE" "free_block b + 1 < FS_SIZE" using room cnt 3 by auto
    have fd: "N_DIRECT \<le> f" "slot b (I i) MAX_FILE = 0" "slot b (I i) f = 0" using 3 ptr here by auto
    obtain b1 d1 where r: "file_sector b (I i) f = file_sector b1 d1 f" "fs_base b1 (I(i := d1))"
      "\<And>k. k \<le> MAX_FILE \<Longrightarrow> slot b1 d1 k = (if k = MAX_FILE then free_block b else slot b (I i) k)"
      "\<And>j k. slot b1 (I j) k = slot b (I j) k" "keeps_files i b I b1 d1" "free_block b1 = free_block b + 1"
      using sector_pointer [OF base i fd(1) f fd(2) fr(1)] by metis
    let ?I = "I(i := d1)"
    have p1: "slot b1 (?I i) f = 0" "slot b1 (?I i) MAX_FILE \<noteq> 0" "free_block b1 < FS_SIZE"
      using r(3,6) fs_baseD(3) [OF base] f fd fr(2) by (auto simp: fs_consts)
    obtain b2 where q0: "file_sector b1 (?I i) f = Inr (b2, ?I i, slot b2 (?I i) f)" "fs_base b2 ?I"
      "\<And>k. k \<le> MAX_FILE \<Longrightarrow> slot b2 (?I i) k = (if k = f then free_block b1 else slot b1 (?I i) k)"
      "\<And>j k. j < N_SLOTS \<Longrightarrow> j \<noteq> i \<Longrightarrow> slot b2 (?I j) k = slot b1 (?I j) k"
      "keeps_files i b1 ?I b2 (?I i)" "free_block b2 = free_block b1 + 1"
      by (rule sector_entry [OF r(2) i fd(1) f p1]) (rule that; blast)
    note q = q0 [simplified]
    have "fs_inv b2 (I(i := d1)) (sz(i := n))"
      by (rule take [OF q(2)]) (use q(3,4) r(3,4,6) fs_baseD(3) [OF base] f 3 in \<open>auto simp: fs_consts\<close>)
    moreover have "keeps_files i b I b2 d1" by (rule keeps_files_trans [OF r(5) q(5)])
    ultimately show thesis using that [of b2 d1] r(1,6) q(1,6) cnt 3 by (simp add: f_def)
  next
    case 4
    have "free_block b < FS_SIZE" "N_DIRECT \<le> f" using room cnt 4 by auto
    then obtain b1 where q: "file_sector b (I i) f = Inr (b1, I i, slot b1 (I i) f)" "fs_base b1 I"
      "\<And>k. k \<le> MAX_FILE \<Longrightarrow> slot b1 (I i) k = (if k = f then free_block b else slot b (I i) k)"
      "\<And>j k. j < N_SLOTS \<Longrightarrow> j \<noteq> i \<Longrightarrow> slot b1 (I j) k = slot b (I j) k"
      "keeps_files i b I b1 (I i)" "free_block b1 = free_block b + 1"
      using sector_entry [OF base i _ f] here ptr 4 by metis
    have "fs_inv b1 (I(i := I i)) (sz(i := n))"
      by (rule take) (use q(2-4) ptr fs_baseD(3) [OF base] f 4 in \<open>auto simp: fs_consts\<close>)
    then show thesis using that [of b1 "I i"] q cnt 4 by (simp add: f_def)
  qed
qed

end
