(* ===== verification/Mkfs_Files.thy ===== *)
theory Mkfs_Files
  imports Mkfs_Slots
begin

text \<open>
  The contents of the files of an image under construction. The abstract state is the table of the
  files by inode number; \<^verbatim>\<open>append_inode\<close> and \<^verbatim>\<open>alloc_inode\<close> of \<^verbatim>\<open>mkfs/src/main.rs\<close> refine the
  operations on it.
\<close>

section \<open>Contents\<close>

declare append_loop.simps [simp del]

definition byte_at :: "FsBuilder \<Rightarrow> OnDiskInode \<Rightarrow> nat \<Rightarrow> u8" where
  "byte_at b d p = sec b (slot b d (p div BLK_SIZE)) ! (p mod BLK_SIZE)"

text \<open>The first \<open>n\<close> bytes of a file.\<close>

definition file_bytes :: "FsBuilder \<Rightarrow> OnDiskInode \<Rightarrow> nat \<Rightarrow> u8 list" where
  "file_bytes b d n = map (byte_at b d) [0..<n]"

lemma keeps_files_bytes:
  assumes inv: "fs_inv b I sz" and k: "keeps_files i b I b1 d1" and j: "j < N_SLOTS" and p: "p < sz j"
  shows "byte_at b1 ((I(i := d1)) j) p = byte_at b (I j) p"
proof -
  have m: "p div BLK_SIZE < MAX_FILE" using p fs_invD(2) [OF inv j] by (simp add: less_mult_imp_div_less)
  have "p div BLK_SIZE * BLK_SIZE < sz j" using p by (metis div_mult_mod_eq le_add1 le_less_trans)
  then have nz: "slot b (I j) (p div BLK_SIZE) \<noteq> 0"
    using fs_invD(3) [OF inv j, of "p div BLK_SIZE"] m by (simp add: uses_slot_def)
  show ?thesis
    using keeps_filesD(1) [OF k j _ nz] keeps_filesD(2) [OF k j m nz] m by (simp add: byte_at_def)
qed

text \<open>Overwriting the sector of a block changes that block and nothing else.\<close>

lemma write_data:
  assumes inv: "fs_inv b I sz" and i: "i < N_SLOTS" and f: "f < MAX_FILE" "slot b (I i) f \<noteq> 0" and v: "length v = BLK_SIZE"
  defines "b1 \<equiv> write_sect b (slot b (I i) f) v"
  shows "fs_inv b1 I sz" "\<And>j k. j < N_SLOTS \<Longrightarrow> k \<le> MAX_FILE \<Longrightarrow> slot b1 (I j) k = slot b (I j) k"
    "\<And>j k. j < N_SLOTS \<Longrightarrow> k < MAX_FILE \<Longrightarrow> slot b (I j) k \<noteq> 0 \<Longrightarrow>
      sec b1 (slot b (I j) k) = (if j = i \<and> k = f then v else sec b (slot b (I j) k))"
    "\<And>n. n < N_META \<Longrightarrow> sec b1 n = sec b n"
proof -
  note base = fs_invD(1) [OF inv] note D = fs_baseD [OF base]
  let ?n = "slot b (I i) f"
  have n: "?n < FS_SIZE" "N_META \<le> ?n" "?n < free_block b"
    using slot_less [OF base i] D(6) [OF i _ f(2)] f(1) by auto
  have s: "sec b1 m = (if m = ?n then v else sec b m)" if "m < FS_SIZE" for m
    unfolding b1_def using disk.blk_wr [OF D(1) n(1) v that] .
  have other: "slot b (I j) k \<noteq> ?n" if "j < N_SLOTS" "k \<le> MAX_FILE" "slot b (I j) k \<noteq> 0" "j \<noteq> i \<or> k \<noteq> f" for j k
    using D(7) [OF that(1) i that(2), of f] f(1) that(3,4) by auto
  show sl: "slot b1 (I j) k = slot b (I j) k" if j: "j < N_SLOTS" "k \<le> MAX_FILE" for j k
  proof (rule slot_cong)
    assume "slot b (I j) MAX_FILE \<noteq> 0"
    then show "sec b1 (slot b (I j) MAX_FILE) = sec b (slot b (I j) MAX_FILE)"
      using s [OF slot_less [OF base j(1)]] other [OF j(1), of MAX_FILE] f(1) by simp
  qed
  show "sec b1 (slot b (I j) k) = (if j = i \<and> k = f then v else sec b (slot b (I j) k))"
    if "j < N_SLOTS" "k < MAX_FILE" "slot b (I j) k \<noteq> 0" for j k
    using s [OF slot_less [OF base that(1)], of k] other [OF that(1) _ that(3)] that(2) by auto
  show "sec b1 m = sec b m" if "m < N_META" for m
    using s [of m] that n by (simp add: fs_consts)
  have "image_ok b1" unfolding b1_def by (rule disk.wr_ok [OF D(1) n(1) v])
  moreover have "free_block b1 = free_block b" "main_sb b1" using D(2) by (simp_all add: b1_def main_sb_def)
  moreover have "free_zero b1" unfolding free_zero_def
    using s D(8) n(3) by (simp add: b1_def)
  moreover have "slots_in_range b1 I" "slots_distinct b1 I"
    using base sl unfolding fs_base_def slots_in_range_def slots_distinct_def by (simp_all add: b1_def)
  ultimately show "fs_inv b1 I sz"
    using inv sl by (simp add: fs_inv_def fs_base_def)
qed

lemma overwrite_byte:
  assumes "length buf = BLK_SIZE" "off mod BLK_SIZE + length v \<le> BLK_SIZE" "q < BLK_SIZE"
  shows "overwrite (off mod BLK_SIZE) v buf ! q =
    (if off mod BLK_SIZE \<le> q \<and> q < off mod BLK_SIZE + length v then v ! (q - off mod BLK_SIZE) else buf ! q)"
  by (rule nth_overwrite) (use assms in auto)

text \<open>The outcome of appending \<open>v\<close> to file \<open>i\<close>, whose size is \<open>sz i\<close>.\<close>

definition appended :: "nat \<Rightarrow> FsBuilder \<Rightarrow> (nat \<Rightarrow> OnDiskInode) \<Rightarrow> (nat \<Rightarrow> nat) \<Rightarrow> u8 list \<Rightarrow> FsBuilder \<Rightarrow> OnDiskInode \<Rightarrow> bool" where
  "appended i b I sz v b2 d2 \<longleftrightarrow>
     fs_inv b2 (I(i := d2)) (sz(i := sz i + length v)) \<and>
     file_bytes b2 d2 (sz i + length v) = file_bytes b (I i) (sz i) @ v \<and>
     (\<forall>j < N_SLOTS. j \<noteq> i \<longrightarrow> file_bytes b2 (I j) (sz j) = file_bytes b (I j) (sz j)) \<and>
     (\<forall>n < N_META. sec b2 n = sec b n) \<and> free_inode b2 = free_inode b \<and> d2 = (I i)\<lparr>addrs := addrs d2\<rparr> \<and>
     free_block b2 = free_block b + (blocks_for (sz i + length v) - blocks_for (sz i))"

lemma appendedD:
  assumes "appended i b I sz v b2 d2"
  shows "fs_inv b2 (I(i := d2)) (sz(i := sz i + length v))"
    "file_bytes b2 d2 (sz i + length v) = file_bytes b (I i) (sz i) @ v"
    "j < N_SLOTS \<Longrightarrow> j \<noteq> i \<Longrightarrow> file_bytes b2 (I j) (sz j) = file_bytes b (I j) (sz j)"
    "n < N_META \<Longrightarrow> sec b2 n = sec b n" "free_inode b2 = free_inode b" "d2 = (I i)\<lparr>addrs := addrs d2\<rparr>"
    "free_block b2 = free_block b + (blocks_for (sz i + length v) - blocks_for (sz i))"
  using assms unfolding appended_def by (elim conjE, simp)+

lemma file_bytes_eqI: "(\<And>p. p < n \<Longrightarrow> byte_at b d p = byte_at b' d' p) \<Longrightarrow> file_bytes b d n = file_bytes b' d' n"
  by (simp add: file_bytes_def)

lemma file_bytes_append:
  assumes "\<And>p. p < n \<Longrightarrow> byte_at b' d' p = byte_at b d p" "\<And>p. p < length v \<Longrightarrow> byte_at b' d' (n + p) = v ! p"
  shows "file_bytes b' d' (n + length v) = file_bytes b d n @ v"
proof (rule nth_equalityI)
  fix q assume "q < length (file_bytes b' d' (n + length v))"
  then show "file_bytes b' d' (n + length v) ! q = (file_bytes b d n @ v) ! q"
    using assms(1) [of q] assms(2) [of "q - n"] by (auto simp: file_bytes_def nth_append)
qed (simp add: file_bytes_def)

lemma blocks_for_mono: "m \<le> n \<Longrightarrow> blocks_for m \<le> blocks_for n"
  by (auto simp: blocks_for_def fs_consts intro!: add_mono div_le_mono)

lemma block_div_mod: "x < BLK_SIZE \<Longrightarrow> n = f * BLK_SIZE + x \<Longrightarrow> n div BLK_SIZE = f \<and> n mod BLK_SIZE = x"
  by (simp add: fs_consts)

lemma block_mod_less: "p < q \<Longrightarrow> p div BLK_SIZE = q div BLK_SIZE \<Longrightarrow> p mod BLK_SIZE < q mod BLK_SIZE"
  by (metis div_mult_mod_eq nat_add_left_cancel_less)

lemma block_rest: "(n div BLK_SIZE + 1) * BLK_SIZE - n = BLK_SIZE - n mod BLK_SIZE"
proof -
  have "(n div BLK_SIZE + 1) * BLK_SIZE = BLK_SIZE + n div BLK_SIZE * BLK_SIZE" by simp
  then show ?thesis using div_mult_mod_eq [of n BLK_SIZE] by linarith
qed

lemma appended_Nil: "fs_inv b I sz \<Longrightarrow> appended i b I sz [] b (I i)"
  by (simp add: appended_def)

lemma appended_append:
  assumes a: "appended i b I sz v b1 d1" and c: "appended i b1 (I(i := d1)) (sz(i := sz i + length v)) w b2 d2"
  shows "appended i b I sz (v @ w) b2 d2"
proof -
  note A = appendedD [OF a] and C = appendedD [OF c, simplified]
  have "d2 = (I i)\<lparr>addrs := addrs d2\<rparr>"
    using A(6) C(6) by (metis OnDiskInode.surjective OnDiskInode.update_convs(6))
  moreover have "free_block b2 = free_block b + (blocks_for (sz i + length (v @ w)) - blocks_for (sz i))"
    using A(7) C(7) blocks_for_mono [of "sz i" "sz i + length v"]
      blocks_for_mono [of "sz i + length v" "sz i + length v + length w"] by (simp add: add.assoc)
  ultimately show ?thesis
    using A C by (simp add: appended_def add.assoc)
qed

text \<open>One round of the loop of \<^verbatim>\<open>append_inode\<close>.\<close>

lemma append_round:
  assumes inv: "fs_inv b I sz" and i: "i < N_SLOTS" and v: "v \<noteq> []" "sz i mod BLK_SIZE + length v \<le> BLK_SIZE"
    and off: "sz i < MAX_FILE * BLK_SIZE"
    and room: "free_block b + (blocks_for (sz i + length v) - blocks_for (sz i)) \<le> FS_SIZE"
  obtains b1 d1 s buf where "file_sector b (I i) (sz i div BLK_SIZE) = Inr (b1, d1, s)" "read_sect b1 s = Inr buf"
    "appended i b I sz v (write_sect b1 s (overwrite (sz i mod BLK_SIZE) v buf)) d1"
proof -
  let ?f = "sz i div BLK_SIZE" and ?n = "sz i + length v" and ?r = "sz i mod BLK_SIZE"
  have szi: "sz i = ?f * BLK_SIZE + ?r" by simp
  have "?n = ?f * BLK_SIZE + (?r + length v)" using szi by linarith
  then have n: "sz i < ?n" "?n \<le> (?f + 1) * BLK_SIZE"
    using v by (simp, simp only: distrib_right mult_1)
  obtain b1 d1 where r: "file_sector b (I i) ?f = Inr (b1, d1, slot b1 d1 ?f)" "fs_inv b1 (I(i := d1)) (sz(i := ?n))"
    "keeps_files i b I b1 d1" "free_block b1 = free_block b + (blocks_for ?n - blocks_for (sz i))"
    using file_sector_ok [OF inv i off n room] .
  let ?I = "I(i := d1)" and ?s = "slot b1 d1 ?f" and ?buf = "sec b1 (slot b1 d1 ?f)"
  have f: "?f < MAX_FILE" using off by (simp add: less_mult_imp_div_less)
  have nz: "slot b1 (?I i) ?f \<noteq> 0"
    using fs_invD(3) [OF r(2) i, of ?f] f n(1) szi by (simp add: uses_slot_def)
  note base = fs_invD(1) [OF r(2)]
  have sl: "?s < FS_SIZE" using slot_less [OF base i, of ?f] f by simp
  have rd: "read_sect b1 ?s = Inr ?buf" "length ?buf = BLK_SIZE"
    using disk.rd_blk disk.blk_good fs_baseD(1) [OF base] sl by auto
  let ?v = "overwrite ?r v ?buf"
  have lv: "length ?v = BLK_SIZE" using rd(2) v(2) by simp
  define b2 where "b2 = write_sect b1 ?s ?v"
  note w = write_data [OF r(2) i f nz lv, simplified, folded b2_def]
  have b2: "byte_at b2 (?I j) p = (if j = i \<and> p div BLK_SIZE = ?f then ?v ! (p mod BLK_SIZE) else byte_at b1 (?I j) p)"
    if j: "j < N_SLOTS" "p < (sz(i := ?n)) j" for j p
  proof -
    have m: "p div BLK_SIZE < MAX_FILE" using j fs_invD(2) [OF r(2) j(1)] by (simp add: less_mult_imp_div_less)
    have "p div BLK_SIZE * BLK_SIZE < (sz(i := ?n)) j" using j(2) by (metis div_mult_mod_eq le_add1 le_less_trans)
    then have "slot b1 (?I j) (p div BLK_SIZE) \<noteq> 0"
      using fs_invD(3) [OF r(2) j(1), of "p div BLK_SIZE"] m by (simp add: uses_slot_def)
    then show ?thesis using w(2,3) [OF j(1), of "p div BLK_SIZE"] m by (auto simp: byte_at_def split: if_splits)
  qed
  have old: "byte_at b2 d1 p = byte_at b (I i) p" if p: "p < sz i" for p
  proof -
    have "byte_at b1 d1 p = byte_at b (I i) p" using keeps_files_bytes [OF inv r(3) i p] by simp
    moreover have "?v ! (p mod BLK_SIZE) = ?buf ! (p mod BLK_SIZE)" if "p div BLK_SIZE = ?f"
    proof -
      have "p mod BLK_SIZE < ?r" using block_mod_less [OF p that] .
      then show ?thesis using overwrite_byte [OF rd(2) v(2), of "p mod BLK_SIZE"] by (simp add: fs_consts)
    qed
    ultimately show ?thesis
      using b2 [OF i, of p] p by (cases "p div BLK_SIZE = ?f") (simp_all add: byte_at_def)
  qed
  have new: "byte_at b2 d1 (sz i + p) = v ! p" if p: "p < length v" for p
  proof -
    have lt: "?r + p < BLK_SIZE" using p v(2) by simp
    have e: "sz i + p = ?f * BLK_SIZE + (?r + p)" using szi by linarith
    show ?thesis
      using block_div_mod [OF lt e] b2 [OF i, of "sz i + p"] p overwrite_byte [OF rd(2) v(2) lt] by simp
  qed
  have other: "byte_at b2 (I j) p = byte_at b (I j) p" if "j < N_SLOTS" "j \<noteq> i" "p < sz j" for j p
    using b2 [OF that(1), of p] keeps_files_bytes [OF inv r(3) that(1,3)] that by simp
  have "appended i b I sz v b2 d1"
    unfolding appended_def
  proof (intro conjI allI impI)
    show "file_bytes b2 d1 (sz i + length v) = file_bytes b (I i) (sz i) @ v"
      by (rule file_bytes_append) (use old new in auto)
    show "file_bytes b2 (I j) (sz j) = file_bytes b (I j) (sz j)" if "j < N_SLOTS" "j \<noteq> i" for j
      by (rule file_bytes_eqI) (rule other [OF that])
    show "fs_inv b2 ?I (sz(i := ?n))" using w(1) by (simp add: fun_upd_def)
    show "sec b2 n = sec b n" if "n < N_META" for n
      using w(4) [OF that] keeps_filesD(3) [OF r(3) that] by simp
    show "free_inode b2 = free_inode b" using keeps_filesD(4) [OF r(3)] by (simp add: b2_def)
    show "d1 = (I i)\<lparr>addrs := addrs d1\<rparr>" by (rule keeps_filesD(5) [OF r(3)])
    show "free_block b2 = free_block b + (blocks_for ?n - blocks_for (sz i))" using r(4) by (simp add: b2_def)
  qed
  then show thesis using that r(1) rd(1) by (simp add: b2_def)
qed

lemma blocks_for_room:
  assumes "b + (blocks_for n - blocks_for k) \<le> s" "k \<le> m" "m \<le> n"
  shows "b + (blocks_for m - blocks_for k) \<le> s" "b + (blocks_for m - blocks_for k) + (blocks_for n - blocks_for m) \<le> s"
  using assms blocks_for_mono [of k m] blocks_for_mono [of m n] by simp_all

lemma append_loop_ok:
  assumes "fs_inv b I sz" "i < N_SLOTS" "sz i + length data \<le> MAX_FILE * BLK_SIZE"
    "free_block b + (blocks_for (sz i + length data) - blocks_for (sz i)) \<le> FS_SIZE"
  shows "\<exists>b1 d1. append_loop b (I i) (sz i) data = Inr (b1, d1, sz i + length data) \<and> appended i b I sz data b1 d1"
  using assms
proof (induction data arbitrary: b I sz rule: length_induct)
  case (1 data)
  show ?case
  proof (cases "data = []")
    case True
    then show ?thesis using 1(2) by (simp add: append_loop.simps [of _ _ _ "[]"] appended_Nil)
  next
    case False
    let ?f = "sz i div BLK_SIZE"
    define nw where "nw = min (length data) ((?f + 1) * BLK_SIZE - sz i)"
    let ?v = "take nw data" and ?w = "drop nw data" and ?sz = "sz(i := sz i + nw)"
    have nw: "0 < nw" "nw \<le> length data" "sz i mod BLK_SIZE + nw \<le> BLK_SIZE"
      using False block_rest [of "sz i"] mod_less_divisor [of BLK_SIZE "sz i"] by (auto simp: nw_def fs_consts)
    have lv: "length ?v = nw" "?v \<noteq> []" using nw by auto
    have off: "sz i < MAX_FILE * BLK_SIZE" using 1(4) nw by linarith
    have f: "?f < MAX_FILE" using off by (simp add: less_mult_imp_div_less)
    note room = blocks_for_room [OF 1(5), of "sz i + nw"]
    obtain b1 d1 s buf where r: "file_sector b (I i) ?f = Inr (b1, d1, s)" "read_sect b1 s = Inr buf"
      "appended i b I sz ?v (write_sect b1 s (overwrite (sz i mod BLK_SIZE) ?v buf)) d1"
      by (rule append_round [OF 1(2,3) lv(2) _ off]) (use nw lv room in auto)
    let ?b = "write_sect b1 s (overwrite (sz i mod BLK_SIZE) ?v buf)" and ?I = "I(i := d1)"
    have sum: "?sz i + length ?w = sz i + length data" using nw by simp
    have "\<exists>b2 d2. append_loop ?b (?I i) (?sz i) ?w = Inr (b2, d2, ?sz i + length ?w) \<and> appended i ?b ?I ?sz ?w b2 d2"
    proof (rule 1(1) [rule_format])
      show "length ?w < length data" "i < N_SLOTS" using nw 1(3) by auto
      show "fs_inv ?b ?I ?sz" using appendedD(1) [OF r(3)] lv by simp
      show "?sz i + length ?w \<le> MAX_FILE * BLK_SIZE" unfolding sum by (rule 1(4))
      show "free_block ?b + (blocks_for (?sz i + length ?w) - blocks_for (?sz i)) \<le> FS_SIZE"
        unfolding sum using room(2) nw appendedD(7) [OF r(3)] lv by simp
    qed
    then obtain b2 d2 where l: "append_loop ?b d1 (sz i + nw) ?w = Inr (b2, d2, sz i + length data)"
      "appended i ?b ?I ?sz ?w b2 d2" unfolding sum by auto
    have "append_loop b (I i) (sz i) data = Inr (b2, d2, sz i + length data)"
      using False r(1,2) f l(1) by (subst append_loop.simps) (simp add: Let_def rassert_def nw_def)
    moreover have "appended i b I sz data b2 d2"
      using appended_append [OF r(3)] l(2) lv(1) by (metis append_take_drop_id)
    ultimately show ?thesis by blast
  qed
qed

section \<open>The table of files\<close>

text \<open>
  The abstract state is the list of the files by inode number: the type of each and its content.
  \<open>appends\<close> is the effect of \<^verbatim>\<open>append_inode\<close> on it, and \<open>fits\<close> the limits of the disk.
\<close>

type_synonym table = "(u16 \<times> u8 list) list"

definition appends :: "nat \<Rightarrow> u8 list \<Rightarrow> table \<Rightarrow> table" where
  "appends i data t = t[i := (fst (t ! i), snd (t ! i) @ data)]"

definition blocks_used :: "table \<Rightarrow> nat" where
  "blocks_used t = sum_list (map (\<lambda>f. blocks_for (length (snd f))) t)"

definition fits :: "table \<Rightarrow> bool" where
  "fits t \<longleftrightarrow> N_META + blocks_used t \<le> FS_SIZE \<and> length t \<le> N_SLOTS
     \<and> (\<forall>f \<in> set t. length (snd f) \<le> MAX_FILE * BLK_SIZE)"

definition fsize :: "FsBuilder \<Rightarrow> nat \<Rightarrow> nat" where
  "fsize b i = unat (isize (inode_at b i))"

definition tab :: "FsBuilder \<Rightarrow> table" where
  "tab b = map (\<lambda>i. (itype (inode_at b i), file_bytes b (inode_at b i) (fsize b i))) [0..<unat (free_inode b)]"

definition fs_ok :: "FsBuilder \<Rightarrow> bool" where
  "fs_ok b \<longleftrightarrow> fs_inv b (inode_at b) (fsize b) \<and> unat (free_inode b) \<le> N_SLOTS \<and>
     (\<forall>i < N_SLOTS. unat (free_inode b) \<le> i \<longrightarrow> fsize b i = 0) \<and> free_block b = N_META + blocks_used (tab b) \<and>
     sec b 1 = overwrite 0 (super_block_bytes main_super_block) (replicate BLK_SIZE 0)"

lemma unat_size: "n \<le> MAX_FILE * BLK_SIZE \<Longrightarrow> unat (of_nat n :: u32) = n"
  by (simp add: unat_of_nat fs_consts)

lemma length_file_bytes [simp]: "length (file_bytes b d n) = n"
  by (simp add: file_bytes_def)

lemma length_tab [simp]: "length (tab b) = unat (free_inode b)"
  by (simp add: tab_def)

lemma nth_tab: "i < unat (free_inode b) \<Longrightarrow> tab b ! i = (itype (inode_at b i), file_bytes b (inode_at b i) (fsize b i))"
  by (simp add: tab_def)

lemma length_appends [simp]: "length (appends i v t) = length t"
  by (simp add: appends_def)

lemma blocks_used_update:
  "i < length t \<Longrightarrow> blocks_used (t[i := f]) = blocks_used t + blocks_for (length (snd f)) - blocks_for (length (snd (t ! i)))"
  by (simp add: blocks_used_def map_update sum_list_update)

lemma blocks_used_member: "i < length t \<Longrightarrow> blocks_for (length (snd (t ! i))) \<le> blocks_used t"
  unfolding blocks_used_def by (rule member_le_sum_list) auto

lemma blocks_used_append [simp]: "blocks_used (t @ u) = blocks_used t + blocks_used u"
  by (simp add: blocks_used_def)

lemma blocks_used_appends:
  assumes "i < length t"
  shows "blocks_used (appends i v t) = blocks_used t +
    (blocks_for (length (snd (t ! i)) + length v) - blocks_for (length (snd (t ! i))))"
  using assms blocks_used_member [OF assms] blocks_for_mono [of "length (snd (t ! i))" "length (snd (t ! i)) + length v"]
  by (simp add: appends_def blocks_used_update)

lemma fitsD:
  assumes "fits t"
  shows "N_META + blocks_used t \<le> FS_SIZE" "length t \<le> N_SLOTS" "i < length t \<Longrightarrow> length (snd (t ! i)) \<le> MAX_FILE * BLK_SIZE"
  using assms by (auto simp: fits_def)

text \<open>What lies in the data sectors does not depend on the inode blocks.\<close>

lemma inode_at_cong: "(\<And>n. n < N_META \<Longrightarrow> sec b' n = sec b n) \<Longrightarrow> j < N_SLOTS \<Longrightarrow> inode_at b' j = inode_at b j"
  using inode_block_less by (simp add: inode_at_def)

lemma slot_meta:
  assumes "fs_base b I" "i < N_SLOTS" and s: "\<And>n. n < FS_SIZE \<Longrightarrow> N_META \<le> n \<Longrightarrow> sec b' n = sec b n"
    and d: "addrs d = addrs (I i)"
  shows "slot b' d k = slot b (I i) k"
proof -
  have "slot b' (I i) k = slot b (I i) k"
    by (rule slot_cong) (use s fs_baseD(6) [OF assms(1,2), of MAX_FILE] slot_less [OF assms(1,2), of MAX_FILE] in auto)
  moreover have "slot b' d k = slot b' (I i) k" using d by (simp add: slot_def)
  ultimately show ?thesis by simp
qed

lemma fs_inv_meta:
  assumes inv: "fs_inv b I sz" and s: "\<And>n. n < FS_SIZE \<Longrightarrow> N_META \<le> n \<Longrightarrow> sec b' n = sec b n"
    and b': "image_ok b'" "super_block b' = super_block b" "free_block b' = free_block b"
    and J: "\<And>i. i < N_SLOTS \<Longrightarrow> wf_inode (J i) \<and> addrs (J i) = addrs (I i)"
    and sz: "\<And>i. i < N_SLOTS \<Longrightarrow> sz' i = sz i"
  shows "fs_inv b' J sz'"
proof -
  note base = fs_invD(1) [OF inv]
  have e: "slot b' (J i) k = slot b (I i) k" if "i < N_SLOTS" for i k
    using slot_meta [OF base that s] J [OF that] by blast
  have r: "slots_in_range b' J" "slots_distinct b' J" "free_zero b'"
    unfolding slots_in_range_def slots_distinct_def free_zero_def
    using fs_baseD(6,7,8) [OF base] fs_baseD(3) [OF base] s by (auto simp: e b')
  have "fs_base b' J"
    unfolding fs_base_def using r b' J fs_baseD(2-4) [OF base] by (simp add: main_sb_def)
  then show ?thesis
    unfolding fs_inv_def using fs_invD(2,3) [OF inv] sz by (simp add: e)
qed

lemma file_bytes_meta:
  assumes inv: "fs_inv b I sz" and s: "\<And>n. n < FS_SIZE \<Longrightarrow> N_META \<le> n \<Longrightarrow> sec b' n = sec b n"
    and i: "i < N_SLOTS" and d: "addrs d = addrs (I i)"
  shows "file_bytes b' d (sz i) = file_bytes b (I i) (sz i)"
proof (rule file_bytes_eqI)
  fix p assume p: "p < sz i"
  note base = fs_invD(1) [OF inv]
  let ?k = "p div BLK_SIZE"
  have m: "?k < MAX_FILE" using p fs_invD(2) [OF inv i] by (simp add: less_mult_imp_div_less)
  have "?k * BLK_SIZE < sz i" using p by (metis div_mult_mod_eq le_add1 le_less_trans)
  then have "slot b (I i) ?k \<noteq> 0" using fs_invD(3) [OF inv i, of ?k] m by (simp add: uses_slot_def)
  then have "sec b' (slot b (I i) ?k) = sec b (slot b (I i) ?k)"
    using s fs_baseD(6) [OF base i, of ?k] slot_less [OF base i, of ?k] m by auto
  moreover have "slot b' d ?k = slot b (I i) ?k" by (rule slot_meta [OF base i s d])
  ultimately show "byte_at b' d p = byte_at b (I i) p" by (simp add: byte_at_def)
qed

section \<open>Appending and allocating refine the table\<close>

lemma fs_okD:
  assumes "fs_ok b"
  shows "fs_inv b (inode_at b) (fsize b)" "fs_base b (inode_at b)" "unat (free_inode b) \<le> N_SLOTS"
    "i < N_SLOTS \<Longrightarrow> unat (free_inode b) \<le> i \<Longrightarrow> fsize b i = 0" "free_block b = N_META + blocks_used (tab b)"
    "image_ok b" "main_sb b" "sec b 1 = overwrite 0 (super_block_bytes main_super_block) (replicate BLK_SIZE 0)"
  using assms fs_invD(1) fs_baseD(1,2) unfolding fs_ok_def by blast+

text \<open>The outcome of writing an inode.\<close>

definition wrote_inode :: "nat \<Rightarrow> OnDiskInode \<Rightarrow> FsBuilder \<Rightarrow> FsBuilder \<Rightarrow> bool" where
  "wrote_inode i d b b' \<longleftrightarrow> image_ok b' \<and> super_block b' = super_block b \<and> free_inode b' = free_inode b
     \<and> free_block b' = free_block b \<and> (\<forall>j < N_SLOTS. inode_at b' j = (if j = i then d else inode_at b j))
     \<and> (\<forall>n < FS_SIZE. N_META - 1 \<le> n \<longrightarrow> sec b' n = sec b n) \<and> sec b' 1 = sec b 1"

lemma wrote_inodeD:
  assumes "wrote_inode i d b b'"
  shows "image_ok b'" "super_block b' = super_block b" "free_inode b' = free_inode b" "free_block b' = free_block b"
    "j < N_SLOTS \<Longrightarrow> inode_at b' j = (if j = i then d else inode_at b j)"
    "n < FS_SIZE \<Longrightarrow> N_META \<le> n \<Longrightarrow> sec b' n = sec b n" "sec b' 1 = sec b 1"
  using assms by (simp_all add: wrote_inode_def)

lemma write_inode_wrote:
  assumes "image_ok b" "main_sb b" "unat i < N_SLOTS" "wf_inode d"
  shows "\<exists>b'. write_inode b i d = Inr b' \<and> wrote_inode (unat i) d b b'"
  by (rule write_inode_eq [OF assms]) (simp add: wrote_inode_def fs_consts)

lemma append_inode_wrote:
  assumes ok: "fs_ok b" and i: "unat ino < unat (free_inode b)" and fit: "fits (appends (unat ino) data (tab b))"
  shows "\<exists>b1 d1 b'. appended (unat ino) b (inode_at b) (fsize b) data b1 d1 \<and> append_inode b ino data = Inr b' \<and>
    wrote_inode (unat ino) (d1\<lparr>isize := of_nat (fsize b (unat ino) + length data)\<rparr>) b1 b' \<and>
    fsize b (unat ino) + length data \<le> MAX_FILE * BLK_SIZE"
proof -
  note D = fs_okD [OF ok]
  let ?i = "unat ino" and ?n = "fsize b (unat ino) + length data"
  have slot: "?i < N_SLOTS" using i D(3) by linarith
  have lens: "length (snd (tab b ! ?i)) = fsize b ?i" using i by (simp add: nth_tab)
  have max: "?n \<le> MAX_FILE * BLK_SIZE" using fitsD(3) [OF fit, of ?i] i lens by (simp add: appends_def)
  have room: "free_block b + (blocks_for ?n - blocks_for (fsize b ?i)) \<le> FS_SIZE"
    using fitsD(1) [OF fit] blocks_used_appends [of ?i "tab b" data] i lens D(5) by simp
  obtain b1 d1 where l: "append_loop b (inode_at b ?i) (fsize b ?i) data = Inr (b1, d1, ?n)"
    and a: "appended ?i b (inode_at b) (fsize b) data b1 d1"
    using append_loop_ok [OF D(1) slot max room] by blast
  note base = fs_invD(1) [OF appendedD(1) [OF a]]
  have wf: "wf_inode (d1\<lparr>isize := of_nat ?n\<rparr>)" using fs_baseD(5) [OF base slot] by (simp add: wf_inode_def)
  obtain b' where w: "write_inode b1 ino (d1\<lparr>isize := of_nat ?n\<rparr>) = Inr b'"
    "wrote_inode ?i (d1\<lparr>isize := of_nat ?n\<rparr>) b1 b'"
    using write_inode_wrote [OF fs_baseD(1,2) [OF base] slot wf] by blast
  have "append_inode b ino data = Inr b'"
    using read_inode_eq [OF D(6,7) slot] l w(1) by (simp add: append_inode_def fsize_def)
  then show ?thesis using a w(2) max by blast
qed

lemma append_inode_ok:
  assumes ok: "fs_ok b" and i: "unat ino < unat (free_inode b)" and fit: "fits (appends (unat ino) data (tab b))"
  shows "\<exists>b'. append_inode b ino data = Inr b' \<and> fs_ok b' \<and> free_inode b' = free_inode b
    \<and> tab b' = appends (unat ino) data (tab b)"
proof -
  note D = fs_okD [OF ok]
  let ?i = "unat ino" and ?I = "inode_at b" and ?sz = "fsize b"
  obtain b1 d1 b' where a: "appended ?i b ?I ?sz data b1 d1" and r: "append_inode b ino data = Inr b'"
    and w: "wrote_inode ?i (d1\<lparr>isize := of_nat (?sz ?i + length data)\<rparr>) b1 b'" and max: "?sz ?i + length data \<le> MAX_FILE * BLK_SIZE"
    using append_inode_wrote [OF ok i fit] by blast
  note W = wrote_inodeD [OF w]
  note A = appendedD [OF a]
  have slot: "?i < N_SLOTS" "\<And>j. j < unat (free_inode b) \<Longrightarrow> j < N_SLOTS" using i D(3) by linarith+
  have at: "inode_at b' j = (if j = ?i then d1\<lparr>isize := of_nat (?sz ?i + length data)\<rparr> else ?I j)" if "j < N_SLOTS" for j
    using W(5) [OF that] inode_at_cong [OF A(4) that] by simp
  have sz: "fsize b' j = (if j = ?i then ?sz j + length data else ?sz j)" if "j < N_SLOTS" for j
    using at [OF that] unat_size [OF max] 
    by (cases "j = ?i") (simp add: fsize_def [of b'] del: of_nat_add, simp add: fsize_def)
  have b': "free_inode b' = free_inode b" using W(3) A(5) by simp
  have wf: "wf_inode (inode_at b' j) \<and> addrs (inode_at b' j) = addrs ((?I(?i := d1)) j)" if "j < N_SLOTS" for j
    using at [OF that] fs_baseD(5) [OF fs_invD(1) [OF A(1)] that] by (auto simp: wf_inode_def split: if_splits)
  have inv: "fs_inv b' (inode_at b') (fsize b')"
    by (rule fs_inv_meta [OF A(1) W(6) W(1,2,4) wf]) (use sz in auto)
  have fb: "file_bytes b' (inode_at b' j) (fsize b' j) = (if j = ?i then file_bytes b (?I j) (?sz j) @ data else file_bytes b (?I j) (?sz j))"
    if "j < N_SLOTS" for j
    using file_bytes_meta [OF A(1) W(6) that, of "inode_at b' j"] wf [OF that] sz [OF that] A(2) A(3) [OF that]
    by (cases "j = ?i") simp_all
  have ty: "itype (inode_at b' j) = itype (?I j)" if "j < N_SLOTS" for j
    using at [OF that] A(6) by (cases "j = ?i") (simp_all, metis OnDiskInode.select_convs(1) OnDiskInode.surjective OnDiskInode.update_convs(6))
  have t: "tab b' = appends ?i data (tab b)"
    by (rule nth_equalityI) (use i b' fb ty slot in \<open>auto simp: appends_def nth_tab nth_list_update\<close>)
  have lens: "length (snd (tab b ! ?i)) = fsize b ?i" using i by (simp add: nth_tab)
  have "free_block b' = N_META + blocks_used (tab b')"
    using A(7) D(5) W(4) blocks_used_appends [of ?i "tab b" data] i lens by (simp add: t)
  moreover have "fsize b' j = 0" if "j < N_SLOTS" "unat (free_inode b') \<le> j" for j
    using sz [OF that(1)] D(4) [OF that(1)] that(2) b' i by auto
  moreover have "sec b' 1 = sec b 1" using W(7) A(4) [of 1] by (simp add: fs_consts)
  ultimately have "fs_ok b'" using inv D(3,8) by (simp add: fs_ok_def b')
  then show ?thesis using r b' t by blast
qed

lemma empty_addrs:
  assumes inv: "fs_inv b I sz" and i: "i < N_SLOTS" "sz i = 0"
  shows "addrs (I i) = replicate 13 0"
proof (rule nth_equalityI)
  show l: "length (addrs (I i)) = length (replicate 13 0)"
    using fs_baseD(5) [OF fs_invD(1) [OF inv] i(1)] by (simp add: wf_inode_def)
  fix k assume "k < length (addrs (I i))"
  then have k: "k < 13" using l by simp
  have z: "slot b (I i) m = 0" if "m \<le> MAX_FILE" for m
    using fs_invD(3) [OF inv i(1) that] i(2) by (simp add: uses_slot_def split: if_splits)
  show "addrs (I i) ! k = replicate 13 0 ! k"
    using z [of k] z [of MAX_FILE] k by (cases "k = 12") (simp_all add: slot_def fs_consts unat_eq_zero)
qed

lemma alloc_inode_ok:
  assumes ok: "fs_ok b" and room: "unat (free_inode b) < N_SLOTS"
  shows "\<exists>b'. alloc_inode b ty = Inr (free_inode b, b') \<and> fs_ok b' \<and> unat (free_inode b') = unat (free_inode b) + 1
    \<and> tab b' = tab b @ [(file_type_code ty, [])]"
proof -
  note D = fs_okD [OF ok]
  let ?n = "unat (free_inode b)" and ?b = "b\<lparr>free_inode := free_inode b + 1\<rparr>" and ?I = "inode_at b"
    and ?d = "inode_default\<lparr>itype := file_type_code ty, n_link := 1, isize := 0\<rparr>"
  have sec: "sec ?b n = sec b n" for n by (simp add: sec_def)
  have at0: "inode_at ?b j = ?I j" for j by (simp add: inode_at_def sec)
  have d: "wf_inode ?d" "addrs ?d = replicate 13 0" "isize ?d = 0" "itype ?d = file_type_code ty"
    by (simp_all add: inode_default_def wf_inode_def fs_consts)
  obtain b' where w: "write_inode ?b (free_inode b) ?d = Inr b'" "wrote_inode ?n ?d ?b b'"
    using write_inode_wrote [of ?b "free_inode b" ?d] D(6,7) room d(1) by (auto simp: image_ok_def main_sb_def)
  note W = wrote_inodeD [OF w(2)]
  have r: "alloc_inode b ty = Inr (free_inode b, b')" using w(1) by (simp add: alloc_inode_def Let_def)
  have at: "inode_at b' j = (if j = ?n then ?d else ?I j)" if "j < N_SLOTS" for j
    using W(5) [OF that] at0 by simp
  have zero: "fsize b ?n = 0" using D(4) room by simp
  have sz: "fsize b' j = fsize b j" if "j < N_SLOTS" for j
    using at [OF that] zero d(3) by (auto simp: fsize_def)
  have s: "sec b' n = sec b n" if "n < FS_SIZE" "N_META \<le> n" for n using W(6) [OF that] sec by simp
  have b': "super_block b' = super_block b" "free_block b' = free_block b" using W(2,4) by simp_all
  have n': "unat (free_inode b') = ?n + 1"
    using W(3) room by (simp add: unat_word_ariths N_SLOTS_def fs_consts)
  have wf: "wf_inode (inode_at b' j) \<and> addrs (inode_at b' j) = addrs (?I j)" if "j < N_SLOTS" for j
    using at [OF that] d fs_baseD(5) [OF D(2) that] empty_addrs [OF D(1) room zero] by auto
  have inv: "fs_inv b' (inode_at b') (fsize b')"
    by (rule fs_inv_meta [OF D(1) s W(1) b' wf]) (use sz in auto)
  have fb: "file_bytes b' (inode_at b' j) (fsize b' j) = file_bytes b (?I j) (fsize b j)" if "j < N_SLOTS" for j
    using file_bytes_meta [OF D(1) s that, of "inode_at b' j"] wf [OF that] sz [OF that] by simp
  have ty: "itype (inode_at b' j) = (if j = ?n then file_type_code ty else itype (?I j))" if "j < N_SLOTS" for j
    using at [OF that] d(4) by simp
  have t: "tab b' = tab b @ [(file_type_code ty, [])]"
    using room fb ty zero by (simp add: tab_def n' file_bytes_def [of _ _ 0])
  have "free_block b' = N_META + blocks_used (tab b')"
    using D(5) b'(2) by (simp add: t) (simp add: blocks_used_def blocks_for_def fs_consts)
  moreover have "fsize b' j = 0" if "j < N_SLOTS" "unat (free_inode b') \<le> j" for j
    using sz [OF that(1)] D(4) [OF that(1)] that(2) n' by simp
  ultimately have "fs_ok b'" using inv n' room D(8) W(7) sec by (simp add: fs_ok_def)
  then show ?thesis using r n' t by blast
qed

end
