(* ===== verification/Mkfs_Image.thy ===== *)
theory Mkfs_Image
  imports Mkfs_Files
begin

text \<open>
  The whole run of \<^verbatim>\<open>mkfs/src/main.rs\<close>: the image it writes holds the files it was given, a root
  directory that names them, the bitmap of the blocks in use and the super block.
\<close>

section \<open>The empty file system\<close>

lemma clear_sects_append: "clear_sects (xs @ ys) b = clear_sects ys (clear_sects xs b)"
  by (induction xs arbitrary: b) simp_all

lemma clear_sects_sel [simp]:
  "super_block (clear_sects xs b) = super_block b" "free_inode (clear_sects xs b) = free_inode b"
  "free_block (clear_sects xs b) = free_block b"
  by (induction xs arbitrary: b) simp_all

lemma image_clear_sects:
  "image (clear_sects [0..<n] b) = replicate (n * BLK_SIZE) 0 @ drop (n * BLK_SIZE) (image b)"
proof (induction n)
  case (Suc n)
  then show ?case
    by (simp add: clear_sects_append write_sect_def file_write_def overwrite_def replicate_add flip: append_assoc)
      (simp add: add.commute replicate_add flip: replicate_add)
qed simp

lemma chunk_replicate: "(i + 1) * n \<le> m \<Longrightarrow> chunk n i (replicate m x @ ys) = replicate n x"
  by (simp add: chunk_def min_def)

lemma create_sel:
  shows "image_ok (create old sb)" "super_block (create old sb) = sb" "free_inode (create old sb) = 1"
    "free_block (create old sb) = N_META"
    "n < FS_SIZE \<Longrightarrow> sec (create old sb) n =
      (if n = 1 then overwrite 0 (super_block_bytes sb) (replicate BLK_SIZE 0) else replicate BLK_SIZE 0)"
proof -
  let ?b = "clear_sects [0..<FS_SIZE] \<lparr>image = old, super_block = sb, free_inode = 1, free_block = N_META\<rparr>"
  have ok: "image_ok ?b" by (simp add: image_ok_def image_clear_sects)
  have l: "length (overwrite 0 (super_block_bytes sb) (replicate BLK_SIZE (0 :: u8))) = BLK_SIZE" "1 < FS_SIZE"
    by (simp_all add: super_block_bytes_def fs_consts)
  show "image_ok (create old sb)" using disk.wr_ok [OF ok l(2,1)] by (simp add: create_def)
  show "super_block (create old sb) = sb" "free_inode (create old sb) = 1" "free_block (create old sb) = N_META"
    by (simp_all add: create_def)
  have z: "sec ?b n = replicate BLK_SIZE 0" if "n < FS_SIZE" for n
    unfolding sec_def image_clear_sects by (rule chunk_replicate) (use that in \<open>simp add: fs_consts\<close>)
  show "n < FS_SIZE \<Longrightarrow> sec (create old sb) n =
      (if n = 1 then overwrite 0 (super_block_bytes sb) (replicate BLK_SIZE 0) else replicate BLK_SIZE 0)"
    using disk.blk_wr [OF ok l(2,1)] z by (simp add: create_def)
qed

lemma words_of_zeros: "4 * n \<le> m \<Longrightarrow> words_of_bytes n (replicate m 0) = replicate n 0"
  by (rule nth_equalityI) (simp_all add: words_of_bytes_def chunk_def min_def)

lemma inode_of_zeros: "inode_of_bytes (replicate 64 0) = inode_default"
  by (simp add: inode_of_bytes_def inode_default_def chunk_def words_of_zeros fs_consts of_le16_def numeral_2_eq_2)

lemma create_inode:
  assumes "j < N_SLOTS"
  shows "inode_at (create old sb) j = inode_default"
proof -
  let ?n = "2 + N_LOG + j div INODES_PER_BLOCK"
  have "?n < FS_SIZE" "?n \<noteq> 1" using inode_block_less [OF assms] by (simp_all add: fs_consts)
  moreover have "chunk 64 (j mod INODES_PER_BLOCK) (replicate BLK_SIZE 0) = replicate 64 (0 :: u8)"
  proof -
    have "j mod 8 * 64 + 64 \<le> (512 :: nat)" by (simp add: Suc_le_eq)
    then show ?thesis by (simp add: chunk_def fs_consts min_def)
  qed
  ultimately show ?thesis by (simp add: inode_at_def create_sel inode_of_zeros)
qed

lemma create_ok: "fs_ok (create old main_super_block)" "tab (create old main_super_block) = [(0, [])]"
proof -
  let ?b = "create old main_super_block"
  have sl: "slot ?b (inode_at ?b i) k = 0" if "i < N_SLOTS" "k \<le> MAX_FILE" for i k
    using that by (auto simp: create_inode slot_def inode_default_def fs_consts)
  have sz: "fsize ?b i = 0" if "i < N_SLOTS" for i
    using that by (simp add: fsize_def create_inode inode_default_def)
  have z: "free_zero ?b" by (simp add: free_zero_def create_sel fs_consts)
  have "fs_base ?b (inode_at ?b)"
    using sl z by (simp add: fs_base_def slots_in_range_def slots_distinct_def create_sel main_sb_def create_inode)
      (simp add: wf_inode_def inode_default_def fs_consts)
  then have inv: "fs_inv ?b (inode_at ?b) (fsize ?b)" using sl sz by (simp add: fs_inv_def uses_slot_def)
  have 0: "0 < N_SLOTS" by (simp add: N_SLOTS_def fs_consts)
  show t: "tab ?b = [(0, [])]"
    using sz [OF 0] create_inode [OF 0] by (simp add: tab_def create_sel inode_default_def file_bytes_def)
  show "fs_ok ?b"
    using inv sz 0 create_sel(5) [of 1] by (simp add: fs_ok_def t create_sel(1-4)) (simp add: blocks_used_def blocks_for_def fs_consts)
qed

section \<open>The block bitmap\<close>

lemma length_bitmap [simp]: "length (bitmap n) = BLK_SIZE"
  by (induction n) (simp_all add: Let_def)

lemma bitmap_bit:
  assumes "n \<le> BLK_SIZE * 8" "i < BLK_SIZE" "k < 8"
  shows "bit (bitmap n ! i) k \<longleftrightarrow> 8 * i + k < n"
  using assms(1)
proof (induction n)
  case (Suc n)
  have n: "n div 8 < BLK_SIZE" "n = 8 * (n div 8) + n mod 8" using Suc(2) by simp_all
  have "bit (bitmap (Suc n) ! i) k \<longleftrightarrow> bit (bitmap n ! i) k \<or> (i = n div 8 \<and> k = n mod 8)"
    using assms(2,3) n(1) by (auto simp: Let_def nth_list_update bit_or_iff bit_exp_iff)
  moreover have "i = n div 8 \<and> k = n mod 8 \<longleftrightarrow> 8 * i + k = n" using assms(3) by auto
  ultimately show ?case using Suc by auto
qed (use assms in simp)

section \<open>Directory entries and files\<close>

text \<open>An entry keeps at most 13 bytes of a name, padded with zeros.\<close>

definition dir_entry :: "u16 \<Rightarrow> u8 list \<Rightarrow> u8 list" where
  "dir_entry ino name = le16 ino @ take 13 name @ replicate (14 - min 13 (length name)) 0"

definition name_ok :: "u8 list \<Rightarrow> bool" where
  "name_ok name \<longleftrightarrow> 0x2F \<notin> set name \<and> length name \<le> DIR_SIZE"

lemma set_name_eq:
  assumes "name_ok name"
  shows "set_name (dirent_default\<lparr>inum := ino\<rparr>) name =
    Inr \<lparr>inum = ino, de_name = take 13 name @ replicate (14 - min 13 (length name)) 0\<rparr>"
proof -
  have "(overwrite 0 name (replicate 14 0))[min (length name + 1) 14 - 1 := 0]
      = take 13 name @ replicate (14 - min 13 (length name)) (0 :: u8)"
    using assms by (intro nth_equalityI) (auto simp: overwrite_def name_ok_def nth_list_update nth_append fs_consts min_def)
  then show ?thesis
    using assms by (simp add: set_name_def name_ok_def dirent_default_def rassert_def Let_def fs_consts)
qed

lemma add_dirent_eq: "name_ok name \<Longrightarrow> add_dirent b dir ino name = append_inode b dir (dir_entry ino name)"
  by (simp add: add_dirent_def set_name_eq dirent_as_bytes_def dir_entry_def)

lemma set_name_rejects:
  "\<not> name_ok name \<Longrightarrow> \<exists>m. set_name de name = Inl (Panic m)"
  by (auto simp: set_name_def name_ok_def rassert_def)

text \<open>The limits of the disk bound every earlier table too.\<close>

definition grows :: "table \<Rightarrow> table \<Rightarrow> bool" where
  "grows t t' \<longleftrightarrow> length t \<le> length t' \<and> (\<forall>i < length t. length (snd (t ! i)) \<le> length (snd (t' ! i)))"

lemma grows_trans: "grows t u \<Longrightarrow> grows u v \<Longrightarrow> grows t v"
  unfolding grows_def by (meson le_trans less_le_trans)

lemma blocks_used_grows:
  assumes "grows t t'"
  shows "blocks_used t \<le> blocks_used t'"
proof -
  have "blocks_used t = (\<Sum>i = 0..<length t. blocks_for (length (snd (t ! i))))"
    by (simp add: blocks_used_def sum_list_sum_nth)
  also have "\<dots> \<le> (\<Sum>i = 0..<length t. blocks_for (length (snd (t' ! i))))"
    using assms by (intro sum_mono blocks_for_mono) (simp add: grows_def)
  also have "\<dots> \<le> (\<Sum>i = 0..<length t'. blocks_for (length (snd (t' ! i))))"
    using assms by (intro sum_mono2) (auto simp: grows_def)
  also have "\<dots> = blocks_used t'" by (simp add: blocks_used_def sum_list_sum_nth)
  finally show ?thesis .
qed

lemma fits_grows:
  assumes "fits t'" "grows t t'"
  shows "fits t"
  unfolding fits_def
proof (intro conjI ballI)
  show "N_META + blocks_used t \<le> FS_SIZE" using fitsD(1) [OF assms(1)] blocks_used_grows [OF assms(2)] by linarith
  show "length t \<le> N_SLOTS" using fitsD(2) [OF assms(1)] assms(2) by (simp add: grows_def)
  fix f assume "f \<in> set t"
  then obtain i where "i < length t" "f = t ! i" by (auto simp: in_set_conv_nth)
  then show "length (snd f) \<le> MAX_FILE * BLK_SIZE"
    using fitsD(3) [OF assms(1), of i] assms(2) by (fastforce simp: grows_def)
qed

lemma appends_appends: "i < length t \<Longrightarrow> appends i w (appends i v t) = appends i (v @ w) t"
  by (simp add: appends_def)

lemma grows_appends: "grows t (appends i v t)"
  by (cases "i < length t") (auto simp: grows_def appends_def nth_list_update)

lemma grows_snoc: "grows t (t @ [f])"
  by (simp add: grows_def nth_append)

lemma copy_file_ok:
  assumes "fs_ok b" "unat ino < unat (free_inode b)" "fits (appends (unat ino) (concat bufs) (tab b))"
  shows "\<exists>b'. copy_file b ino bufs = Inr b' \<and> fs_ok b' \<and> free_inode b' = free_inode b
    \<and> tab b' = appends (unat ino) (concat bufs) (tab b)"
  using assms
proof (induction bufs arbitrary: b)
  case Nil
  then show ?case by (simp add: appends_def)
next
  case (Cons buf bufs)
  have e: "appends (unat ino) (concat bufs) (appends (unat ino) buf (tab b)) = appends (unat ino) (concat (buf # bufs)) (tab b)"
    using Cons(3) by (simp add: appends_appends)
  have "fits (appends (unat ino) buf (tab b))"
    by (rule fits_grows [OF Cons(4)]) (metis e grows_appends)
  then obtain b1 where b1: "append_inode b ino buf = Inr b1" "fs_ok b1" "free_inode b1 = free_inode b"
    "tab b1 = appends (unat ino) buf (tab b)"
    using append_inode_ok [OF Cons(2,3)] by blast
  have "fits (appends (unat ino) (concat bufs) (tab b1))" using Cons(4) by (simp only: b1(4) e)
  then show ?case using Cons(1) [OF b1(2)] Cons(3) b1 e by simp
qed

section \<open>The program builds the table of its arguments\<close>

definition new_file :: "table \<Rightarrow> u8 list \<times> u8 list list \<Rightarrow> table" where
  "new_file t f = appends (length t) (concat (snd f))
     (appends 1 (dir_entry (of_nat (length t)) (strip_underscore (fst f))) (t @ [(2, [])]))"

lemma grows_new_file: "grows t (new_file t f)"
  unfolding new_file_def by (rule grows_trans [OF grows_snoc grows_trans [OF grows_appends grows_appends]])

lemma grows_new_files: "grows t (foldl new_file t fs)"
proof (induction fs arbitrary: t)
  case (Cons f fs)
  show ?case using grows_trans [OF grows_new_file Cons] by simp
qed (simp add: grows_def)

lemma add_file_ok:
  assumes ok: "fs_ok b" "1 < unat (free_inode b)" and nm: "name_ok (strip_underscore (fst f))"
    and fit: "fits (new_file (tab b) f)"
  shows "\<exists>b'. add_file b 1 f = Inr b' \<and> fs_ok b' \<and> 1 < unat (free_inode b') \<and> tab b' = new_file (tab b) f"
proof -
  let ?t = "tab b @ [(2, [])]" and ?e = "dir_entry (free_inode b) (strip_underscore (fst f))"
  have n: "of_nat (length (tab b)) = free_inode b" by simp
  have t: "new_file (tab b) f = appends (unat (free_inode b)) (concat (snd f)) (appends 1 ?e ?t)"
    by (simp add: new_file_def)
  have room: "unat (free_inode b) < N_SLOTS" using fitsD(2) [OF fit] by (simp add: new_file_def)
  obtain b1 where b1: "alloc_inode b Regular = Inr (free_inode b, b1)" "fs_ok b1"
    "unat (free_inode b1) = unat (free_inode b) + 1" "tab b1 = ?t"
    using alloc_inode_ok [OF ok(1) room, of Regular] by auto
  have "fits (appends 1 ?e ?t)" using fits_grows [OF fit] grows_appends unfolding t by blast
  then obtain b2 where b2: "append_inode b1 1 ?e = Inr b2" "fs_ok b2" "free_inode b2 = free_inode b1" "tab b2 = appends 1 ?e ?t"
    using append_inode_ok [OF b1(2), of 1 ?e] b1(3,4) ok(2) by auto
  obtain b3 where b3: "copy_file b2 (free_inode b) (snd f) = Inr b3" "fs_ok b3" "free_inode b3 = free_inode b2"
    "tab b3 = new_file (tab b) f"
    using copy_file_ok [OF b2(2), of "free_inode b" "snd f"] b2(3,4) b1(3) fit t by auto
  have "add_file b 1 f = Inr b3" using b1(1) b2(1) b3(1) by (simp add: add_file_def add_dirent_eq [OF nm])
  then show ?thesis using b3 b2(3) b1(3) ok(2) by auto
qed

lemma add_files_ok:
  assumes "fs_ok b" "1 < unat (free_inode b)" "\<forall>f \<in> set fs. name_ok (strip_underscore (fst f))" "fits (foldl new_file (tab b) fs)"
  shows "\<exists>b'. add_files b 1 fs = Inr b' \<and> fs_ok b' \<and> 1 < unat (free_inode b') \<and> tab b' = foldl new_file (tab b) fs"
  using assms
proof (induction fs arbitrary: b)
  case (Cons f fs)
  have "fits (new_file (tab b) f)" using fits_grows [OF Cons(5)] grows_new_files by simp
  then obtain b1 where b1: "add_file b 1 f = Inr b1" "fs_ok b1" "1 < unat (free_inode b1)" "tab b1 = new_file (tab b) f"
    using add_file_ok [OF Cons(2,3), of f] Cons(4) by auto
  then show ?case using Cons(1) [OF b1(2,3)] Cons(4,5) by simp
qed simp

text \<open>The entries of the files whose numbers start at \<open>n\<close>, and the table of the whole image.\<close>

definition entries :: "nat \<Rightarrow> (u8 list \<times> u8 list list) list \<Rightarrow> u8 list" where
  "entries n fs = concat (map (\<lambda>(k, f). dir_entry (of_nat k) (strip_underscore (fst f))) (enumerate n fs))"

definition main_table :: "(u8 list \<times> u8 list list) list \<Rightarrow> table" where
  "main_table fs = [(0, []), (1, dir_entry 1 [0x2E] @ dir_entry 1 [0x2E, 0x2E] @ entries 2 fs)]
     @ map (\<lambda>f. (2, concat (snd f))) fs"

lemma new_files_table:
  "foldl new_file ([z, (ty, ds)] @ us) fs = [z, (ty, ds @ entries (2 + length us) fs)] @ us @ map (\<lambda>f. (2, concat (snd f))) fs"
proof (induction fs arbitrary: ds us)
  case (Cons f fs)
  let ?e = "dir_entry (of_nat (2 + length us)) (strip_underscore (fst f))"
  have "new_file ([z, (ty, ds)] @ us) f = [z, (ty, ds @ ?e)] @ (us @ [(2, concat (snd f))])"
    by (simp add: new_file_def appends_def nth_append)
  then show ?case using Cons [of "ds @ ?e" "us @ [(2, concat (snd f))]"] by (simp add: entries_def)
qed (simp add: entries_def)

lemma main_files_ok:
  assumes nm: "\<forall>f \<in> set files. name_ok (strip_underscore (fst f))" and fit: "fits (main_table files)"
  shows "\<exists>b1 b2 b3 b4. alloc_inode (create old main_super_block) Directory = Inr (1, b1) \<and>
    add_dirent b1 1 1 [0x2E] = Inr b2 \<and> add_dirent b2 1 1 [0x2E, 0x2E] = Inr b3 \<and> add_files b3 1 files = Inr b4 \<and>
    fs_ok b4 \<and> tab b4 = main_table files"
proof -
  let ?b = "create old main_super_block" and ?e = "dir_entry 1 [0x2E]" and ?e2 = "dir_entry 1 [0x2E, 0x2E]"
  have nms: "name_ok [0x2E]" "name_ok [0x2E, 0x2E]" by (simp_all add: name_ok_def fs_consts)
  obtain b1 where b1: "alloc_inode ?b Directory = Inr (1, b1)" "fs_ok b1" "unat (free_inode b1) = 2" "tab b1 = [(0, []), (1, [])]"
    using alloc_inode_ok [OF create_ok(1), of old Directory] by (auto simp: create_ok(2) create_sel N_SLOTS_def fs_consts)
  have main: "main_table files = foldl new_file [(0, []), (1, ?e @ ?e2)] files"
    using new_files_table [of "(0, [])" 1 "?e @ ?e2" "[]" files] by (simp add: main_table_def)
  have f3: "fits [(0, []), (1, ?e @ ?e2)]" using fits_grows [OF fit] grows_new_files unfolding main by blast
  have f2: "fits [(0, []), (1, ?e)]" by (rule fits_grows [OF f3]) (auto simp: grows_def nth_Cons')
  obtain b2 where b2: "append_inode b1 1 ?e = Inr b2" "fs_ok b2" "free_inode b2 = free_inode b1" "tab b2 = [(0, []), (1, ?e)]"
    using append_inode_ok [OF b1(2), of 1 ?e] f2 by (auto simp: b1(3,4) appends_def)
  obtain b3 where b3: "append_inode b2 1 ?e2 = Inr b3" "fs_ok b3" "free_inode b3 = free_inode b1" "tab b3 = [(0, []), (1, ?e @ ?e2)]"
    using append_inode_ok [OF b2(2), of 1 ?e2] f3 by (auto simp: b1(3) b2(3,4) appends_def)
  have free: "1 < unat (free_inode b3)" using b3(3) b1(3) by simp
  have "fits (foldl new_file (tab b3) files)" using fit main b3(4) by simp
  from add_files_ok [OF b3(2) free nm this]
  obtain b4 where b4: "add_files b3 1 files = Inr b4" "fs_ok b4" "tab b4 = main_table files"
    by (auto simp: main b3(4))
  then show ?thesis using b1(1) b2(1) b3(1) add_dirent_eq [OF nms(1)] add_dirent_eq [OF nms(2)] by auto
qed

lemma fix_root_size_ok:
  assumes ok: "fs_ok b" and root: "1 < unat (free_inode b)"
  shows "\<exists>b'. fix_root_size b 1 = Inr b' \<and> wrote_inode 1
    ((inode_at b 1)\<lparr>isize := of_nat ((fsize b 1 div BLK_SIZE + 1) * BLK_SIZE)\<rparr>) b b'"
proof -
  note D = fs_okD [OF ok]
  have s: "unat (1 :: u16) < N_SLOTS" by (simp add: N_SLOTS_def fs_consts)
  show ?thesis
    using read_inode_eq [OF D(6,7) s] fs_baseD(5) [OF D(2) s]
      write_inode_wrote [OF D(6,7) s, of "(inode_at b 1)\<lparr>isize := of_nat ((fsize b 1 div BLK_SIZE + 1) * BLK_SIZE)\<rparr>"]
    by (auto simp: fix_root_size_def wf_inode_def fsize_def Let_def)
qed

lemma alloc_block_ok:
  assumes "image_ok b" "main_sb b" "free_block b \<le> FS_SIZE"
  shows "\<exists>b'. alloc_block b = Inr b' \<and> free_block b' = free_block b \<and> free_inode b' = free_inode b \<and>
    (\<forall>n < FS_SIZE. sec b' n = (if n = N_META - 1 then bitmap (free_block b) else sec b n))"
proof -
  have n: "unat (bmap_start (super_block b)) = N_META - 1" "N_META - 1 < FS_SIZE"
    using assms(2) by (simp_all add: main_sb_def main_super_block_def fs_consts)
  show ?thesis
    using disk.blk_wr [OF assms(1) n(2), of "bitmap (free_block b)"] assms(3)
    by (simp add: alloc_block_def rassert_def n(1) Let_def fs_consts)
qed

lemma finish_ok:
  assumes ok: "fs_ok b" and root: "1 < unat (free_inode b)"
  shows "\<exists>b1 b2. fix_root_size b 1 = Inr b1 \<and> alloc_block b1 = Inr b2 \<and> free_block b2 = free_block b \<and>
    (\<forall>n < FS_SIZE. N_META \<le> n \<longrightarrow> sec b2 n = sec b n) \<and> sec b2 (N_META - 1) = bitmap (free_block b) \<and> sec b2 1 = sec b 1 \<and>
    (\<forall>i < N_SLOTS. inode_at b2 i = (if i = 1 then (inode_at b 1)\<lparr>isize := of_nat ((fsize b 1 div BLK_SIZE + 1) * BLK_SIZE)\<rparr> else inode_at b i))"
proof -
  note D = fs_okD [OF ok] note base = fs_baseD [OF D(2)]
  obtain b1 where b1: "fix_root_size b 1 = Inr b1"
    "wrote_inode 1 ((inode_at b 1)\<lparr>isize := of_nat ((fsize b 1 div BLK_SIZE + 1) * BLK_SIZE)\<rparr>) b b1"
    using fix_root_size_ok [OF assms] by blast
  note W = wrote_inodeD [OF b1(2)]
  obtain b2 where b2: "alloc_block b1 = Inr b2" "free_block b2 = free_block b"
    "\<forall>n < FS_SIZE. sec b2 n = (if n = N_META - 1 then bitmap (free_block b) else sec b1 n)"
    using alloc_block_ok [OF W(1)] base(2,4) W(2,4) by (auto simp: main_sb_def)
  have i: "inode_at b2 i = inode_at b1 i" if "i < N_SLOTS" for i
  proof -
    have "2 + N_LOG + i div INODES_PER_BLOCK < N_META - 1"
      using that by (simp add: N_SLOTS_def fs_consts less_mult_imp_div_less)
    then show ?thesis using b2(3) by (simp add: inode_at_def fs_consts)
  qed
  show ?thesis using b1(1) b2 W i by (intro exI [of _ b1] exI [of _ b2]) (auto simp: fs_consts)
qed

text \<open>What the image holds: every file, the directory, the bitmap and the super block.\<close>

definition holds_table :: "FsBuilder \<Rightarrow> table \<Rightarrow> bool" where
  "holds_table b t \<longleftrightarrow> (\<forall>i < length t. itype (inode_at b i) = fst (t ! i) \<and>
     file_bytes b (inode_at b i) (length (snd (t ! i))) = snd (t ! i) \<and>
     fsize b i = (let n = length (snd (t ! i)) in if i = 1 then (n div BLK_SIZE + 1) * BLK_SIZE else n))"

lemma finish_holds:
  assumes ok: "fs_ok b" and root: "1 < unat (free_inode b)"
    and s: "\<And>n. n < FS_SIZE \<Longrightarrow> N_META \<le> n \<Longrightarrow> sec b2 n = sec b n"
    and at: "\<And>i. i < N_SLOTS \<Longrightarrow> inode_at b2 i =
      (if i = 1 then (inode_at b 1)\<lparr>isize := of_nat ((fsize b 1 div BLK_SIZE + 1) * BLK_SIZE)\<rparr> else inode_at b i)"
  shows "holds_table b2 (tab b)"
  unfolding holds_table_def Let_def
proof (intro allI impI)
  fix i assume "i < length (tab b)"
  then have i: "i < unat (free_inode b)" "i < N_SLOTS" using fs_okD(3) [OF ok] by auto
  note D = fs_okD [OF ok]
  have t: "tab b ! i = (itype (inode_at b i), file_bytes b (inode_at b i) (fsize b i))" by (rule nth_tab [OF i(1)])
  have "file_bytes b2 (inode_at b2 i) (fsize b i) = file_bytes b (inode_at b i) (fsize b i)"
    by (rule file_bytes_meta [OF D(1) s i(2)]) (use at [OF i(2)] in auto)
  moreover have "fsize b2 i = (if i = 1 then (fsize b i div BLK_SIZE + 1) * BLK_SIZE else fsize b i)"
  proof -
    define m where "m = (fsize b 1 div BLK_SIZE + 1) * BLK_SIZE"
    have "fsize b 1 \<le> MAX_FILE * BLK_SIZE" using fs_invD(2) [OF D(1), of 1] by (simp add: N_SLOTS_def fs_consts)
    then have "m \<le> 2 * (MAX_FILE * BLK_SIZE)" by (simp add: m_def fs_consts)
    then have "unat (of_nat m :: u32) = m" by (simp add: unat_of_nat fs_consts)
    then have "fsize b2 i = (if i = 1 then m else fsize b i)"
      using at [OF i(2), folded m_def] by (simp add: fsize_def [of b2] fsize_def [of b i])
    then show ?thesis by (simp add: m_def)
  qed
  moreover have "itype (inode_at b2 i) = itype (inode_at b i)" using at [OF i(2)] by simp
  ultimately show "itype (inode_at b2 i) = fst (tab b ! i) \<and>
     file_bytes b2 (inode_at b2 i) (length (snd (tab b ! i))) = snd (tab b ! i) \<and>
     fsize b2 i = (if i = 1 then (length (snd (tab b ! i)) div BLK_SIZE + 1) * BLK_SIZE else length (snd (tab b ! i)))"
    unfolding t by simp
qed

lemma main_image:
  assumes nm: "\<forall>f \<in> set files. name_ok (strip_underscore (fst f))" and fit: "fits (main_table files)"
  shows "\<exists>b. mkfs_main old files = Inr b \<and> holds_table b (main_table files) \<and>
    free_block b = N_META + blocks_used (main_table files) \<and> sec b (N_META - 1) = bitmap (free_block b) \<and>
    sec b 1 = overwrite 0 (super_block_bytes main_super_block) (replicate BLK_SIZE 0)"
proof -
  obtain b1 b2 b3 b4 where f: "alloc_inode (create old main_super_block) Directory = Inr (1, b1)"
    "add_dirent b1 1 1 [0x2E] = Inr b2" "add_dirent b2 1 1 [0x2E, 0x2E] = Inr b3" "add_files b3 1 files = Inr b4"
    "fs_ok b4" "tab b4 = main_table files"
    using main_files_ok [OF nm fit] by blast
  note D = fs_okD [OF f(5)]
  have root: "1 < unat (free_inode b4)" using length_tab [of b4] by (simp add: f(6) main_table_def)
  obtain b5 b6 where g: "fix_root_size b4 1 = Inr b5" "alloc_block b5 = Inr b6" "free_block b6 = free_block b4"
    "\<forall>n < FS_SIZE. N_META \<le> n \<longrightarrow> sec b6 n = sec b4 n" "sec b6 (N_META - 1) = bitmap (free_block b4)" "sec b6 1 = sec b4 1"
    "\<forall>i < N_SLOTS. inode_at b6 i = (if i = 1 then (inode_at b4 1)\<lparr>isize := of_nat ((fsize b4 1 div BLK_SIZE + 1) * BLK_SIZE)\<rparr> else inode_at b4 i)"
    using finish_ok [OF f(5) root] by blast
  have "mkfs_main old files = Inr b6"
    using f(1-4) g(1,2) by (simp add: mkfs_main_def Let_def rassert_def ROOT_INO_def) (simp add: fs_consts)
  moreover have "holds_table b6 (main_table files)"
    using finish_holds [OF f(5) root, of b6] g(4,7) by (simp add: f(6))
  ultimately show ?thesis using g(3,5,6) D(5,8) f(6) by auto
qed

section \<open>Properties\<close>

text \<open>C2. When the files fit on the disk and their names have at most 14 bytes and no slash, \<^verbatim>\<open>mkfs\<close>
  succeeds, whatever the output file held before. Inode \<open>k + 2\<close> of the image is a regular file with
  exactly the bytes of argument \<open>k\<close>; inode 1 is a directory whose data are the entries of \<open>.\<close>, \<open>..\<close> and of
  every argument in order, and whose size is rounded up to the next block; the bitmap marks exactly
  the blocks below the first free one; block 1 is the super block.\<close>

theorem mkfs_image_complete:
  assumes "\<forall>f \<in> set files. name_ok (strip_underscore (fst f))" "fits (main_table files)"
  shows "\<exists>b. mkfs_main old files = Inr b \<and> holds_table b (main_table files) \<and>
    free_block b = N_META + blocks_used (main_table files) \<and>
    (\<forall>i < BLK_SIZE. \<forall>k < 8. bit (sec b (N_META - 1) ! i) k \<longleftrightarrow> 8 * i + k < free_block b) \<and>
    sec b 1 = overwrite 0 (super_block_bytes main_super_block) (replicate BLK_SIZE 0)"
proof -
  obtain b where b: "mkfs_main old files = Inr b" "holds_table b (main_table files)"
    "free_block b = N_META + blocks_used (main_table files)" "sec b (N_META - 1) = bitmap (free_block b)"
    "sec b 1 = overwrite 0 (super_block_bytes main_super_block) (replicate BLK_SIZE 0)"
    using main_image [OF assms] by blast
  have "free_block b \<le> BLK_SIZE * 8" using fitsD(1) [OF assms(2)] b(3) by (simp add: fs_consts)
  then show ?thesis using b bitmap_bit by auto
qed

lemma holds_tableD:
  assumes "holds_table b t" "i < length t"
  shows "i \<noteq> 1 \<Longrightarrow> file_bytes b (inode_at b i) (fsize b i) = snd (t ! i)"
    "fsize b i = (if i = 1 then (length (snd (t ! i)) div BLK_SIZE + 1) * BLK_SIZE else length (snd (t ! i)))"
  using assms by (simp_all add: holds_table_def Let_def)

lemma small_table_fits:
  "fits (main_table [([0x5F, 0x63, 0x61, 0x74], [[1, 2], [3]]), ([0x52], [])])"
  by (simp add: fits_def main_table_def entries_def blocks_used_def blocks_for_def dir_entry_def strip_underscore_def
      N_SLOTS_def fs_consts)

theorem mkfs_image_complete_witness:
  "\<exists>b. mkfs_main [7] [([0x5F, 0x63, 0x61, 0x74], [[1, 2], [3]]), ([0x52], [])] = Inr b \<and>
     file_bytes b (inode_at b 2) (fsize b 2) = [1, 2, 3] \<and> fsize b 1 = 512"
proof -
  let ?fs = "[([0x5F, 0x63, 0x61, 0x74], [[1, 2], [3]]), ([0x52], [])] :: (u8 list \<times> u8 list list) list"
  obtain b where b: "mkfs_main [7] ?fs = Inr b" "holds_table b (main_table ?fs)"
    using mkfs_image_complete [of ?fs "[7]", OF _ small_table_fits]
    by (auto simp: name_ok_def strip_underscore_def fs_consts)
  have n: "length (main_table ?fs) = 4" "snd (main_table ?fs ! 2) = [1, 2, 3]" "length (snd (main_table ?fs ! 1)) = 64"
    by (simp_all add: main_table_def entries_def dir_entry_def strip_underscore_def)
  show ?thesis
    using b(1) holds_tableD [OF b(2), of 1] holds_tableD [OF b(2), of 2] n by (intro exI [of _ b]) (simp add: fs_consts)
qed

text \<open>C22. Appending to a file of an image that satisfies the invariant succeeds when the result fits on
  the disk. It preserves the invariant, by which no two blocks of files share a sector and exactly the
  sectors of the files are taken, and its only effect on the files is that the data stand at the end
  of the one appended to, across direct and indirect blocks.\<close>

theorem append_inode_refines:
  assumes "fs_ok b" "unat ino < unat (free_inode b)" "fits (appends (unat ino) data (tab b))"
  shows "\<exists>b'. append_inode b ino data = Inr b' \<and> fs_ok b' \<and> free_inode b' = free_inode b
    \<and> tab b' = appends (unat ino) data (tab b)"
  by (rule append_inode_ok [OF assms])

theorem append_inode_refines_witness:
  "\<exists>b'. append_inode (create [] main_super_block) 0 [1, 2, 3] = Inr b' \<and> tab b' = [(0, [1, 2, 3])]"
  using append_inode_refines [OF create_ok(1), of 0 "[]" "[1, 2, 3]"]
  by (auto simp: create_ok(2) create_sel(3) appends_def fits_def blocks_used_def blocks_for_def N_SLOTS_def fs_consts)

text \<open>A name is accepted exactly when it has no slash and at most 14 bytes; the entry then holds its
  first 13 bytes padded with zeros, so the last byte of a name of 14 bytes is lost. Any other name makes
  the program panic.\<close>

lemma set_name_outcome:
  "set_name (dirent_default\<lparr>inum := ino\<rparr>) name = Inr de \<longleftrightarrow>
     name_ok name \<and> de = \<lparr>inum = ino, de_name = take 13 name @ replicate (14 - min 13 (length name)) 0\<rparr>"
  using set_name_eq [of name ino] set_name_rejects [of name "dirent_default\<lparr>inum := ino\<rparr>"]
  by (cases "name_ok name") auto

text \<open>Reading an inode after writing one gives the one written at its own number and the old one
  at every other.\<close>

lemma write_read_inode:
  assumes "image_ok b" "main_sb b" "unat i < N_SLOTS" "unat j < N_SLOTS" "wf_inode d"
  shows "\<exists>b'. write_inode b i d = Inr b' \<and> read_inode b' j = (if j = i then Inr d else read_inode b j)"
proof -
  obtain b' where b': "write_inode b i d = Inr b'" "wrote_inode (unat i) d b b'"
    using write_inode_wrote [OF assms(1,2,3,5)] by blast
  note W = wrote_inodeD [OF b'(2)]
  show ?thesis
    using b'(1) read_inode_eq [OF W(1) _ assms(4)] read_inode_eq [OF assms(1,2,4)] W(2) W(5) [OF assms(4)] assms(2)
    by (auto simp: main_sb_def simp flip: word_unat_eq_iff)
qed

end
