(* ===== verification/Bootloader.thy ===== *)
theory Bootloader
  imports Byte_Memory Ports
begin

text \<open>
  The boot loader (\<^verbatim>\<open>bootloader/src/main.rs\<close>, \<^verbatim>\<open>bootloader/src/elf.rs\<close>): it reads the kernel, an ELF file that starts at the
  second sector of the disk, loads its segments and calls its entry point. The disk is a function from the number of a
  sector and an offset to a byte; which sector a transfer delivers is read off the registers written before. It
  is compiled without overflow checks; pointer arithmetic that leaves the address space is undefined.
\<close>

section \<open>Sectors\<close>

definition SECTOR_SIZE :: usize where
  "SECTOR_SIZE = 512"

type_synonym disk = "nat \<Rightarrow> nat \<Rightarrow> u8"

record boot =
  bmem :: bytes_mem
  bstatus :: "u8 list"
  btrace :: "io list"

fun wait_disk :: "u8 list \<Rightarrow> u8 list res" where
  "wait_disk [] = Fail Spin"
| "wait_disk (v # vs) = (if v AND 0xC0 \<noteq> 0x40 then wait_disk vs else Ok vs)"

text \<open>The data that arrives in memory with the transfer of 128 double words.\<close>

definition transfer :: "disk \<Rightarrow> io list \<Rightarrow> usize \<Rightarrow> bytes_mem \<Rightarrow> bytes_mem" where
  "transfer disk tr dst m = (\<lambda>a. if a - dst < SECTOR_SIZE then disk (selected_lba tr) (unat (a - dst)) else m a)"

definition read_trace :: "usize \<Rightarrow> io list \<Rightarrow> io list" where
  "read_trace offset tr =
     outb 0x1F7 0x20
     (outb 0x1F6 (ucast ((drop_bit 24 offset OR 0xE0) AND 0xFF))
     (outb 0x1F5 (ucast (drop_bit 16 offset AND 0xFF))
     (outb 0x1F4 (ucast (drop_bit 8 offset AND 0xFF))
     (outb 0x1F3 (ucast (offset AND 0xFF))
     (outb 0x1F2 0x01 tr)))))"

definition read_sector :: "disk \<Rightarrow> usize \<Rightarrow> usize \<Rightarrow> boot \<Rightarrow> boot res" where
  "read_sector disk dst offset b =
     rbind (wait_disk (bstatus b)) (\<lambda>st1.
     let tr = read_trace offset (btrace b) in
     rbind (wait_disk st1) (\<lambda>st2.
     Ok (b\<lparr>bmem := transfer disk tr dst (bmem b), bstatus := st2, btrace := insl 0x1F0 dst (unat (SECTOR_SIZE div 4)) tr\<rparr>)))"

section \<open>Segments\<close>

definition ptr_add :: "usize \<Rightarrow> usize \<Rightarrow> usize res" where
  "ptr_add p n = (if unat p + unat n < 2 ^ 32 then Ok (p + n) else Fail (Undefined ''pointer arithmetic''))"

definition ptr_sub :: "usize \<Rightarrow> usize \<Rightarrow> usize res" where
  "ptr_sub p n = (if n \<le> p then Ok (p - n) else Fail (Undefined ''pointer arithmetic''))"

function read_loop :: "disk \<Rightarrow> usize \<Rightarrow> usize \<Rightarrow> usize \<Rightarrow> boot \<Rightarrow> boot res" where
  "read_loop disk end_pa pa offset b =
     (if pa < end_pa
      then rbind (read_sector disk pa offset b) (\<lambda>b1.
           rbind (ptr_add pa SECTOR_SIZE) (\<lambda>pa1. read_loop disk end_pa pa1 (offset + 1) b1))
      else Ok b)"
  by auto
termination
  by (relation "measure (\<lambda>(_, _, pa, _, _). 2 ^ 32 - unat pa)")
    (auto simp: ptr_add_def SECTOR_SIZE_def unat_word_ariths split: if_splits)

declare read_loop.simps [simp del]

definition read_segment :: "disk \<Rightarrow> usize \<Rightarrow> usize \<Rightarrow> usize \<Rightarrow> boot \<Rightarrow> boot res" where
  "read_segment disk pa count offset b =
     rbind (ptr_add pa count) (\<lambda>end_pa.
     rbind (ptr_sub pa (offset mod SECTOR_SIZE)) (\<lambda>pa1.
     read_loop disk end_pa pa1 (offset div SECTOR_SIZE + 1) b))"

definition stosb :: "usize \<Rightarrow> u8 \<Rightarrow> usize \<Rightarrow> boot \<Rightarrow> boot" where
  "stosb addr data cnt b = b\<lparr>bmem := (\<lambda>a. if a - addr < cnt then data else bmem b a)\<rparr>"

section \<open>ELF headers\<close>

record ElfHeader =
  e_ident :: "u8 list"
  e_type :: u16
  e_machine :: u16
  e_version :: u32
  e_entry :: usize
  e_phoff :: usize
  e_shoff :: usize
  e_flags :: u32
  e_ehsize :: u16
  e_phentsize :: u16
  e_phnum :: u16
  e_shent_size :: u16
  e_shnum :: u16
  e_shstrndx :: u16

definition elf_header :: "bytes_mem \<Rightarrow> usize \<Rightarrow> ElfHeader" where
  "elf_header m a = \<lparr>e_ident = mem_bytes m a 16, e_type = mem_u16 m (a + 16), e_machine = mem_u16 m (a + 18),
     e_version = mem_u32 m (a + 20), e_entry = mem_u32 m (a + 24), e_phoff = mem_u32 m (a + 28),
     e_shoff = mem_u32 m (a + 32), e_flags = mem_u32 m (a + 36), e_ehsize = mem_u16 m (a + 40),
     e_phentsize = mem_u16 m (a + 42), e_phnum = mem_u16 m (a + 44), e_shent_size = mem_u16 m (a + 46),
     e_shnum = mem_u16 m (a + 48), e_shstrndx = mem_u16 m (a + 50)\<rparr>"

record ProgHeader =
  p_type :: u32
  p_offset :: usize
  p_vaddr :: usize
  p_paddr :: usize
  p_filesz :: usize
  p_memsz :: usize
  p_flags :: u32
  p_align :: usize

definition prog_header :: "bytes_mem \<Rightarrow> usize \<Rightarrow> ProgHeader" where
  "prog_header m a = \<lparr>p_type = mem_u32 m a, p_offset = mem_u32 m (a + 4), p_vaddr = mem_u32 m (a + 8),
     p_paddr = mem_u32 m (a + 12), p_filesz = mem_u32 m (a + 16), p_memsz = mem_u32 m (a + 20),
     p_flags = mem_u32 m (a + 24), p_align = mem_u32 m (a + 28)\<rparr>"

definition ELF_MAGIC :: "u8 list" where
  "ELF_MAGIC = [0x7F, 0x45, 0x4C, 0x46]"

definition elf_verify :: "ElfHeader \<Rightarrow> bool" where
  "elf_verify h \<longleftrightarrow> take 4 (e_ident h) = ELF_MAGIC"

text \<open>The slice of program headers, as their addresses.\<close>

definition prog_headers :: "usize \<Rightarrow> ElfHeader \<Rightarrow> usize list" where
  "prog_headers elf h = map (\<lambda>i. elf + e_phoff h + 32 * of_nat i) [0..<unat (e_phnum h)]"

section \<open>Loading the kernel\<close>

definition load_segment :: "disk \<Rightarrow> ProgHeader \<Rightarrow> boot \<Rightarrow> boot res" where
  "load_segment disk ph b =
     rbind (read_segment disk (p_paddr ph) (p_filesz ph) (p_offset ph) b) (\<lambda>b1.
     if p_memsz ph > p_filesz ph
     then rbind (ptr_add (p_paddr ph) (p_filesz ph)) (\<lambda>z. Ok (stosb z 0 (p_memsz ph - p_filesz ph) b1))
     else Ok b1)"

fun load_segments :: "disk \<Rightarrow> usize list \<Rightarrow> boot \<Rightarrow> boot res" where
  "load_segments disk [] b = Ok b"
| "load_segments disk (a # as) b = rbind (load_segment disk (prog_header (bmem b) a) b) (load_segments disk as)"

text \<open>
  The result is the address that is called, or nothing when the loader returns. The code and the stack of the loader itself are not part of
  the memory of the model: a kernel whose segments are loaded over them is outside of it.
\<close>

definition boot_main :: "disk \<Rightarrow> boot \<Rightarrow> (usize option \<times> boot) res" where
  "boot_main disk b =
     (let elf = 0x00010000 in
      rbind (read_segment disk elf 4096 0 b) (\<lambda>b1.
      if \<not> elf_verify (elf_header (bmem b1) elf) then Ok (None, b1)
      else rbind (load_segments disk (prog_headers elf (elf_header (bmem b1) elf)) b1) (\<lambda>b2.
        Ok (Some (e_entry (elf_header (bmem b2) elf)), b2))))"

section \<open>Reading sectors\<close>

definition disk_ready :: "u8 \<Rightarrow> bool" where
  "disk_ready v \<longleftrightarrow> v AND 0xC0 = 0x40"

text \<open>The disk reports itself ready at least \<open>n\<close> more times.\<close>

definition ready_for :: "nat \<Rightarrow> u8 list \<Rightarrow> bool" where
  "ready_for n vs \<longleftrightarrow> n \<le> length (filter disk_ready vs)"

lemma wait_disk_ok: "ready_for (Suc n) vs \<Longrightarrow> \<exists>rest. wait_disk vs = Inr rest \<and> ready_for n rest"
  by (induction vs) (auto simp: ready_for_def disk_ready_def)

lemma drive_nibble: "ucast ((drop_bit 24 (w :: u32) OR 0xE0) AND 0xFF) AND 0x0F = (ucast (drop_bit 24 w AND 0x0F) :: u8)"
proof -
  have m: "bit (0x0F :: int) n \<longleftrightarrow> n < 4" "bit (0xFF :: int) n \<longleftrightarrow> n < 8" for n
    using bit_mask_iff [of 4 n, where ?'a = int] bit_mask_iff [of 8 n, where ?'a = int] by (simp_all add: mask_eq_exp_minus_1)
  have e: "bit (0xE0 :: int) n \<longleftrightarrow> 5 \<le> n \<and> n < 8" for n
    using bit_push_bit_iff [of 5 "7 :: int" n] bit_mask_iff [of 3 "n - 5", where ?'a = int]
    by (auto simp: mask_eq_exp_minus_1)
  show ?thesis by (rule bit_word_eqI) (auto simp: bit_simps m e)
qed

lemma read_trace_lba: "selected_lba (read_trace w tr) = unat w mod 2 ^ 28"
proof -
  have r: "port_value 0x1F3 (read_trace w tr) = ucast (drop_bit 0 w AND 0xFF)"
    "port_value 0x1F4 (read_trace w tr) = ucast (drop_bit 8 w AND 0xFF)"
    "port_value 0x1F5 (read_trace w tr) = ucast (drop_bit 16 w AND 0xFF)"
    "port_value 0x1F6 (read_trace w tr) = ucast ((drop_bit 24 w OR 0xE0) AND 0xFF)"
    by (simp_all add: port_value_def read_trace_def outb_def)
  show ?thesis unfolding selected_lba_def r byte_of drive_nibble nibble_of using lba_digits [of "unat w"] by simp
qed

definition in_range :: "nat \<Rightarrow> nat \<Rightarrow> usize \<Rightarrow> bool" where
  "in_range base n a \<longleftrightarrow> base \<le> unat a \<and> unat a < base + n"

lemma below_offset: "unat d + n \<le> 2 ^ 32 \<Longrightarrow> unat (a - d) < n \<longleftrightarrow> in_range (unat d) n (a :: usize)"
  using unsigned_less [of a, where ?'a = nat] unsigned_less [of d, where ?'a = nat]
  by (auto simp: in_range_def unat_sub_if' )

lemma in_range_offset: "in_range (unat d) n a \<Longrightarrow> unat (a - d) = unat a - unat d"
  by (auto simp: in_range_def unat_sub_if')

lemma read_sector_ok:
  assumes "ready_for (Suc (Suc n)) (bstatus b)" "unat dst + 512 \<le> 2 ^ 32" "unat offset < 2 ^ 28"
  shows "\<exists>b'. read_sector disk dst offset b = Inr b' \<and> ready_for n (bstatus b')
    \<and> (\<forall>a. bmem b' a = (if in_range (unat dst) 512 a then disk (unat offset) (unat a - unat dst) else bmem b a))"
proof -
  obtain s1 where s1: "wait_disk (bstatus b) = Inr s1" "ready_for (Suc n) s1" using wait_disk_ok [OF assms(1)] by blast
  obtain s2 where s2: "wait_disk s1 = Inr s2" "ready_for n s2" using wait_disk_ok [OF s1(2)] by blast
  have "selected_lba (read_trace offset (btrace b)) = unat offset" using assms(3) by (simp add: read_trace_lba)
  moreover have "a - dst < SECTOR_SIZE \<longleftrightarrow> in_range (unat dst) 512 a" for a
    using below_offset [OF assms(2), of a] by (simp add: word_less_nat_alt SECTOR_SIZE_def)
  ultimately show ?thesis using s1(1) s2 by (auto simp: read_sector_def Let_def transfer_def in_range_offset)
qed

lemma read_loop_ok:
  assumes "unat end_pa \<le> unat pa + 512 * n" "n = 0 \<or> unat pa + 512 * (n - 1) < unat end_pa" "unat pa + 512 * n < 2 ^ 32"
    and "ready_for (2 * n + k) (bstatus b)" "unat offset + n \<le> 2 ^ 28"
  shows "\<exists>b'. read_loop disk end_pa pa offset b = Inr b' \<and> ready_for k (bstatus b')
    \<and> (\<forall>a. bmem b' a = (if in_range (unat pa) (512 * n) a then disk (unat offset + (unat a - unat pa) div 512) ((unat a - unat pa) mod 512) else bmem b a))"
  using assms
proof (induction n arbitrary: pa offset b)
  case 0
  then show ?case by (auto simp: read_loop.simps [of _ _ pa] word_less_nat_alt in_range_def)
next
  case (Suc n)
  obtain b1 where b1: "read_sector disk pa offset b = Inr b1" "ready_for (2 * n + k) (bstatus b1)"
      "\<And>a. bmem b1 a = (if in_range (unat pa) 512 a then disk (unat offset) (unat a - unat pa) else bmem b a)"
    using read_sector_ok [of "2 * n + k" b pa offset disk] Suc.prems(3,4,5) by auto
  have u: "unat (pa + SECTOR_SIZE) = unat pa + 512" "unat (offset + 1) = unat offset + 1"
    using Suc.prems(3,5) by (simp_all add: SECTOR_SIZE_def unat_word_ariths)
  have "\<exists>b'. read_loop disk end_pa (pa + SECTOR_SIZE) (offset + 1) b1 = Inr b' \<and> ready_for k (bstatus b')
    \<and> (\<forall>a. bmem b' a = (if in_range (unat pa + 512) (512 * n) a
          then disk (unat offset + 1 + (unat a - (unat pa + 512)) div 512) ((unat a - (unat pa + 512)) mod 512) else bmem b1 a))"
    using Suc.IH [of "pa + SECTOR_SIZE" b1 "offset + 1"] Suc.prems b1(2) unfolding u by (cases n) simp_all
  then obtain b' where b': "read_loop disk end_pa (pa + SECTOR_SIZE) (offset + 1) b1 = Inr b'" "ready_for k (bstatus b')"
      "\<And>a. bmem b' a = (if in_range (unat pa + 512) (512 * n) a
          then disk (unat offset + 1 + (unat a - (unat pa + 512)) div 512) ((unat a - (unat pa + 512)) mod 512) else bmem b1 a)"
    by blast
  have "pa < end_pa" "ptr_add pa SECTOR_SIZE = Inr (pa + SECTOR_SIZE)"
    using Suc.prems(2,3) by (auto simp: word_less_nat_alt ptr_add_def SECTOR_SIZE_def)
  then have "read_loop disk end_pa pa offset b = Inr b'" using b1(1) b'(1) by (subst read_loop.simps) simp
  moreover have "bmem b' a = (if in_range (unat pa) (512 * Suc n) a then disk (unat offset + (unat a - unat pa) div 512) ((unat a - unat pa) mod 512) else bmem b a)" for a
  proof -
    consider "unat a < unat pa + 512" | x where "unat a = unat pa + (x + 512)" by (metis add.assoc add.commute le_Suc_ex not_le)
    then show ?thesis unfolding b'(3) b1(3) by cases (auto simp: in_range_def div_add_self2)
  qed
  ultimately show ?case using b'(2) by blast
qed

section \<open>Loading segments\<close>

text \<open>The kernel file starts at the sector after the boot sector.\<close>

definition kernel_file :: "disk \<Rightarrow> nat \<Rightarrow> u8" where
  "kernel_file disk k = disk (k div 512 + 1) (k mod 512)"

definition sectors :: "usize \<Rightarrow> usize \<Rightarrow> nat" where
  "sectors offset count = (unat offset mod 512 + unat count + 511) div 512"

text \<open>Where the whole sectors of a segment arrive.\<close>

definition arrival :: "usize \<Rightarrow> usize \<Rightarrow> nat" where
  "arrival pa offset = unat pa - unat offset mod 512"

lemma read_segment_ok:
  assumes "unat offset mod 512 \<le> unat pa" "arrival pa offset + 512 * sectors offset count < 2 ^ 32"
    and "ready_for (2 * sectors offset count + k) (bstatus b)"
  shows "\<exists>b'. read_segment disk pa count offset b = Inr b' \<and> ready_for k (bstatus b')
    \<and> (\<forall>a. bmem b' a = (if in_range (arrival pa offset) (512 * sectors offset count) a
          then kernel_file disk (unat offset - unat offset mod 512 + (unat a - arrival pa offset)) else bmem b a))"
proof -
  let ?r = "unat offset mod 512" and ?n = "sectors offset count" and ?o = "offset div SECTOR_SIZE + 1"
  let ?p = "pa - offset mod SECTOR_SIZE"
  have n: "?r + unat count \<le> 512 * ?n" "512 * ?n < ?r + unat count + 512" by (simp_all add: sectors_def)
  have r: "unat (offset mod SECTOR_SIZE) = ?r" by (simp add: SECTOR_SIZE_def unat_mod_distrib)
  then have p: "ptr_sub pa (offset mod SECTOR_SIZE) = Inr ?p" "unat ?p = arrival pa offset"
    using assms(1) by (simp_all add: ptr_sub_def word_le_nat_alt arrival_def unat_sub)
  have c: "unat pa + unat count < 2 ^ 32" using n assms(1,2) by (simp add: arrival_def)
  then have e: "ptr_add pa count = Inr (pa + count)" "unat (pa + count) = unat pa + unat count" by (simp_all add: ptr_add_def unat_word_ariths)
  have "unat offset div 512 < 2 ^ 23" using unsigned_less [of offset, where ?'a = nat] by simp
  then have o: "unat ?o = unat offset div 512 + 1" "unat ?o + ?n \<le> 2 ^ 28"
    using assms(2) by (simp_all add: SECTOR_SIZE_def unat_word_ariths unat_div_distrib)
  have l: "\<exists>b'. read_loop disk (pa + count) ?p ?o b = Inr b' \<and> ready_for k (bstatus b')
    \<and> (\<forall>a. bmem b' a = (if in_range (unat ?p) (512 * ?n) a then disk (unat ?o + (unat a - unat ?p) div 512) ((unat a - unat ?p) mod 512) else bmem b a))"
    by (rule read_loop_ok [OF _ _ _ assms(3) o(2)]) (use n assms(1,2) in \<open>auto simp: e(2) p(2) arrival_def\<close>)
  have d: "disk (unat ?o + x div 512) (x mod 512) = kernel_file disk (unat offset - ?r + x)" for x
  proof -
    have "unat offset - ?r = 512 * (unat offset div 512)" by (simp add: minus_mod_eq_mult_div)
    then show ?thesis by (simp add: kernel_file_def o(1))
  qed
  show ?thesis unfolding read_segment_def e(1) p(1) rbind_simps using l unfolding p(2) d .
qed

text \<open>
  A segment in memory: the bytes of the file and zeros up to its size in memory. Loading writes whole sectors,
  so that it may change memory around the segment.
\<close>

definition seg_size :: "ProgHeader \<Rightarrow> nat" where
  "seg_size ph = max (unat (p_filesz ph)) (unat (p_memsz ph))"

definition seg_image :: "disk \<Rightarrow> ProgHeader \<Rightarrow> nat \<Rightarrow> u8" where
  "seg_image disk ph k = (if k < unat (p_filesz ph) then kernel_file disk (unat (p_offset ph) + k) else 0)"

definition loaded :: "disk \<Rightarrow> ProgHeader \<Rightarrow> bytes_mem \<Rightarrow> bool" where
  "loaded disk ph m \<longleftrightarrow> (\<forall>k < seg_size ph. m (p_paddr ph + of_nat k) = seg_image disk ph k)"

lemma loadedD: "loaded disk ph m \<Longrightarrow> k < seg_size ph \<Longrightarrow> m (p_paddr ph + of_nat k) = seg_image disk ph k"
  by (simp add: loaded_def)

definition seg_sectors :: "ProgHeader \<Rightarrow> nat" where
  "seg_sectors ph = sectors (p_offset ph) (p_filesz ph)"

definition seg_start :: "ProgHeader \<Rightarrow> nat" where
  "seg_start ph = arrival (p_paddr ph) (p_offset ph)"

definition touched :: "ProgHeader \<Rightarrow> usize \<Rightarrow> bool" where
  "touched ph a \<longleftrightarrow> in_range (seg_start ph) (512 * seg_sectors ph) a \<or> in_range (unat (p_paddr ph)) (unat (p_memsz ph)) a"

definition seg_ok :: "ProgHeader \<Rightarrow> bool" where
  "seg_ok ph \<longleftrightarrow> unat (p_offset ph) mod 512 \<le> unat (p_paddr ph) \<and> seg_start ph + 512 * seg_sectors ph < 2 ^ 32
     \<and> unat (p_paddr ph) + unat (p_memsz ph) < 2 ^ 32"

lemma seg_fits: "seg_ok ph \<Longrightarrow> unat (p_paddr ph) + unat (p_filesz ph) \<le> seg_start ph + 512 * seg_sectors ph"
  by (auto simp: seg_ok_def seg_start_def seg_sectors_def arrival_def sectors_def)

lemma load_segment_ok:
  assumes "seg_ok ph" "ready_for (2 * seg_sectors ph + n) (bstatus b)"
  shows "\<exists>b'. load_segment disk ph b = Inr b' \<and> ready_for n (bstatus b') \<and> loaded disk ph (bmem b') \<and> (\<forall>a. \<not> touched ph a \<longrightarrow> bmem b' a = bmem b a)"
proof -
  let ?pa = "p_paddr ph" and ?f = "p_filesz ph" and ?m = "p_memsz ph" and ?o = "p_offset ph"
  note fits = seg_fits [OF assms(1)]
  have size: "unat ?pa + seg_size ph < 2 ^ 32" using assms(1) fits by (auto simp: seg_ok_def seg_size_def)
  then have at: "unat (?pa + of_nat k) = unat ?pa + k" if "k < seg_size ph" for k using that by (simp add: unat_word_ariths unat_of_nat)
  obtain b1 where b1: "read_segment disk ?pa ?f ?o b = Inr b1" "ready_for n (bstatus b1)"
      "\<And>a. bmem b1 a = (if in_range (seg_start ph) (512 * seg_sectors ph) a then kernel_file disk (unat ?o - unat ?o mod 512 + (unat a - seg_start ph)) else bmem b a)"
    using read_segment_ok [of ?o ?pa ?f n b disk] assms unfolding seg_ok_def seg_start_def seg_sectors_def by blast
  have from_file: "bmem b1 (?pa + of_nat k) = seg_image disk ph k" if "k < unat ?f" for k
  proof -
    have "unat (?pa + of_nat k) = unat ?pa + k" using that by (intro at) (simp add: seg_size_def)
    then show ?thesis unfolding b1(3) using that fits assms(1) by (auto simp: in_range_def seg_image_def seg_ok_def seg_start_def arrival_def)
  qed
  show ?thesis
  proof (cases "?f < ?m")
    case True
    let ?b = "stosb (?pa + ?f) 0 (?m - ?f) b1"
    have u: "unat (?pa + ?f) = unat ?pa + unat ?f" "unat (?m - ?f) = unat ?m - unat ?f" "unat ?f < unat ?m"
      using True size by (simp_all add: seg_size_def unat_word_ariths unat_sub_if' word_less_nat_alt)
    have "a - (?pa + ?f) < ?m - ?f \<longleftrightarrow> in_range (unat ?pa + unat ?f) (unat ?m - unat ?f) a" for a
      using below_offset [of "?pa + ?f" "unat ?m - unat ?f" a] size u by (simp add: word_less_nat_alt seg_size_def)
    then have m: "bmem ?b a = (if in_range (unat ?pa + unat ?f) (unat ?m - unat ?f) a then 0 else bmem b1 a)" for a by (simp add: stosb_def)
    have "load_segment disk ph b = Inr ?b" using b1(1) True size by (simp add: load_segment_def ptr_add_def seg_size_def)
    moreover have "loaded disk ph (bmem ?b)" unfolding loaded_def m
      using at from_file u by (auto simp: in_range_def seg_image_def seg_size_def)
    moreover have "bmem ?b a = bmem b a" if "\<not> touched ph a" for a using that u(3) unfolding m b1(3) by (auto simp: touched_def in_range_def)
    ultimately show ?thesis using b1(2) by (auto simp: stosb_def)
  next
    case False
    then have "seg_size ph = unat ?f" by (simp add: seg_size_def word_less_nat_alt)
    then show ?thesis using b1 from_file False by (auto simp: load_segment_def loaded_def touched_def)
  qed
qed

section \<open>Headers\<close>

definition same_on :: "nat \<Rightarrow> nat \<Rightarrow> bytes_mem \<Rightarrow> bytes_mem \<Rightarrow> bool" where
  "same_on base n m m' \<longleftrightarrow> (\<forall>a. in_range base n a \<longrightarrow> m a = m' a)"

lemma same_byte:
  assumes "same_on base n m m'" "base \<le> unat a" "unat a + k < base + n" "base + n \<le> 2 ^ 32"
  shows "m (a + of_nat k) = m' (a + of_nat k)"
proof -
  have "unat (a + of_nat k) = unat a + k" using assms by (simp add: unat_word_ariths unat_of_nat)
  then show ?thesis using assms by (auto simp: same_on_def in_range_def)
qed

lemma same_words:
  assumes "same_on base n m m'" "base \<le> unat a" "base + n \<le> 2 ^ 32"
  shows "unat a + k + 4 \<le> base + n \<Longrightarrow> mem_u32 m (a + of_nat k) = mem_u32 m' (a + of_nat k)"
    and "unat a + k + 2 \<le> base + n \<Longrightarrow> mem_u16 m (a + of_nat k) = mem_u16 m' (a + of_nat k)"
proof -
  note b = same_byte [OF assms(1,2) _ assms(3)]
  show "unat a + k + 4 \<le> base + n \<Longrightarrow> mem_u32 m (a + of_nat k) = mem_u32 m' (a + of_nat k)"
    using b [of k] b [of "k + 1"] b [of "k + 2"] b [of "k + 3"] by (simp add: mem_u32_def ac_simps)
  show "unat a + k + 2 \<le> base + n \<Longrightarrow> mem_u16 m (a + of_nat k) = mem_u16 m' (a + of_nat k)"
    using b [of k] b [of "k + 1"] by (simp add: mem_u16_def ac_simps)
qed

lemma same_prog_header:
  assumes "same_on base n m m'" "base \<le> unat a" "unat a + 32 \<le> base + n" "base + n \<le> 2 ^ 32"
  shows "prog_header m a = prog_header m' a"
  using same_words(1) [OF assms(1,2,4), of 0] same_words(1) [OF assms(1,2,4), of 4] same_words(1) [OF assms(1,2,4), of 8]
    same_words(1) [OF assms(1,2,4), of 12] same_words(1) [OF assms(1,2,4), of 16] same_words(1) [OF assms(1,2,4), of 20]
    same_words(1) [OF assms(1,2,4), of 24] same_words(1) [OF assms(1,2,4), of 28] assms(3)
  by (simp add: prog_header_def)

lemma same_elf_header:
  assumes "same_on 0x10000 4096 m m'"
  shows "elf_header m 0x10000 = elf_header m' 0x10000"
proof -
  note w = same_words [OF assms, of "0x10000", simplified] and b = same_byte [OF assms, of "0x10000", simplified]
  have "mem_bytes m 0x10000 16 = mem_bytes m' 0x10000 16" unfolding mem_bytes_def by (intro map_cong refl b) simp
  then show ?thesis
    using w(1) [of 20] w(1) [of 24] w(1) [of 28] w(1) [of 32] w(1) [of 36] w(2) [of 16] w(2) [of 18] w(2) [of 40] w(2) [of 42]
      w(2) [of 44] w(2) [of 46] w(2) [of 48] w(2) [of 50]
    by (simp add: elf_header_def)
qed

section \<open>The whole kernel\<close>

definition apart :: "nat \<Rightarrow> nat \<Rightarrow> nat \<Rightarrow> nat \<Rightarrow> bool" where
  "apart base n base' n' \<longleftrightarrow> base + n \<le> base' \<or> base' + n' \<le> base"

text \<open>Loading \<open>ph\<close> leaves a range of memory as it is.\<close>

definition avoids :: "ProgHeader \<Rightarrow> nat \<Rightarrow> nat \<Rightarrow> bool" where
  "avoids ph base n \<longleftrightarrow> apart base n (seg_start ph) (512 * seg_sectors ph) \<and> apart base n (unat (p_paddr ph)) (unat (p_memsz ph))"

definition loadable :: "ProgHeader list \<Rightarrow> bool" where
  "loadable phs \<longleftrightarrow> (\<forall>ph \<in> set phs. seg_ok ph \<and> avoids ph 0x10000 4096)
     \<and> sorted_wrt (\<lambda>ph ph'. avoids ph' (unat (p_paddr ph)) (seg_size ph)) phs"

lemma avoids_same: "avoids ph base n \<Longrightarrow> (\<forall>a. \<not> touched ph a \<longrightarrow> m' a = m a) \<Longrightarrow> same_on base n m' m"
  by (auto simp: same_on_def avoids_def apart_def touched_def in_range_def)

lemma loaded_same:
  assumes "loaded disk ph m" "same_on (unat (p_paddr ph)) (seg_size ph) m' m" "seg_ok ph"
  shows "loaded disk ph m'"
proof -
  have "unat (p_paddr ph) + seg_size ph \<le> 2 ^ 32" using assms(3) seg_fits [OF assms(3)] by (auto simp: seg_ok_def seg_size_def)
  then show ?thesis using assms(1) same_byte [OF assms(2)] by (simp add: loaded_def)
qed

lemma load_segments_ok:
  assumes "loadable (map (prog_header hm) as)" "\<forall>a \<in> set as. 0x10000 \<le> unat a \<and> unat a + 32 \<le> 0x11000" "same_on 0x10000 4096 (bmem b) hm"
    and "ready_for (2 * sum_list (map (\<lambda>x. seg_sectors (prog_header hm x)) as)) (bstatus b)"
  shows "\<exists>b'. load_segments disk as b = Inr b' \<and> same_on 0x10000 4096 (bmem b') hm \<and> (\<forall>ph \<in> set (map (prog_header hm) as). loaded disk ph (bmem b'))
    \<and> (\<forall>base n. (\<forall>ph \<in> set (map (prog_header hm) as). avoids ph base n) \<longrightarrow> same_on base n (bmem b') (bmem b))"
  using assms
proof (induction as arbitrary: b)
  case (Cons a as)
  let ?ph = "prog_header hm a" and ?phs = "map (prog_header hm) as"
  have ph: "prog_header (bmem b) a = ?ph" by (rule same_prog_header [OF Cons.prems(3)]) (use Cons.prems(2) in auto)
  have ok: "seg_ok ?ph" "avoids ?ph 0x10000 4096" "loadable ?phs" "\<forall>ph \<in> set ?phs. avoids ph (unat (p_paddr ?ph)) (seg_size ?ph)"
    using Cons.prems(1) by (auto simp: loadable_def)
  obtain b1 where b1: "load_segment disk ?ph b = Inr b1" "ready_for (2 * sum_list (map (\<lambda>x. seg_sectors (prog_header hm x)) as)) (bstatus b1)"
      "loaded disk ?ph (bmem b1)" "\<forall>x. \<not> touched ?ph x \<longrightarrow> bmem b1 x = bmem b x"
    using load_segment_ok [OF ok(1), of "2 * sum_list (map (\<lambda>x. seg_sectors (prog_header hm x)) as)" b disk] Cons.prems(4) by auto
  have s1: "same_on base n (bmem b1) (bmem b)" if "avoids ?ph base n" for base n using avoids_same [OF that b1(4)] .
  have "same_on 0x10000 4096 (bmem b1) hm" using s1 [OF ok(2)] Cons.prems(3) by (simp add: same_on_def)
  then obtain b2 where b2: "load_segments disk as b1 = Inr b2" "same_on 0x10000 4096 (bmem b2) hm" "\<forall>ph \<in> set ?phs. loaded disk ph (bmem b2)"
      "\<And>base n. \<forall>ph \<in> set ?phs. avoids ph base n \<Longrightarrow> same_on base n (bmem b2) (bmem b1)"
    using Cons.IH [OF ok(3) _ _ b1(2)] Cons.prems(2) by auto
  have "loaded disk ?ph (bmem b2)" by (rule loaded_same [OF b1(3) b2(4) [OF ok(4)] ok(1)])
  moreover have "same_on base n (bmem b2) (bmem b)" if "\<forall>ph \<in> set (?ph # ?phs). avoids ph base n" for base n
    using b2(4) [of base n] s1 [of base n] that by (auto simp: same_on_def)
  ultimately show ?case using b1(1) b2(1-3) ph by simp
qed (simp add: same_on_def)

text \<open>The first page of the file, where the loader puts it.\<close>

definition header_mem :: "disk \<Rightarrow> bytes_mem" where
  "header_mem disk a = kernel_file disk (unat (a - 0x10000))"

definition kernel_header :: "disk \<Rightarrow> ElfHeader" where
  "kernel_header disk = elf_header (header_mem disk) 0x10000"

definition kernel_segments :: "disk \<Rightarrow> ProgHeader list" where
  "kernel_segments disk = map (prog_header (header_mem disk)) (prog_headers 0x10000 (kernel_header disk))"

lemma first_page:
  assumes "ready_for (16 + n) (bstatus b)"
  shows "\<exists>b'. read_segment disk 0x10000 4096 0 b = Inr b' \<and> ready_for n (bstatus b') \<and> same_on 0x10000 4096 (bmem b') (header_mem disk)"
proof -
  have s: "sectors 0 4096 = 8" "arrival 0x10000 0 = 0x10000" by (simp_all add: sectors_def arrival_def)
  obtain b1 where "read_segment disk 0x10000 4096 0 b = Inr b1" "ready_for n (bstatus b1)"
      "\<forall>a. bmem b1 a = (if in_range 0x10000 4096 a then kernel_file disk (unat a - 0x10000) else bmem b a)"
    using read_segment_ok [of 0 "0x10000" 4096 n b disk] assms by (auto simp: s)
  moreover have "unat (a - 0x10000) = unat a - 0x10000" if "in_range 0x10000 4096 a" for a
    using in_range_offset [of "0x10000" 4096 a] that by simp
  ultimately show ?thesis by (auto simp: same_on_def header_mem_def)
qed

lemma header_addresses:
  assumes "unat (e_phoff h) + 32 * unat (e_phnum h) \<le> 4096" "a \<in> set (prog_headers 0x10000 h)"
  shows "0x10000 \<le> unat a \<and> unat a + 32 \<le> 0x11000"
proof -
  obtain i where i: "i < unat (e_phnum h)" "a = 0x10000 + e_phoff h + 32 * of_nat i" using assms(2) by (auto simp: prog_headers_def)
  then have "unat (e_phoff h) + 32 * i + 32 \<le> 4096" using assms(1) by simp
  then have "unat a = 0x10000 + unat (e_phoff h) + 32 * i" by (simp add: i(2) unat_word_ariths unat_of_nat)
  then show ?thesis using \<open>unat (e_phoff h) + 32 * i + 32 \<le> 4096\<close> by simp
qed

section \<open>Properties\<close>

text \<open>C5. The boot loader loads the kernel and calls its entry point. For a kernel file with a valid ELF header and its program
  headers in the first 4096 bytes, whose segments fit into memory so that loading one does not write over the
  headers or over an earlier segment, and a disk that reports ready often enough, \<^verbatim>\<open>boot_main\<close> ends with a call of the entry point,
  and each segment is in memory at its physical address, byte by byte and padded with zeros.\<close>

theorem boot_loads_kernel:
  assumes "elf_verify (kernel_header disk)" "unat (e_phoff (kernel_header disk)) + 32 * unat (e_phnum (kernel_header disk)) \<le> 4096"
    and "loadable (kernel_segments disk)" "ready_for (16 + 2 * sum_list (map seg_sectors (kernel_segments disk))) (bstatus b)"
  shows "\<exists>b'. boot_main disk b = Inr (Some (e_entry (kernel_header disk)), b') \<and> (\<forall>ph \<in> set (kernel_segments disk). loaded disk ph (bmem b'))"
proof -
  obtain b1 where b1: "read_segment disk 0x10000 4096 0 b = Inr b1" "ready_for (2 * sum_list (map seg_sectors (kernel_segments disk))) (bstatus b1)"
      "same_on 0x10000 4096 (bmem b1) (header_mem disk)"
    using first_page [OF assms(4)] by blast
  have h: "elf_header (bmem b1) 0x10000 = kernel_header disk" unfolding kernel_header_def by (rule same_elf_header [OF b1(3)])
  have "\<forall>a \<in> set (prog_headers 0x10000 (kernel_header disk)). 0x10000 \<le> unat a \<and> unat a + 32 \<le> 0x11000"
    using header_addresses [OF assms(2)] by blast
  then obtain b2 where b2: "load_segments disk (prog_headers 0x10000 (kernel_header disk)) b1 = Inr b2" "same_on 0x10000 4096 (bmem b2) (header_mem disk)"
      "\<forall>ph \<in> set (kernel_segments disk). loaded disk ph (bmem b2)"
    using load_segments_ok [OF assms(3) [unfolded kernel_segments_def] _ b1(3)] b1(2) unfolding kernel_segments_def map_map comp_def by blast
  have "elf_header (bmem b2) 0x10000 = kernel_header disk" unfolding kernel_header_def by (rule same_elf_header [OF b2(2)])
  then show ?thesis using b1(1) b2(1,3) assms(1) by (simp add: boot_main_def h)
qed

text \<open>A kernel of one segment: 700 bytes of the file at 1 MiB, padded to 1000 bytes.\<close>

definition demo_elf :: "u8 list" where
  "demo_elf = [0x7F, 0x45, 0x4C, 0x46, 1, 1, 1, 0, 0, 0, 0, 0, 0, 0, 0, 0, 2, 0, 3, 0, 1, 0, 0, 0, 0x0C, 0, 0x10, 0, 52, 0, 0, 0,
     0, 0, 0, 0, 0, 0, 0, 0, 52, 0, 32, 0, 1, 0, 0, 0, 0, 0, 0, 0, 1, 0, 0, 0, 0, 0x10, 0, 0, 0, 0, 0x10, 0x80, 0, 0, 0x10, 0,
     0xBC, 0x02, 0, 0, 0xE8, 0x03, 0, 0, 7, 0, 0, 0, 0, 0x10, 0, 0]"

definition demo_disk :: disk where
  "demo_disk sector k = (let n = 512 * (sector - 1) + k in if n < 84 then demo_elf ! n else 0xAB)"

lemma demo_file: "kernel_file demo_disk k = (if k < 84 then demo_elf ! k else 0xAB)"
  by (simp add: kernel_file_def demo_disk_def Let_def)

lemma demo_header: "elf_verify (kernel_header demo_disk)" "e_phoff (kernel_header demo_disk) = 52" "e_phnum (kernel_header demo_disk) = 1"
  "e_entry (kernel_header demo_disk) = 0x10000C"
  by (simp_all add: kernel_header_def elf_header_def elf_verify_def ELF_MAGIC_def mem_bytes_def mem_u32_def mem_u16_def header_mem_def demo_file demo_elf_def upt_rec)

lemma demo_segments: "kernel_segments demo_disk = [\<lparr>p_type = 1, p_offset = 0x1000, p_vaddr = 0x80100000, p_paddr = 0x100000, p_filesz = 700, p_memsz = 1000, p_flags = 7, p_align = 0x1000\<rparr>]"
  by (simp add: kernel_segments_def prog_headers_def demo_header prog_header_def mem_u32_def header_mem_def demo_file demo_elf_def)

lemmas demo_sizes = seg_ok_def avoids_def apart_def seg_start_def seg_sectors_def arrival_def sectors_def seg_size_def loadable_def

theorem boot_loads_kernel_witness:
  "\<exists>b'. boot_main demo_disk \<lparr>bmem = (\<lambda>_. 0x55), bstatus = replicate 20 0x40, btrace = []\<rparr> = Inr (Some 0x10000C, b')
     \<and> bmem b' 0x100010 = 0xAB \<and> bmem b' 0x1003E7 = 0"
proof -
  let ?b = "\<lparr>bmem = (\<lambda>_. 0x55), bstatus = replicate 20 0x40, btrace = []\<rparr>"
  have "ready_for (16 + 2 * sum_list (map seg_sectors (kernel_segments demo_disk))) (bstatus ?b)"
    by (simp add: demo_segments ready_for_def disk_ready_def seg_sectors_def sectors_def)
  moreover have "loadable (kernel_segments demo_disk)" by (simp add: demo_segments demo_sizes)
  ultimately obtain b' where b': "boot_main demo_disk ?b = Inr (Some 0x10000C, b')" "\<forall>ph \<in> set (kernel_segments demo_disk). loaded demo_disk ph (bmem b')"
    using boot_loads_kernel [OF demo_header(1), of ?b] by (auto simp: demo_header)
  then have l: "loaded demo_disk (hd (kernel_segments demo_disk)) (bmem b')" by (simp add: demo_segments)
  show ?thesis using b'(1) loadedD [OF l, of 16] loadedD [OF l, of 999] by (simp add: seg_image_def demo_segments demo_file seg_size_def)
qed

end
