(* ===== verification/Spec2Isabelle.thy ===== *)
theory Spec2Isabelle
  imports Kernel_Main Lock_Steps Mkfs_Image Bootloader
begin

text \<open>
  A verification library for rusty-xv6, a port of the xv6 teaching kernel for i386 to Rust: a boot loader, a kernel with
  paging, traps, processes, spin and sleep locks, a disk driver, a block cache and an inode cache, and a host tool that
  builds the file system image.

  \<^bold>\<open>How the parts interact.\<close> The boot sector loads the kernel from the disk and jumps to its entry code, which turns on
  paging with a static page directory and calls \<^verbatim>\<open>main\<close>. That initialises the heap, the kernel page table, the processors
  that the firmware lists, the interrupt controllers, the console, the process table, the trap vectors and the disk, starts
  the other processors, creates the first process and enters the scheduler. Processes enter the kernel by traps; they would
  use the inode cache over the block cache over the disk driver, whose requests complete by interrupts. The disk image is
  written beforehand by \<^verbatim>\<open>mkfs\<close>.

  \<^bold>\<open>Conventions.\<close> Integers keep their width (\<^verbatim>\<open>usize\<close> has 32 bits in the kernel). The kernel is modelled as its debug build:
  overflow, bounds and assertion failures panic; the boot loader and \<^verbatim>\<open>mkfs\<close> as release builds. An operation that can fail
  returns a \<open>res\<close>, the sum of a \<open>fault\<close> and a result; the faults are a panic with its message, an unwritten part
  (\<^verbatim>\<open>todo!()\<close>), undefined behaviour (use after free, unaligned access), waiting forever, and an I/O error. What devices
  return is a list of values from which reads take the next one; a wait on an exhausted list is the fault \<open>Spin\<close>. What is
  written to devices is recorded in order. The allocator crate, the addresses of linker symbols and the pieces that
  \<^verbatim>\<open>core::fmt\<close> produces are arguments; what is relied on of the allocator is a named hypothesis (\<open>page_alloc_ok\<close>,
  \<open>box_alloc_ok\<close>, \<open>heap_laws\<close>, \<open>heap_ready\<close>) which each witness discharges for a concrete allocator. An operation of a processor takes its APIC identifier \<open>me\<close>. Allocations
  inside other operations leave out the lock of the heap, which \<open>KernelHeap_alloc\<close> has. Operations that wait are cut at their call of \<^verbatim>\<open>switch\<close>.

  \<^bold>\<open>Theories.\<close>
  \<^item> \<open>Xv6_Prelude\<close>: faults and results, checked arithmetic, loops over ranges, and shared facts on words.
  \<^item> \<open>Address\<close>, \<open>Paging\<close>: typed addresses (\<^verbatim>\<open>utils/src/address.rs\<close>), the memory layout and page directory entries
    (\<^verbatim>\<open>kernel/src/memory.rs\<close>), \<^verbatim>\<open>walk_page_dir\<close>, \<^verbatim>\<open>map_pages\<close>, \<^verbatim>\<open>setup_kvm\<close> and \<^verbatim>\<open>uvm::init\<close> (\<^verbatim>\<open>kernel/src/vm.rs\<close>), and the processor's address
    translation. \<open>Kvm\<close> has the invariant of page tables and the locale \<open>page_mapper\<close>; \<open>Address_Space\<close> shows which
    address spaces these operations build, and that \<^verbatim>\<open>map_pages\<close> ends.
  \<^item> \<open>Descriptors\<close>: segment and gate descriptors, the tables of \<^verbatim>\<open>seginit\<close> and \<^verbatim>\<open>trap::init\<close>.
  \<^item> \<open>Cpus\<close>, \<open>Locks\<close>, \<open>Lock_Steps\<close>: per-processor state, nested disabling of interrupts and spin locks (\<^verbatim>\<open>kernel/src/lock.rs\<close>). \<open>Locks\<close> runs an
    operation in one piece, under the locale \<open>bracket\<close>; \<open>Lock_Steps\<close> interleaves the atomic accesses of all
    processors in a step relation, on which mutual exclusion is an invariant, and relates the two.
  \<^item> \<open>I386\<close>, \<open>Context_Switch\<close>, \<open>Traps\<close>: the instructions that the assembly uses, \<^verbatim>\<open>switch\<close>, the vector stubs, \<^verbatim>\<open>alltraps\<close> and \<^verbatim>\<open>trapret\<close>.
  \<^item> \<open>Process\<close>, \<open>Scheduling\<close>, \<open>First_Process\<close>: \<^verbatim>\<open>kernel/src/proc.rs\<close>. \<open>Scheduling\<close> shows what the scheduler, \<^verbatim>\<open>sleep\<close> and \<^verbatim>\<open>wakeup\<close> do,
    \<open>First_Process\<close> follows the first process from \<^verbatim>\<open>user_init\<close> through \<^verbatim>\<open>switch\<close>, \<^verbatim>\<open>forkret\<close> and \<^verbatim>\<open>trapret\<close> into user mode.
  \<^item> \<open>Ports\<close>, \<open>Byte_Memory\<close>: port accesses and memory by bytes. \<open>Ide\<close>: the disk driver. \<open>Apic\<close>: the interrupt controllers. \<open>Mp\<close>: the tables of
    the firmware. \<open>Console\<close>: the VGA text screen and the serial line.
  \<^item> \<open>Sleep_Locks\<close>, \<open>Bcache\<close>, \<open>Paths\<close>, \<open>Inode\<close>: sleep locks and the file system of the kernel (\<^verbatim>\<open>kernel/src/fs\<close>). \<open>Keyed_Cache\<close> is the locale of a
    cache that identifies objects by key; both caches interpret it.
  \<^item> \<open>Bytes\<close>, \<open>Mkfs\<close>, \<open>Mkfs_Blocks\<close>, \<open>Mkfs_Slots\<close>, \<open>Mkfs_Files\<close>, \<open>Mkfs_Image\<close>: the image builder (\<^verbatim>\<open>mkfs/src\<close>), its on-disk structures and the contents of the
    image it writes. The locale \<open>block_store\<close> is the image as an array of sectors.
  \<^item> \<open>Bootloader\<close>, \<open>Boot_Code\<close>: the boot loader and the assembly that starts the processors. \<open>Kernel_Heap\<close>: the memory that \<^verbatim>\<open>main\<close> gives to the
    allocator (\<^verbatim>\<open>kernel/src/kalloc.rs\<close>). \<open>Startup\<close>: the other processors, from \<^verbatim>\<open>start_others\<close> through \<^verbatim>\<open>ap_start\<close> to \<^verbatim>\<open>mp_main\<close> (\<^verbatim>\<open>kernel/src/main.rs\<close>).
    \<open>Supply\<close>: how much memory page tables and the first process need. \<open>Kernel_Main\<close>: the main function of the kernel (\<open>kmain\<close>), which composes
    the initialisation of all components; its state \<open>kernel\<close> holds theirs, and \<open>link\<close> what it is linked with.

  \<^bold>\<open>What is shown.\<close> Address spaces: the kernel's and the first process's translate exactly as documented. Start: the boot
  loader puts every segment in place, the boot and entry code reach \<^verbatim>\<open>boot_main\<close> and \<^verbatim>\<open>main\<close> in the right mode,
  \<^verbatim>\<open>start_others\<close> brings up every processor on a stack and with descriptor tables of its own, \<^verbatim>\<open>main\<close> as a whole reaches the scheduler with all
  processors started, the devices routed and the first process runnable, and the heap only holds memory that is mapped. Concurrency:
  spin locks exclude each other, are held with interrupts off, and their misuse panics. Processes: context switches and traps are transparent,
  the scheduler runs processes in turn, and the first process reaches its program. Devices: disk requests are served in
  order, interrupts are routed as requested, printed text appears on the screen. File system: reference counts of the block
  cache, identity of cached inodes, path splitting; the image that \<^verbatim>\<open>mkfs\<close> writes contains every file. Several properties
  are about errors of the code: a running process never gets to sleep, so neither to wait for a sleep lock nor to read a block that is not cached, the scheduler keeps its locks across the switch, vectors with a hardware error
  code return to the wrong address, disk reads are never commanded, dropping the last reference to a buffer uses freed memory.

  \<^bold>\<open>Loops.\<close> Loops over data are structural; the loops of \<^verbatim>\<open>map_pages\<close>, of the search for the MP tables and over their entries have fuel
  that is computed from the size of the range, and it is proved that it is enough. The loop that reads a segment is a total function, since
  pointer arithmetic that leaves the address space is a fault. Loops that wait for a device end by a hypothesis on what it returns.

  \<^bold>\<open>Not modelled.\<close> The allocator crate \<^verbatim>\<open>linked_list_allocator\<close> and \<^verbatim>\<open>lazy_static\<close> are external. \<^verbatim>\<open>forkret\<close>'s first run, \<^verbatim>\<open>console_read\<close>, \<^verbatim>\<open>console_write\<close>,
  \<^verbatim>\<open>SuperBlock::read\<close>, \<^verbatim>\<open>free_disk_block\<close>, \<^verbatim>\<open>InodeBody::read\<close> and \<^verbatim>\<open>write\<close> and \<^verbatim>\<open>uvm::dealloc\<close> are unwritten in the source (the fault \<open>Todo\<close>). Log messages, the formatting macros,
  \<^verbatim>\<open>Debug\<close> implementations and the test runner only produce output; where \<^verbatim>\<open>main\<close> prints a log message, only what it asks for is modelled. While \<^verbatim>\<open>main\<close>
  goes on, the processors that it has started are stopped at their calls of the scheduler. The root directory that \<^verbatim>\<open>user_init\<close> looks up is an argument
  there. The checks of \<^verbatim>\<open>iret\<close> on descriptors and the memory of the boot loader itself are outside of the machine model. The user program \<^verbatim>\<open>init\<close> is an empty loop.
\<close>

end
